(* ===== verification/Yfs_Prelude.thy ===== *)
theory Yfs_Prelude
  imports Main "HOL-Library.Word" "HOL-Library.Monad_Syntax"
begin

unbundle bit_operations_syntax

text \<open>
  Shared vocabulary of the development: bytes and raw memory buffers, the little-endian
  integers that the C++ structs put into disk blocks, the environment of a call (clock
  readings and uninitialised memory), counted loops, and the lemma collections
  \<open>mem_simps\<close> (buffers and integers) and \<open>loop_simps\<close> (loops) that the component
  theories extend and use.

  A result of type \<open>'a option\<close> models code that can fail hard: \<open>None\<close> is a crash or
  undefined behaviour (a null dereference, an access outside an array, a failed
  \<open>VERIFY\<close>), \<open>Some r\<close> is a normal return with result \<open>r\<close>.
\<close>

named_theorems mem_simps \<open>reading and writing raw memory\<close>
named_theorems loop_simps \<open>unfolding counted loops\<close>

section \<open>Memory\<close>

text \<open>
  A pointer into memory is the function from an offset to the byte found there, so
  \<open>p + off\<close> of the source is \<open>ptr_add p off\<close>.
\<close>

type_synonym byte = "8 word"
type_synonym buffer = "nat \<Rightarrow> byte"

definition ptr_add :: "buffer \<Rightarrow> nat \<Rightarrow> buffer" where
  "ptr_add p off = (\<lambda>i. p (off + i))"

text \<open>\<open>memcpy_at dst off src n\<close> is the memory of \<open>dst\<close> after \<open>memcpy(dst + off, src, n)\<close>.\<close>

definition memcpy_at :: "buffer \<Rightarrow> nat \<Rightarrow> buffer \<Rightarrow> nat \<Rightarrow> buffer" where
  "memcpy_at dst off src n = (\<lambda>i. if off \<le> i \<and> i < off + n then src (i - off) else dst i)"

definition zeros :: buffer where
  "zeros = (\<lambda>_. 0)"

lemma ptr_add_apply [simp]: "ptr_add p off i = p (off + i)"
  by (simp add: ptr_add_def)

lemma ptr_add_0 [simp]: "ptr_add p 0 = p"
  by (simp add: ptr_add_def)

lemma ptr_add_add [simp]: "ptr_add (ptr_add p a) b = ptr_add p (a + b)"
  by (simp add: ptr_add_def add.assoc)

lemma memcpy_at_in [mem_simps]: "off \<le> i \<Longrightarrow> i < off + n \<Longrightarrow> memcpy_at dst off src n i = src (i - off)"
  by (simp add: memcpy_at_def)

lemma memcpy_at_out [mem_simps]: "i < off \<or> off + n \<le> i \<Longrightarrow> memcpy_at dst off src n i = dst i"
  by (auto simp: memcpy_at_def)

section \<open>Integers in memory\<close>

text \<open>
  Unsigned machine integers are natural numbers below \<open>2 ^ 16\<close> or \<open>2 ^ 32\<close>; storing one
  reduces it modulo its width. The byte order is little-endian, as on the x86 hosts that
  the program is built for.
\<close>

definition get_u16 :: "buffer \<Rightarrow> nat \<Rightarrow> nat" where
  "get_u16 b p = unat (b p) + 256 * unat (b (p + 1))"

definition put_u16 :: "buffer \<Rightarrow> nat \<Rightarrow> nat \<Rightarrow> buffer" where
  "put_u16 b p n = b(p := of_nat n, p + 1 := of_nat (n div 256))"

definition get_u32 :: "buffer \<Rightarrow> nat \<Rightarrow> nat" where
  "get_u32 b p = get_u16 b p + 65536 * get_u16 b (p + 2)"

definition put_u32 :: "buffer \<Rightarrow> nat \<Rightarrow> nat \<Rightarrow> buffer" where
  "put_u32 b p n = put_u16 (put_u16 b p n) (p + 2) (n div 65536)"

lemma unat_byte_less: "unat (x :: byte) < 256"
  by (rule order_less_le_trans [OF unsigned_less]) simp

lemma unat_byte_of_nat: "unat (of_nat n :: byte) = n mod 256"
  by (simp add: unat_of_nat)

lemma get_u16_less: "get_u16 b p < 65536"
  using unat_byte_less [of "b p"] unat_byte_less [of "b (p + 1)"] by (simp add: get_u16_def)

lemma get_u32_less: "get_u32 b p < 2 ^ 32"
  using get_u16_less [of b p] get_u16_less [of b "p + 2"] by (simp add: get_u32_def)

lemma get_put_u16_same [mem_simps]: "get_u16 (put_u16 b p n) p = n mod 65536"
proof -
  have "n mod 65536 = n mod 256 + 256 * (n div 256 mod 256)"
    using mod_mult2_eq [of n 256 256] by simp
  then show ?thesis
    by (simp add: get_u16_def put_u16_def unat_byte_of_nat)
qed

lemma get_put_u16_other [mem_simps]:
  "p + 2 \<le> q \<or> q + 2 \<le> p \<Longrightarrow> get_u16 (put_u16 b p n) q = get_u16 b q"
  by (auto simp: get_u16_def put_u16_def)

lemma put_u16_out [mem_simps]: "q < p \<or> p + 2 \<le> q \<Longrightarrow> put_u16 b p n q = b q"
  by (auto simp: put_u16_def)

lemma get_put_u32_same [mem_simps]: "get_u32 (put_u32 b p n) p = n mod 2 ^ 32"
proof -
  have "n mod 2 ^ 32 = n mod 65536 + 65536 * (n div 65536 mod 65536)"
    using mod_mult2_eq [of n 65536 65536] by simp
  then show ?thesis
    by (simp add: get_u32_def put_u32_def mem_simps)
qed

lemma get_put_u32_other [mem_simps]:
  "p + 4 \<le> q \<or> q + 4 \<le> p \<Longrightarrow> get_u32 (put_u32 b p n) q = get_u32 b q"
  by (auto simp: get_u32_def put_u32_def mem_simps)

lemma get_u16_put_u32_other [mem_simps]:
  "p + 4 \<le> q \<or> q + 2 \<le> p \<Longrightarrow> get_u16 (put_u32 b p n) q = get_u16 b q"
  by (auto simp: put_u32_def mem_simps)

lemma get_u32_put_u16_other [mem_simps]:
  "p + 2 \<le> q \<or> q + 4 \<le> p \<Longrightarrow> get_u32 (put_u16 b p n) q = get_u32 b q"
  by (auto simp: get_u32_def mem_simps)

lemma put_u32_out [mem_simps]: "q < p \<or> p + 4 \<le> q \<Longrightarrow> put_u32 b p n q = b q"
  by (auto simp: put_u32_def mem_simps)

lemma get_u32_cong: "(\<And>i. p \<le> i \<Longrightarrow> i < p + 4 \<Longrightarrow> b i = b' i) \<Longrightarrow> get_u32 b p = get_u32 b' p"
  by (simp add: get_u32_def get_u16_def)

lemma get_u16_cong: "(\<And>i. p \<le> i \<Longrightarrow> i < p + 2 \<Longrightarrow> b i = b' i) \<Longrightarrow> get_u16 b p = get_u16 b' p"
  by (simp add: get_u16_def)

section \<open>The environment of a call\<close>

text \<open>
  What a call reads from outside the program: \<open>now e k\<close> is the value of its \<open>k\<close>-th
  \<open>time(NULL)\<close> and \<open>junk e k\<close> the contents of the \<open>k\<close>-th piece of uninitialised memory
  (a fresh \<open>malloc\<close>, a local array, or what lies behind the end of a buffer). Nothing is
  assumed about either.
\<close>

record env =
  now :: "nat \<Rightarrow> nat"
  junk :: "nat \<Rightarrow> buffer"

section \<open>Arrays and loops\<close>

text \<open>Array reads with their bound: outside the array the behaviour is undefined.\<close>

definition arr_get :: "'a list \<Rightarrow> nat \<Rightarrow> 'a option" where
  "arr_get xs i = (if i < length xs then Some (xs ! i) else None)"

lemma arr_get_in [simp]: "i < length xs \<Longrightarrow> arr_get xs i = Some (xs ! i)"
  by (simp add: arr_get_def)

lemma arr_get_out [simp]: "length xs \<le> i \<Longrightarrow> arr_get xs i = None"
  by (simp add: arr_get_def)

text \<open>
  A counted loop \<open>for (i = a; i < b; i++)\<close> whose body cannot fail is \<open>fold\<close> over
  \<open>[a..<b]\<close>; with a body that can fail it is \<open>ofold\<close>.
\<close>

fun ofold :: "('a \<Rightarrow> 's \<Rightarrow> 's option) \<Rightarrow> 'a list \<Rightarrow> 's \<Rightarrow> 's option" where
  "ofold f [] s = Some s"
| "ofold f (x # xs) s = do { s' \<leftarrow> f x s; ofold f xs s' }"

lemma ofold_Nil_eq [simp]: "ofold f [] = Some"
  by (rule ext) simp

lemma ofold_append: "ofold f (xs @ ys) s = do { s' \<leftarrow> ofold f xs s; ofold f ys s' }"
  by (induction xs arbitrary: s) (auto split: bind_splits)

lemma ofold_upt_Suc [loop_simps]:
  "a \<le> b \<Longrightarrow> ofold f [a..<Suc b] s = do { s' \<leftarrow> ofold f [a..<b] s; f b s' }"
  by (simp add: ofold_append)

lemma fold_upt_Suc [loop_simps]: "a \<le> b \<Longrightarrow> fold f [a..<Suc b] s = f b (fold f [a..<b] s)"
  by simp

text \<open>A loop whose body never fails on the indices it visits is a plain \<open>fold\<close>.\<close>

lemma ofold_eq_fold:
  "(\<And>x s. x \<in> set xs \<Longrightarrow> f x s = Some (g x s)) \<Longrightarrow> ofold f xs s = Some (fold g xs s)"
  by (induction xs arbitrary: s) auto

section \<open>Little-endian byte strings\<close>

fun le_bytes :: "nat \<Rightarrow> nat \<Rightarrow> byte list" where
  "le_bytes 0 n = []"
| "le_bytes (Suc k) n = of_nat n # le_bytes k (n div 256)"

definition le_nat :: "byte list \<Rightarrow> nat" where
  "le_nat bs = foldr (\<lambda>b n. unat b + 256 * n) bs 0"

lemma length_le_bytes [simp]: "length (le_bytes k n) = k"
  by (induction k arbitrary: n) simp_all

lemma le_nat_le_bytes: "le_nat (le_bytes k n) = n mod 256 ^ k"
proof (induction k arbitrary: n)
  case (Suc k)
  then show ?case
    using mod_mult2_eq [of n 256 "256 ^ k"] by (simp add: le_nat_def unat_byte_of_nat)
qed (simp add: le_nat_def)

end
