(* ===== verification/Block_Manager.thy ===== *)
theory Block_Manager
  imports Yfs_Prelude
begin

text \<open>
  The disk and the block layer: \<open>class disk\<close> and \<open>class block_manager\<close> of
  \<open>src/yfs/inode_manager.h\<close> and \<open>src/yfs/inode_manager.cc\<close>. Block ids are natural
  numbers (\<open>blockid_t\<close> is 32 bits wide and no id computed here reaches that bound);
  bytes are 8-bit words, because the free-block bitmap works on single bits.
\<close>

section \<open>Layout constants\<close>

definition DISK_SIZE :: nat where
  "DISK_SIZE = 1024 * 1024 * 32"

definition BLOCK_SIZE :: nat where
  "BLOCK_SIZE = 1024 * 16"

definition BLOCK_NUM :: nat where
  "BLOCK_NUM = DISK_SIZE div BLOCK_SIZE"

definition INODE_NUM :: nat where
  "INODE_NUM = 1024"

definition IPB :: nat where
  "IPB = 1"

definition BPB :: nat where
  "BPB = BLOCK_SIZE * 8"

definition IBLOCK :: "nat \<Rightarrow> nat \<Rightarrow> nat" where
  "IBLOCK i nblocks = nblocks div BPB + i div IPB + 3"

definition BBLOCK :: "nat \<Rightarrow> nat" where
  "BBLOCK b = b div BPB + 2"

lemma BLOCK_SIZE_eq: "BLOCK_SIZE = 16384"
  by (simp add: BLOCK_SIZE_def)

lemma BLOCK_SIZE_pos [simp]: "0 < BLOCK_SIZE"
  by (simp add: BLOCK_SIZE_def)

lemma BLOCK_NUM_eq: "BLOCK_NUM = 2048"
  by (simp add: BLOCK_NUM_def DISK_SIZE_def BLOCK_SIZE_def)

lemma BPB_eq: "BPB = 131072"
  by (simp add: BPB_def BLOCK_SIZE_def)

lemma BPB_pos [simp]: "0 < BPB"
  by (simp add: BPB_eq)

lemmas layout_defs = BLOCK_SIZE_eq BLOCK_NUM_eq BPB_eq INODE_NUM_def IPB_def IBLOCK_def BBLOCK_def

section \<open>The disk\<close>

record disk =
  blocks :: "nat \<Rightarrow> buffer"

definition new_disk :: disk where
  "new_disk = \<lparr>blocks = (\<lambda>_. zeros)\<rparr>"

text \<open>
  \<open>disk::read_block\<close> fills the caller's buffer and leaves it alone for an id outside the
  disk; \<open>disk::write_block\<close> ignores such an id. Buffers are never the null pointer here.
\<close>

definition disk_read_block :: "disk \<Rightarrow> nat \<Rightarrow> buffer \<Rightarrow> buffer" where
  "disk_read_block d bid buf =
     (if BLOCK_NUM \<le> bid then buf else memcpy_at buf 0 (blocks d bid) BLOCK_SIZE)"

definition disk_write_block :: "disk \<Rightarrow> nat \<Rightarrow> buffer \<Rightarrow> disk" where
  "disk_write_block d bid buf =
     (if BLOCK_NUM \<le> bid then d
      else d\<lparr>blocks := (blocks d)(bid := memcpy_at (blocks d bid) 0 buf BLOCK_SIZE)\<rparr>)"

section \<open>The block manager\<close>

record superblock =
  sb_size :: nat
  sb_nblocks :: nat
  sb_ninodes :: nat

record block_manager =
  bm_disk :: disk
  bm_sb :: superblock

definition new_block_manager :: block_manager where
  "new_block_manager =
     \<lparr>bm_disk = new_disk,
      bm_sb = \<lparr>sb_size = BLOCK_SIZE * BLOCK_NUM, sb_nblocks = BLOCK_NUM, sb_ninodes = INODE_NUM\<rparr>\<rparr>"

definition bm_read_block :: "block_manager \<Rightarrow> nat \<Rightarrow> buffer \<Rightarrow> buffer" where
  "bm_read_block bm bid buf = disk_read_block (bm_disk bm) bid buf"

definition bm_write_block :: "block_manager \<Rightarrow> nat \<Rightarrow> buffer \<Rightarrow> block_manager" where
  "bm_write_block bm bid buf = bm\<lparr>bm_disk := disk_write_block (bm_disk bm) bid buf\<rparr>"

text \<open>
  The search of \<open>block_manager::alloc_block\<close>. The inner loop walks the bits of one
  bitmap block from \<open>block_bitmap_index\<close> on; bit \<open>bitPos\<close> of a byte counts from its most
  significant end. The outer loop walks the bitmap blocks; \<open>per_block_bitmap\<close> is the
  buffer it reads them into, uninitialised memory at first.
\<close>

function scan_bitmap :: "buffer \<Rightarrow> nat \<Rightarrow> nat option" where
  "scan_bitmap buf k =
     (if k < BLOCK_SIZE * 8
      then (let bytePos = k div 8; bitPos = k - 8 * bytePos; bufByte = buf bytePos
            in if drop_bit (7 - bitPos) bufByte AND 1 = 1 then scan_bitmap buf (k + 1) else Some k)
      else None)"
  by pat_completeness auto
termination
  by (relation "measure (\<lambda>(buf, k). BLOCK_SIZE * 8 - k)") auto

declare scan_bitmap.simps [simp del]

definition set_bitmap_bit :: "buffer \<Rightarrow> nat \<Rightarrow> buffer" where
  "set_bitmap_bit buf k =
     (let bytePos = k div 8; bitPos = k - 8 * bytePos
      in buf(bytePos := buf bytePos OR push_bit (7 - bitPos) 1))"

function alloc_loop :: "disk \<Rightarrow> buffer \<Rightarrow> nat \<Rightarrow> nat \<Rightarrow> nat \<Rightarrow> disk \<times> nat" where
  "alloc_loop d per_block_bitmap block_index fin k =
     (if block_index \<le> fin
      then (let buf = disk_read_block d block_index per_block_bitmap
            in case scan_bitmap buf k of
                 Some j \<Rightarrow> (disk_write_block d block_index (set_bitmap_bit buf j),
                            (block_index - 2) * (8 * BLOCK_SIZE) + j)
               | None \<Rightarrow> alloc_loop d buf (block_index + 1) fin 0)
      else (d, 0))"
  by pat_completeness auto
termination
  by (relation "measure (\<lambda>(d, buf, block_index, fin, k). Suc fin - block_index)") auto

declare alloc_loop.simps [simp del]

definition alloc_block :: "buffer \<Rightarrow> block_manager \<Rightarrow> block_manager \<times> nat" where
  "alloc_block mem bm =
     (let fir_data_blockid = IBLOCK (sb_ninodes (bm_sb bm)) (sb_nblocks (bm_sb bm)) + 1;
          fin_bitmap_blockid = BBLOCK (sb_nblocks (bm_sb bm));
          fir_bitmap_blockid = BBLOCK fir_data_blockid;
          block_bitmap_index = fir_data_blockid mod (BLOCK_SIZE * 8);
          (d, bid) = alloc_loop (bm_disk bm) mem fir_bitmap_blockid fin_bitmap_blockid block_bitmap_index
      in (bm\<lparr>bm_disk := d\<rparr>, bid))"

definition free_block :: "buffer \<Rightarrow> nat \<Rightarrow> block_manager \<Rightarrow> block_manager" where
  "free_block mem bid bm =
     (let target_bitmap_block = BBLOCK bid;
          per_block_bitmap = bm_read_block bm target_bitmap_block mem;
          bitmap_index = bid mod (8 * BLOCK_SIZE);
          byte_index = bitmap_index div 8;
          bit_index = bitmap_index mod 8;
          target_byte = per_block_bitmap byte_index AND NOT (push_bit (7 - bit_index) 1)
      in bm_write_block bm target_bitmap_block (per_block_bitmap(byte_index := target_byte)))"

section \<open>Disk laws\<close>

text \<open>
  The interface the upper layers rely on: a device of \<open>bound\<close> blocks of \<open>BLOCK_SIZE\<close>
  bytes, whose contents \<open>content\<close> the two operations read and write.
\<close>

locale block_device =
  fixes rd :: "'s \<Rightarrow> nat \<Rightarrow> buffer \<Rightarrow> buffer"
    and wr :: "'s \<Rightarrow> nat \<Rightarrow> buffer \<Rightarrow> 's"
    and content :: "'s \<Rightarrow> nat \<Rightarrow> buffer"
    and bound :: nat
  assumes rd_in: "b < bound \<Longrightarrow> i < BLOCK_SIZE \<Longrightarrow> rd s b buf i = content s b i"
    and rd_beyond: "BLOCK_SIZE \<le> i \<Longrightarrow> rd s b buf i = buf i"
    and rd_out: "bound \<le> b \<Longrightarrow> rd s b buf = buf"
    and wr_same: "b < bound \<Longrightarrow> i < BLOCK_SIZE \<Longrightarrow> content (wr s b buf) b i = buf i"
    and wr_other: "c \<noteq> b \<Longrightarrow> content (wr s b buf) c = content s c"
    and wr_out: "bound \<le> b \<Longrightarrow> wr s b buf = s"
begin

lemma rd_wr_same: "b < bound \<Longrightarrow> i < BLOCK_SIZE \<Longrightarrow> rd (wr s b buf) b buf' i = buf i"
  by (simp add: rd_in wr_same)

lemma rd_wr_other: "c \<noteq> b \<Longrightarrow> i < BLOCK_SIZE \<Longrightarrow> rd (wr s b buf) c buf' i = rd s c buf' i"
  by (cases "c < bound") (simp_all add: rd_in rd_out wr_other)

text \<open>A loop that writes the blocks \<open>bs ! i\<close> for \<open>i \<in> set ns\<close>, all different.\<close>

lemma fold_wr_other:
  "c \<notin> (\<lambda>i. bs i) ` set ns \<Longrightarrow> content (fold (\<lambda>i s. wr s (bs i) (f i)) ns s) c = content s c"
  by (induction ns arbitrary: s) (auto simp: wr_other)

lemma fold_wr_same:
  assumes "inj_on bs (set ns)" and "distinct ns" and "n \<in> set ns" and "bs n < bound"
    and "i < BLOCK_SIZE"
  shows "content (fold (\<lambda>i s. wr s (bs i) (f i)) ns s) (bs n) i = f n i"
  using assms
proof (induction ns arbitrary: s)
  case Nil
  then show ?case by simp
next
  case (Cons m ns)
  show ?case
  proof (cases "n = m")
    case True
    with Cons.prems have "bs n \<notin> bs ` set ns"
      by (auto simp: inj_on_def)
    with True Cons.prems show ?thesis
      by (simp add: fold_wr_other wr_same)
  next
    case False
    with Cons show ?thesis by simp
  qed
qed

end

abbreviation bm_blocks :: "block_manager \<Rightarrow> nat \<Rightarrow> buffer" where
  "bm_blocks bm \<equiv> blocks (bm_disk bm)"

interpretation disk: block_device disk_read_block disk_write_block blocks BLOCK_NUM
  by unfold_locales (auto simp: disk_read_block_def disk_write_block_def memcpy_at_def fun_eq_iff)

interpretation bm: block_device bm_read_block bm_write_block bm_blocks BLOCK_NUM
  by unfold_locales
    (auto simp: bm_read_block_def bm_write_block_def disk.rd_in disk.rd_beyond disk.rd_out
      disk.wr_same disk.wr_other disk.wr_out)

lemma bm_write_block_sb [simp]: "bm_sb (bm_write_block bm b buf) = bm_sb bm"
  by (simp add: bm_write_block_def)

section \<open>The free-block bitmap\<close>

text \<open>
  \<open>bm_used bm b\<close>: the bitmap marks block \<open>b\<close> as allocated. The layout of the formatted
  disk, \<open>bm_ok\<close>, puts the whole bitmap into block 2 and the data blocks from 1028 on.
\<close>

definition bit_of :: "buffer \<Rightarrow> nat \<Rightarrow> bool" where
  "bit_of buf k = bit (buf (k div 8)) (7 - k mod 8)"

definition bm_used :: "block_manager \<Rightarrow> nat \<Rightarrow> bool" where
  "bm_used bm b = bit_of (bm_blocks bm (BBLOCK b)) (b mod BPB)"

definition bm_ok :: "block_manager \<Rightarrow> bool" where
  "bm_ok bm \<longleftrightarrow> sb_nblocks (bm_sb bm) = BLOCK_NUM \<and> sb_ninodes (bm_sb bm) = INODE_NUM"

definition first_data :: nat where
  "first_data = 1028"

definition bm_free :: "block_manager \<Rightarrow> nat set" where
  "bm_free bm = {b. first_data \<le> b \<and> b < BLOCK_NUM \<and> \<not> bm_used bm b}"

lemma bm_ok_new [simp]: "bm_ok new_block_manager"
  by (simp add: bm_ok_def new_block_manager_def)

lemma finite_bm_free [simp]: "finite (bm_free bm)"
  by (rule finite_subset [of _ "{..<BLOCK_NUM}"]) (auto simp: bm_free_def)

lemma bit_test_iff: "(drop_bit n w AND 1 = 1) = bit (w :: byte) n"
  by (simp add: and_one_eq bit_iff_odd_drop_bit odd_iff_mod_2_eq_one)

lemma pos_in_byte: "k - 8 * (k div 8) = k mod (8 :: nat)"
  by (rule minus_mult_div_eq_mod)

lemma scan_bitmap_step:
  "k < BPB \<Longrightarrow> scan_bitmap buf k = (if bit_of buf k then scan_bitmap buf (Suc k) else Some k)"
  by (subst scan_bitmap.simps) (simp add: bit_test_iff pos_in_byte bit_of_def BPB_def Let_def)

lemma scan_bitmap_end: "BPB \<le> k \<Longrightarrow> scan_bitmap buf k = None"
  by (subst scan_bitmap.simps) (simp add: BPB_def)

lemma scan_bitmap_Some:
  assumes "scan_bitmap buf k = Some j"
  shows "k \<le> j \<and> j < BPB \<and> \<not> bit_of buf j \<and> (\<forall>i. k \<le> i \<and> i < j \<longrightarrow> bit_of buf i)"
  using assms
proof (induction "BPB - k" arbitrary: k)
  case 0
  then show ?case by (simp add: scan_bitmap_end)
next
  case (Suc n)
  then have k: "k < BPB" by simp
  show ?case
  proof (cases "bit_of buf k")
    case True
    with Suc.prems k have "scan_bitmap buf (Suc k) = Some j"
      by (simp add: scan_bitmap_step)
    moreover have "n = BPB - Suc k" using Suc.hyps(2) by simp
    ultimately have "Suc k \<le> j \<and> j < BPB \<and> \<not> bit_of buf j
        \<and> (\<forall>i. Suc k \<le> i \<and> i < j \<longrightarrow> bit_of buf i)"
      by (intro Suc.hyps(1))
    with True show ?thesis
      by (metis Suc_leD le_antisym not_less_eq_eq)
  next
    case False
    with Suc.prems k show ?thesis by (auto simp: scan_bitmap_step)
  qed
qed

lemma scan_bitmap_None:
  assumes "scan_bitmap buf k = None" and "k \<le> i" and "i < BPB"
  shows "bit_of buf i"
  using assms
proof (induction "BPB - k" arbitrary: k)
  case 0
  then show ?case by simp
next
  case (Suc n)
  then have "k < BPB" by simp
  with Suc.prems have b: "bit_of buf k" and "scan_bitmap buf (Suc k) = None"
    by (auto simp: scan_bitmap_step split: if_splits)
  then show ?case
    using Suc.hyps(1) [of "Suc k"] Suc.hyps(2) Suc.prems by (cases "k = i") auto
qed

lemma byte_pos_inj: "j div 8 = k div 8 \<Longrightarrow> (7 - j mod 8 = 7 - k mod 8) = (j = (k :: nat))"
proof -
  assume eq: "j div 8 = k div 8"
  have "j mod 8 \<le> 7" "k mod 8 \<le> 7"
    using mod_less_divisor [of 8 j] mod_less_divisor [of 8 k] by linarith+
  then have "(7 - j mod 8 = 7 - k mod 8) = (j mod 8 = k mod 8)"
    by linarith
  also have "\<dots> = (j = k)"
    using eq by (metis div_mult_mod_eq)
  finally show ?thesis .
qed

lemma bit_of_set_bitmap_bit: "bit_of (set_bitmap_bit buf k) j = (j = k \<or> bit_of buf j)"
proof (cases "j div 8 = k div 8")
  case True
  then have "(7 - j mod 8 = 7 - k mod 8) = (j = k)"
    by (rule byte_pos_inj)
  with True show ?thesis
    by (auto simp: bit_of_def set_bitmap_bit_def Let_def pos_in_byte bit_or_iff bit_exp_iff
        possible_bit_word)
next
  case False
  then show ?thesis
    by (auto simp: bit_of_def set_bitmap_bit_def Let_def)
qed

lemma set_bitmap_bit_in_block: "k < BPB \<Longrightarrow> k div 8 < BLOCK_SIZE"
  by (simp add: BPB_def less_mult_imp_div_less)

lemma bit_of_cong: "(\<And>i. i < BLOCK_SIZE \<Longrightarrow> b i = b' i) \<Longrightarrow> k < BPB \<Longrightarrow> bit_of b k = bit_of b' k"
  by (simp add: bit_of_def set_bitmap_bit_in_block)

lemma BBLOCK_small [simp]: "b < BPB \<Longrightarrow> BBLOCK b = 2"
  by (simp add: BBLOCK_def)

lemma bm_used_small: "b < BPB \<Longrightarrow> bm_used bm b = bit_of (bm_blocks bm 2) b"
  by (simp add: bm_used_def)

text \<open>Only the bitmap blocks matter for \<open>bm_used\<close>.\<close>

lemma bm_used_write:
  "BBLOCK b \<noteq> c \<Longrightarrow> bm_used (bm_write_block bm c buf) b = bm_used bm b"
  by (simp add: bm_used_def bm.wr_other)

lemma alloc_block_unfold:
  assumes "bm_ok bm"
  shows "alloc_block mem bm =
    (case scan_bitmap (bm_read_block bm 2 mem) first_data of
       Some j \<Rightarrow> (bm_write_block bm 2 (set_bitmap_bit (bm_read_block bm 2 mem) j), j)
     | None \<Rightarrow> (bm, 0))"
proof -
  have "IBLOCK INODE_NUM BLOCK_NUM + 1 = first_data"
    by (simp add: layout_defs first_data_def)
  moreover have "BBLOCK BLOCK_NUM = 2" "BBLOCK first_data = 2" "first_data mod (BLOCK_SIZE * 8) = first_data"
    by (simp_all add: layout_defs first_data_def)
  ultimately show ?thesis
    using assms
    by (simp add: alloc_block_def bm_ok_def Let_def alloc_loop.simps bm_read_block_def
        bm_write_block_def split: option.splits)
qed

text \<open>
  The two outcomes of \<open>alloc_block\<close>: the least unmarked id from the first data block on,
  now marked and nothing else changed, or 0 when no unmarked bit is left in the bitmap block.
\<close>

lemma alloc_block_cases:
  assumes "bm_ok bm"
  obtains (found) j bm' where "alloc_block mem bm = (bm', j)" "first_data \<le> j" "j < BPB"
      "\<not> bm_used bm j" "\<And>i. first_data \<le> i \<Longrightarrow> i < j \<Longrightarrow> bm_used bm i"
      "bm_sb bm' = bm_sb bm" "\<And>b. bm_used bm' b = (b = j \<or> bm_used bm b)"
      "\<And>b. b \<noteq> 2 \<Longrightarrow> bm_blocks bm' b = bm_blocks bm b"
    | (none) "alloc_block mem bm = (bm, 0)" "\<And>i. first_data \<le> i \<Longrightarrow> i < BPB \<Longrightarrow> bm_used bm i"
proof -
  let ?buf = "bm_read_block bm 2 mem"
  have same: "bit_of ?buf k = bm_used bm k" if "k < BPB" for k
    using that bit_of_cong [of ?buf "bm_blocks bm 2" k]
    by (simp add: bm_used_small bm.rd_in layout_defs)
  show ?thesis
  proof (cases "scan_bitmap ?buf first_data")
    case None
    then show ?thesis
      using assms none same scan_bitmap_None [OF None] by (simp add: alloc_block_unfold)
  next
    case (Some j)
    let ?bm' = "bm_write_block bm 2 (set_bitmap_bit ?buf j)"
    from scan_bitmap_Some [OF Some] have j: "first_data \<le> j" "j < BPB" "\<not> bm_used bm j"
      and below: "\<And>i. first_data \<le> i \<Longrightarrow> i < j \<Longrightarrow> bm_used bm i"
      using same by auto
    have "bm_used ?bm' b = (b = j \<or> bm_used bm b)" for b
    proof (cases "b < BPB")
      case True
      then have "bm_used ?bm' b = bit_of (set_bitmap_bit ?buf j) b"
        using bit_of_cong [of "bm_blocks ?bm' 2" "set_bitmap_bit ?buf j" b]
        by (simp add: bm_used_small bm.wr_same layout_defs)
      with True show ?thesis by (simp add: bit_of_set_bitmap_bit same)
    next
      case False
      then have "BBLOCK b \<noteq> 2" by (simp add: BBLOCK_def div_greater_zero_iff)
      with False j(2) show ?thesis by (simp add: bm_used_write)
    qed
    then show ?thesis
      using found [of ?bm' j] j below Some assms
      by (simp add: alloc_block_unfold bm.wr_other)
  qed
qed

lemma BBLOCK_eq_iff_div: "(BBLOCK b = BBLOCK c) = (b div BPB = c div BPB)"
  by (simp add: BBLOCK_def)

lemma bit_of_clear:
  "bit_of (buf(k div 8 := buf (k div 8) AND NOT (push_bit (7 - k mod 8) 1))) j
     = (j \<noteq> k \<and> bit_of buf j)"
proof (cases "j div 8 = k div 8")
  case True
  then have "(7 - j mod 8 = 7 - k mod 8) = (j = k)"
    by (rule byte_pos_inj)
  with True show ?thesis
    by (auto simp: bit_of_def bit_and_iff bit_not_iff bit_exp_iff possible_bit_word)
next
  case False
  then show ?thesis by (auto simp: bit_of_def)
qed

lemma free_block_sb [simp]: "bm_sb (free_block mem bid bm) = bm_sb bm"
  by (simp add: free_block_def Let_def)

lemma free_block_other:
  "b \<noteq> BBLOCK bid \<Longrightarrow> bm_blocks (free_block mem bid bm) b = bm_blocks bm b"
  by (simp add: free_block_def Let_def bm.wr_other)

lemma free_block_out: "BLOCK_NUM \<le> BBLOCK bid \<Longrightarrow> free_block mem bid bm = bm"
  by (simp add: free_block_def Let_def bm.wr_out)

lemma free_block_used:
  assumes "BBLOCK bid < BLOCK_NUM"
  shows "bm_used (free_block mem bid bm) b = (b \<noteq> bid \<and> bm_used bm b)"
proof (cases "BBLOCK b = BBLOCK bid")
  case True
  let ?buf = "bm_read_block bm (BBLOCK bid) mem" and ?k = "bid mod BPB"
  have eq: "(b = bid) = (b mod BPB = ?k)"
    using True by (metis BBLOCK_eq_iff_div div_mod_decomp)
  have k8: "?k div 8 < BLOCK_SIZE" by (rule set_bitmap_bit_in_block) simp
  have "bm_used (free_block mem bid bm) b
      = bit_of (?buf(?k div 8 := ?buf (?k div 8) AND NOT (push_bit (7 - ?k mod 8) 1))) (b mod BPB)"
    using assms True
    by (auto simp: free_block_def Let_def bm_used_def BPB_def mult.commute bm.wr_same
        intro!: bit_of_cong)
  also have "\<dots> = (b \<noteq> bid \<and> bit_of ?buf (b mod BPB))"
    by (simp only: bit_of_clear eq)
  also have "bit_of ?buf (b mod BPB) = bm_used bm b"
    using assms True by (auto simp: bm_used_def bm.rd_in intro!: bit_of_cong)
  finally show ?thesis .
next
  case False
  then show ?thesis
    by (auto simp: free_block_def Let_def bm_used_write)
qed

section \<open>The allocator's contract\<close>

text \<open>
  What the inode layer relies on: while \<open>avail\<close> is not empty, \<open>alloc\<close> takes one id out of
  it and marks it, and nothing but the blocks in \<open>meta\<close> changes. A loop that fills the slots
  \<open>ns\<close> of an array with fresh ids then fills them with different available ids.
\<close>

locale block_allocator =
  fixes alloc :: "buffer \<Rightarrow> 's \<Rightarrow> 's \<times> nat"
    and used :: "'s \<Rightarrow> nat \<Rightarrow> bool"
    and content :: "'s \<Rightarrow> nat \<Rightarrow> buffer"
    and ok :: "'s \<Rightarrow> bool"
    and avail :: "'s \<Rightarrow> nat set"
    and meta :: "nat set"
  assumes finite_avail: "finite (avail s)"
    and avail_unused: "b \<in> avail s \<Longrightarrow> \<not> used s b"
    and alloc_in: "ok s \<Longrightarrow> avail s \<noteq> {} \<Longrightarrow> snd (alloc m s) \<in> avail s"
    and alloc_avail: "ok s \<Longrightarrow> avail s \<noteq> {} \<Longrightarrow>
      avail (fst (alloc m s)) = avail s - {snd (alloc m s)}"
    and alloc_used: "ok s \<Longrightarrow> avail s \<noteq> {} \<Longrightarrow>
      used (fst (alloc m s)) c = (c = snd (alloc m s) \<or> used s c)"
    and alloc_ok: "ok s \<Longrightarrow> ok (fst (alloc m s))"
    and alloc_content: "ok s \<Longrightarrow> c \<notin> meta \<Longrightarrow> content (fst (alloc m s)) c = content s c"
begin

lemma alloc_run:
  assumes "fold (\<lambda>i (s, a). let (s', b) = alloc (mem i) s in (s', upd i b a)) ns (s, a) = (s', a')"
    and "ok s" and "length ns \<le> card (avail s)" and "distinct ns" and "okarr a"
    and "\<And>i b a. okarr a \<Longrightarrow> i \<in> set ns \<Longrightarrow> b \<in> avail s \<Longrightarrow> get (upd i b a) i = b"
    and "\<And>i j b a. okarr a \<Longrightarrow> i \<in> set ns \<Longrightarrow> j \<noteq> i \<Longrightarrow> get (upd i b a) j = get a j"
    and "\<And>i b a. okarr a \<Longrightarrow> i \<in> set ns \<Longrightarrow> okarr (upd i b a)"
  shows "ok s' \<and> okarr a' \<and> (\<forall>i. i \<notin> set ns \<longrightarrow> get a' i = get a i)
    \<and> inj_on (get a') (set ns) \<and> get a' ` set ns \<subseteq> avail s
    \<and> avail s' = avail s - get a' ` set ns
    \<and> (\<forall>c. used s' c = (c \<in> get a' ` set ns \<or> used s c))
    \<and> (\<forall>c. c \<notin> meta \<longrightarrow> content s' c = content s c)"
  using assms
proof (induction ns arbitrary: s a)
  case Nil
  then show ?case by simp
next
  case (Cons n ns)
  let ?s1 = "fst (alloc (mem n) s)" and ?b = "snd (alloc (mem n) s)"
  note upd_same = Cons.prems(6) and upd_other = Cons.prems(7) and upd_ok = Cons.prems(8)
  have ne: "avail s \<noteq> {}" using Cons.prems(3) by auto
  note st = alloc_in [OF Cons.prems(2) ne] alloc_avail [OF Cons.prems(2) ne]
    alloc_used [OF Cons.prems(2) ne] alloc_ok [OF Cons.prems(2)] alloc_content [OF Cons.prems(2)]
  have run: "fold (\<lambda>i (s, a). let (s', b) = alloc (mem i) s in (s', upd i b a)) ns
      (?s1, upd n ?b a) = (s', a')"
    using Cons.prems(1) by (cases "alloc (mem n) s") simp
  have card: "length ns \<le> card (avail ?s1)"
    using Cons.prems(3) st(1,2) finite_avail [of s] by simp
  have sub: "b \<in> avail s" if "b \<in> avail ?s1" for b
    using that st(2) by blast
  have IH: "ok s' \<and> okarr a' \<and> (\<forall>i. i \<notin> set ns \<longrightarrow> get a' i = get (upd n ?b a) i)
    \<and> inj_on (get a') (set ns) \<and> get a' ` set ns \<subseteq> avail ?s1
    \<and> avail s' = avail ?s1 - get a' ` set ns
    \<and> (\<forall>c. used s' c = (c \<in> get a' ` set ns \<or> used ?s1 c))
    \<and> (\<forall>c. c \<notin> meta \<longrightarrow> content s' c = content ?s1 c)"
  proof (rule Cons.IH [OF run st(4) card])
    show "distinct ns" using Cons.prems(4) by simp
    show "okarr (upd n ?b a)" using Cons.prems(5) by (intro upd_ok) simp_all
    show "get (upd i b x) i = b" if "okarr x" "i \<in> set ns" "b \<in> avail ?s1" for i b x
      using that sub by (intro upd_same) simp_all
    show "get (upd i b x) j = get x j" if "okarr x" "i \<in> set ns" "j \<noteq> i" for i j b x
      using that by (intro upd_other) simp_all
    show "okarr (upd i b x)" if "okarr x" "i \<in> set ns" for i b x
      using that by (intro upd_ok) simp_all
  qed
  have n: "get a' n = ?b"
  proof -
    have "n \<notin> set ns" using Cons.prems(4) by simp
    then have "get a' n = get (upd n ?b a) n" using IH by simp
    also have "\<dots> = ?b" using Cons.prems(5) st(1) by (intro upd_same) simp_all
    finally show ?thesis .
  qed
  have rest: "get a' i = get a i" if "i \<notin> set (n # ns)" for i
  proof -
    have "get a' i = get (upd n ?b a) i" using IH that by simp
    also have "\<dots> = get a i" using Cons.prems(5) that by (intro upd_other) simp_all
    finally show ?thesis .
  qed
  from IH have facts: "get a' ` set ns \<subseteq> avail ?s1" "avail s' = avail ?s1 - get a' ` set ns"
    "inj_on (get a') (set ns)"
    by simp_all
  have img: "get a' ` set (n # ns) = insert ?b (get a' ` set ns)" by (simp add: n)
  have "inj_on (get a') (set (n # ns))"
    using facts(1,3) n unfolding st(2) by auto
  moreover have "get a' ` set (n # ns) \<subseteq> avail s"
    using facts(1) st(1) unfolding img st(2) by blast
  moreover have "avail s' = avail s - get a' ` set (n # ns)"
    using facts(2) unfolding img st(2) by blast
  moreover have "\<forall>c. used s' c = (c \<in> get a' ` set (n # ns) \<or> used s c)"
    unfolding img using IH st(3) by (simp add: disj_left_commute)
  moreover have "\<forall>c. c \<notin> meta \<longrightarrow> content s' c = content s c"
    using IH st(5) by simp
  ultimately show ?case
    using IH rest by simp
qed

end

lemma bm_alloc_in_free:
  assumes "bm_ok bm" and "bm_free bm \<noteq> {}"
  shows "snd (alloc_block m bm) \<in> bm_free bm"
    and "bm_free (fst (alloc_block m bm)) = bm_free bm - {snd (alloc_block m bm)}"
    and "bm_used (fst (alloc_block m bm)) c = (c = snd (alloc_block m bm) \<or> bm_used bm c)"
proof -
  from assms(2) obtain f where f: "first_data \<le> f" "f < BLOCK_NUM" "\<not> bm_used bm f"
    by (auto simp: bm_free_def)
  have "snd (alloc_block m bm) \<in> bm_free bm
    \<and> bm_free (fst (alloc_block m bm)) = bm_free bm - {snd (alloc_block m bm)}
    \<and> bm_used (fst (alloc_block m bm)) c = (c = snd (alloc_block m bm) \<or> bm_used bm c)"
    using assms(1)
  proof (cases rule: alloc_block_cases [of bm m])
    case (found j bm')
    with f have "j \<le> f" by (meson not_le_imp_less)
    with found f show ?thesis by (auto simp: bm_free_def)
  next
    case none
    with f show ?thesis by (auto simp: layout_defs)
  qed
  then show "snd (alloc_block m bm) \<in> bm_free bm"
    and "bm_free (fst (alloc_block m bm)) = bm_free bm - {snd (alloc_block m bm)}"
    and "bm_used (fst (alloc_block m bm)) c = (c = snd (alloc_block m bm) \<or> bm_used bm c)"
    by auto
qed

lemma bm_alloc_frame:
  assumes "bm_ok bm"
  shows "bm_sb (fst (alloc_block m bm)) = bm_sb bm"
    and "b \<noteq> 2 \<Longrightarrow> bm_blocks (fst (alloc_block m bm)) b = bm_blocks bm b"
  using assms by (cases rule: alloc_block_cases [of bm m]; simp)+

interpretation bma: block_allocator alloc_block bm_used bm_blocks bm_ok bm_free "{2}"
  by unfold_locales
    (auto simp: bm_alloc_in_free bm_alloc_frame bm_ok_def, auto simp: bm_free_def)

end
