(* ===== verification/Inode_Manager.thy ===== *)
theory Inode_Manager
  imports Block_Manager
begin

text \<open>
  The inode layer: \<open>class inode_manager\<close> of \<open>src/yfs/inode_manager.cc\<close>. Its only state is
  the block manager it owns, so the state type is \<open>block_manager\<close>. Inodes live in their
  own disk blocks as raw bytes, exactly as the C++ casts \<open>(struct inode* )buf\<close> read and
  write them. This theory holds the definitions and their first, local lemmas; the
  invariant and the theorems about files are in the theories that import it.
\<close>

section \<open>Inodes and their place on disk\<close>

definition T_DIR :: nat where
  "T_DIR = 1"

definition T_FILE :: nat where
  "T_FILE = 2"

definition T_SYMLINK :: nat where
  "T_SYMLINK = 3"

definition NDIRECT :: nat where
  "NDIRECT = 100"

definition NINDIRECT :: nat where
  "NINDIRECT = BLOCK_SIZE div 4"

definition MAXFILE :: nat where
  "MAXFILE = NDIRECT + NINDIRECT"

record inode =
  i_type :: nat
  i_size :: nat
  i_atime :: nat
  i_mtime :: nat
  i_ctime :: nat
  i_blocks :: "nat list"

record attr =
  a_type :: nat
  a_atime :: nat
  a_mtime :: nat
  a_ctime :: nat
  a_size :: nat

text \<open>
  The struct as it lies in memory: \<open>short type\<close> at offset 0, two bytes of padding, four
  32-bit fields, then the array of \<open>NDIRECT + 1\<close> block ids.
\<close>

definition inode_of_bytes :: "buffer \<Rightarrow> inode" where
  "inode_of_bytes b =
     \<lparr>i_type = get_u16 b 0, i_size = get_u32 b 4, i_atime = get_u32 b 8, i_mtime = get_u32 b 12,
      i_ctime = get_u32 b 16, i_blocks = map (\<lambda>k. get_u32 b (20 + 4 * k)) [0..<NDIRECT + 1]\<rparr>"

definition store_inode :: "buffer \<Rightarrow> inode \<Rightarrow> buffer" where
  "store_inode b ino =
     fold (\<lambda>k b. put_u32 b (20 + 4 * k) (i_blocks ino ! k)) [0..<NDIRECT + 1]
       (put_u32 (put_u32 (put_u32 (put_u32 (put_u16 b 0 (i_type ino)) 4 (i_size ino))
          8 (i_atime ino)) 12 (i_mtime ino)) 16 (i_ctime ino))"

type_synonym inode_manager = block_manager

text \<open>\<open>get_inode\<close> returns the null pointer, \<open>None\<close>, for an inode that does not exist.\<close>

definition get_inode :: "buffer \<Rightarrow> inode_manager \<Rightarrow> nat \<Rightarrow> inode option" where
  "get_inode buf im inum =
     (if INODE_NUM \<le> inum then None
      else let ino = inode_of_bytes (bm_read_block im (IBLOCK inum (sb_nblocks (bm_sb im))) buf)
           in if i_type ino = 0 then None else Some ino)"

definition put_inode :: "buffer \<Rightarrow> inode_manager \<Rightarrow> nat \<Rightarrow> inode option \<Rightarrow> inode_manager" where
  "put_inode buf im inum p =
     (case p of
        None \<Rightarrow> im
      | Some ino \<Rightarrow>
          (let b = IBLOCK inum (sb_nblocks (bm_sb im))
           in bm_write_block im b (store_inode (bm_read_block im b buf) ino)))"

text \<open>
  \<open>alloc_inode\<close> looks for the first inode number from 1 on whose inode does not exist. The
  new inode comes from \<open>malloc\<close>: its \<open>blocks\<close> array is never initialised.
\<close>

definition fresh_inode :: "env \<Rightarrow> nat \<Rightarrow> inode" where
  "fresh_inode e ty =
     (inode_of_bytes (junk e 0))
       \<lparr>i_type := ty mod 2 ^ 16, i_size := 0, i_atime := now e 0 mod 2 ^ 32,
        i_mtime := now e 1 mod 2 ^ 32, i_ctime := now e 2 mod 2 ^ 32\<rparr>"

function alloc_inode_loop :: "env \<Rightarrow> inode_manager \<Rightarrow> nat \<Rightarrow> nat \<Rightarrow> inode_manager \<times> nat" where
  "alloc_inode_loop e im ty i =
     (if i < sb_ninodes (bm_sb im)
      then (case get_inode (junk e (2 + i)) im i of
              None \<Rightarrow>
                (put_inode (junk e 1) im i (Some (fresh_inode e ty)), i)
            | Some _ \<Rightarrow> alloc_inode_loop e im ty (i + 1))
      else (im, 0))"
  by pat_completeness auto
termination
  by (relation "measure (\<lambda>(e, im, ty, i). sb_ninodes (bm_sb im) - i)") auto

declare alloc_inode_loop.simps [simp del]

definition alloc_inode :: "env \<Rightarrow> inode_manager \<Rightarrow> nat \<Rightarrow> inode_manager \<times> nat" where
  "alloc_inode e im ty = alloc_inode_loop e im ty 1"

text \<open>The constructor formats the disk and makes the root directory; it exits if that is not inode 1.\<close>

definition new_inode_manager :: "env \<Rightarrow> inode_manager option" where
  "new_inode_manager e =
     (let (im, root_dir) = alloc_inode e new_block_manager T_DIR
      in if root_dir \<noteq> 1 then None else Some im)"

definition free_inode :: "env \<Rightarrow> inode_manager \<Rightarrow> nat \<Rightarrow> inode_manager" where
  "free_inode e im inum =
     (case get_inode (junk e 2) im inum of
        None \<Rightarrow> im
      | Some _ \<Rightarrow> put_inode (junk e 3) im inum (Some (inode_of_bytes zeros)))"

section \<open>Reading a file\<close>

definition block_count :: "nat \<Rightarrow> nat" where
  "block_count sz = (if sz mod BLOCK_SIZE = 0 then sz div BLOCK_SIZE else sz div BLOCK_SIZE + 1)"

text \<open>\<open>bm->read_block(b, buf + off)\<close>, as a change of the memory of \<open>buf\<close>.\<close>

definition read_into :: "inode_manager \<Rightarrow> nat \<Rightarrow> buffer \<Rightarrow> nat \<Rightarrow> buffer" where
  "read_into im b buf off = memcpy_at buf off (bm_read_block im b (ptr_add buf off)) BLOCK_SIZE"

text \<open>Reading entry \<open>i\<close> of an indirect block, an array of \<open>NINDIRECT\<close> block ids.\<close>

definition idx_get :: "buffer \<Rightarrow> nat \<Rightarrow> nat option" where
  "idx_get ids i = (if i < NINDIRECT then Some (get_u32 ids (4 * i)) else None)"

definition read_direct :: "inode_manager \<Rightarrow> nat list \<Rightarrow> nat \<Rightarrow> buffer \<times> nat \<Rightarrow> (buffer \<times> nat) option" where
  "read_direct im bs n =
     ofold (\<lambda>i (buf, off). do { b \<leftarrow> arr_get bs i; Some (read_into im b buf off, off + BLOCK_SIZE) })
       [0..<n]"

definition read_indirect :: "inode_manager \<Rightarrow> buffer \<Rightarrow> nat \<Rightarrow> buffer \<times> nat \<Rightarrow> (buffer \<times> nat) option" where
  "read_indirect im ids n =
     ofold (\<lambda>i (buf, off). do { b \<leftarrow> idx_get ids i; Some (read_into im b buf off, off + BLOCK_SIZE) })
       [0..<n]"

definition read_blocks :: "env \<Rightarrow> inode_manager \<Rightarrow> inode \<Rightarrow> buffer option" where
  "read_blocks e im ino =
     (if i_size ino \<le> BLOCK_SIZE
      then do { b \<leftarrow> arr_get (i_blocks ino) 0; Some (bm_read_block im b (junk e 1)) }
      else (let read_time = block_count (i_size ino)
            in if read_time \<le> NDIRECT
               then do { (buf, off) \<leftarrow> read_direct im (i_blocks ino) read_time (junk e 1, 0); Some buf }
               else do {
                 (buf, off) \<leftarrow> read_direct im (i_blocks ino) NDIRECT (junk e 1, 0);
                 ind \<leftarrow> arr_get (i_blocks ino) NDIRECT;
                 (buf, off) \<leftarrow> read_indirect im (bm_read_block im ind (junk e 2)) (read_time - NDIRECT)
                   (buf, off);
                 Some buf
               }))"

text \<open>
  The out-parameters \<open>buf_out\<close> and \<open>size\<close> are the second component; \<open>None\<close> there means that
  they were left alone, because the inode does not exist.
\<close>

definition read_file :: "env \<Rightarrow> inode_manager \<Rightarrow> nat \<Rightarrow> (inode_manager \<times> (buffer \<times> nat) option) option" where
  "read_file e im inum =
     (case get_inode (junk e 0) im inum of
        None \<Rightarrow> Some (im, None)
      | Some ino \<Rightarrow> do {
          buf_out \<leftarrow> read_blocks e im ino;
          Some (put_inode (junk e 3) im inum (Some (ino\<lparr>i_atime := now e 0 mod 2 ^ 32\<rparr>)),
                Some (buf_out, i_size ino))
        })"

section \<open>Writing a file\<close>

text \<open>
  \<open>write_file\<close> gets its length as an \<open>int\<close>, so the number of blocks it needs is computed
  with C's truncating division and then converted to \<open>unsigned int\<close>. The buffer \<open>buf\<close> is
  the memory from the caller's pointer on: \<open>write_block\<close> always copies \<open>BLOCK_SIZE\<close> bytes
  from it, also for the last, partly filled block.
\<close>

definition c_div :: "int \<Rightarrow> int \<Rightarrow> int" where
  "c_div a b = sgn a * sgn b * (\<bar>a\<bar> div \<bar>b\<bar>)"

definition need_blocks :: "int \<Rightarrow> nat" where
  "need_blocks sz =
     (let q = c_div sz (int BLOCK_SIZE)
      in nat ((if sz - q * int BLOCK_SIZE = 0 then q else q + 1) mod 2 ^ 32))"

text \<open>
  The loops that the cases share. \<open>alloc_direct\<close> fills slots of \<open>target_inode->blocks\<close>,
  \<open>alloc_indirect\<close> slots of the indirect block \<open>ids\<close> (slot \<open>i - base\<close> for loop index \<open>i\<close>);
  \<open>write_direct\<close> zeroes each block and then writes it. \<open>write_indirect\<close> does the same for
  the blocks of the indirect array, except that the block it zeroes is
  \<open>target_inode->blocks[i]\<close>.
\<close>

definition alloc_direct :: "env \<Rightarrow> nat \<Rightarrow> nat \<Rightarrow> block_manager \<times> nat list \<Rightarrow> block_manager \<times> nat list" where
  "alloc_direct e lo hi =
     fold (\<lambda>i (bm, bs). let (bm', b) = alloc_block (junk e (10 + i)) bm in (bm', bs[i := b])) [lo..<hi]"

definition alloc_indirect :: "env \<Rightarrow> nat \<Rightarrow> nat \<Rightarrow> nat \<Rightarrow> block_manager \<times> buffer \<Rightarrow> block_manager \<times> buffer" where
  "alloc_indirect e base lo hi =
     fold (\<lambda>i (bm, ids). let (bm', b) = alloc_block (junk e (200 + i)) bm
                         in (bm', put_u32 ids (4 * (i - base)) b)) [lo..<hi]"

definition write_direct :: "nat list \<Rightarrow> buffer \<Rightarrow> nat \<Rightarrow> block_manager \<Rightarrow> block_manager \<times> nat" where
  "write_direct bs buf n bm =
     fold (\<lambda>i (bm, buf_offset).
             (bm_write_block (bm_write_block bm (bs ! i) zeros) (bs ! i) (ptr_add buf buf_offset),
              buf_offset + BLOCK_SIZE)) [0..<n] (bm, 0)"

definition write_indirect :: "nat list \<Rightarrow> buffer \<Rightarrow> buffer \<Rightarrow> nat \<Rightarrow> block_manager \<times> nat \<Rightarrow>
    (block_manager \<times> nat) option" where
  "write_indirect bs ids buf n =
     ofold (\<lambda>i (bm, buf_offset). do {
              z \<leftarrow> arr_get bs i;
              b \<leftarrow> idx_get ids i;
              Some (bm_write_block (bm_write_block bm z zeros) b (ptr_add buf buf_offset),
                    buf_offset + BLOCK_SIZE) }) [0..<n]"

definition free_direct :: "env \<Rightarrow> nat list \<Rightarrow> nat \<Rightarrow> nat \<Rightarrow> block_manager \<Rightarrow> block_manager" where
  "free_direct e bs lo hi = fold (\<lambda>i. free_block (junk e (10 + i)) (bs ! i)) [lo..<hi]"

definition free_indirect :: "env \<Rightarrow> buffer \<Rightarrow> nat \<Rightarrow> nat \<Rightarrow> block_manager \<Rightarrow> block_manager option" where
  "free_indirect e ids lo hi =
     ofold (\<lambda>i bm. do { b \<leftarrow> idx_get ids i; Some (free_block (junk e (200 + i)) b bm) }) [lo..<hi]"

text \<open>How every case ends: the new size, ctime and mtime, and the inode goes back to disk.\<close>

definition finish_write :: "env \<Rightarrow> nat \<Rightarrow> inode \<Rightarrow> int \<Rightarrow> block_manager \<Rightarrow> inode_manager" where
  "finish_write e inum ino sz bm =
     put_inode (junk e 1) bm inum
       (Some (ino\<lparr>i_size := nat (sz mod 2 ^ 32), i_ctime := now e 0 mod 2 ^ 32,
                  i_mtime := now e 1 mod 2 ^ 32\<rparr>))"

text \<open>Cases with direct blocks only (\<open>need_block_num <= NDIRECT\<close>).\<close>

definition write_case1_1 where
  "write_case1_1 e im inum ino buf sz need origin =
     (let (bm, bs) = alloc_direct e origin need (im, i_blocks ino);
          (bm, buf_offset) = write_direct bs buf need bm
      in finish_write e inum (ino\<lparr>i_blocks := bs\<rparr>) sz bm)"

definition write_case1_2 where
  "write_case1_2 e im inum ino buf sz need =
     (let (bm, buf_offset) = write_direct (i_blocks ino) buf need im
      in finish_write e inum ino sz bm)"

definition write_case1_3 where
  "write_case1_3 e im inum ino buf sz need origin =
     (let bm = free_direct e (i_blocks ino) need origin im;
          (bm, buf_offset) = write_direct (i_blocks ino) buf need bm
      in finish_write e inum ino sz bm)"

definition write_case1_4 where
  "write_case1_4 e im inum ino buf sz need origin =
     do {
       ind \<leftarrow> arr_get (i_blocks ino) NDIRECT;
       let indirect_blockid = bm_read_block im ind (junk e 2);
       bm \<leftarrow> free_indirect e indirect_blockid 0 (origin - NDIRECT) im;
       let bm = free_direct e (i_blocks ino) need (NDIRECT + 1) bm;
       let (bm, buf_offset) = write_direct (i_blocks ino) buf need bm;
       Some (finish_write e inum ino sz bm)
     }"

text \<open>Cases with an indirect block (\<open>need_block_num > NDIRECT\<close>).\<close>

definition write_case2_1 where
  "write_case2_1 e im inum ino buf sz need origin =
     (let (bm, bs) = alloc_direct e origin NDIRECT (im, i_blocks ino);
          (bm, b) = alloc_block (junk e 3) bm;
          bs = bs[NDIRECT := b];
          (bm, indirect_blockid) = alloc_indirect e 0 0 (need - NDIRECT) (bm, junk e 2);
          (bm, buf_offset) = write_direct bs buf NDIRECT bm
      in do {
           (bm, buf_offset) \<leftarrow> write_indirect bs indirect_blockid buf (need - NDIRECT) (bm, buf_offset);
           let bm = bm_write_block bm (bs ! NDIRECT) indirect_blockid;
           Some (finish_write e inum (ino\<lparr>i_blocks := bs\<rparr>) sz bm)
         })"

definition write_case2_2 where
  "write_case2_2 e im inum ino buf sz need origin =
     (let bs = i_blocks ino;
          indirect_blockid = bm_read_block im (bs ! NDIRECT) (junk e 2);
          (bm, indirect_blockid) = alloc_indirect e NDIRECT origin need (im, indirect_blockid);
          (bm, buf_offset) = write_direct bs buf NDIRECT bm
      in do {
           (bm, buf_offset) \<leftarrow> write_indirect bs indirect_blockid buf (need - NDIRECT) (bm, buf_offset);
           let bm = bm_write_block bm (bs ! NDIRECT) indirect_blockid;
           Some (finish_write e inum ino sz bm)
         })"

definition write_case2_3 where
  "write_case2_3 e im inum ino buf sz need =
     (let bs = i_blocks ino;
          indirect_blockid = bm_read_block im (bs ! NDIRECT) (junk e 2);
          (bm, buf_offset) = write_direct bs buf NDIRECT im
      in do {
           (bm, buf_offset) \<leftarrow> write_indirect bs indirect_blockid buf (need - NDIRECT) (bm, buf_offset);
           let bm = bm_write_block bm (bs ! NDIRECT) indirect_blockid;
           Some (finish_write e inum ino sz bm)
         })"

definition write_case2_4 where
  "write_case2_4 e im inum ino buf sz need origin =
     (let bs = i_blocks ino;
          indirect_blockid = bm_read_block im (bs ! NDIRECT) (junk e 2)
      in do {
           bm \<leftarrow> free_indirect e indirect_blockid (need - NDIRECT) (origin - NDIRECT) im;
           let (bm, buf_offset) = write_direct bs buf NDIRECT bm;
           (bm, buf_offset) \<leftarrow> write_indirect bs indirect_blockid buf (need - NDIRECT) (bm, buf_offset);
           let bm = bm_write_block bm (bs ! NDIRECT) indirect_blockid;
           Some (finish_write e inum ino sz bm)
         })"

definition write_file :: "env \<Rightarrow> inode_manager \<Rightarrow> nat \<Rightarrow> buffer \<Rightarrow> int \<Rightarrow> inode_manager option" where
  "write_file e im inum buf sz =
     (case get_inode (junk e 0) im inum of
        None \<Rightarrow> Some im
      | Some ino \<Rightarrow>
          (let need = need_blocks sz
           in if MAXFILE < need then Some im
              else let origin = block_count (i_size ino)
                   in if need \<le> NDIRECT
                      then if origin < need then Some (write_case1_1 e im inum ino buf sz need origin)
                           else if origin = need then Some (write_case1_2 e im inum ino buf sz need)
                           else if need < origin \<and> origin \<le> NDIRECT
                           then Some (write_case1_3 e im inum ino buf sz need origin)
                           else write_case1_4 e im inum ino buf sz need origin
                      else if NDIRECT < need \<and> origin < NDIRECT
                      then write_case2_1 e im inum ino buf sz need origin
                      else if origin < need \<and> NDIRECT \<le> origin
                      then write_case2_2 e im inum ino buf sz need origin
                      else if need = origin then write_case2_3 e im inum ino buf sz need
                      else write_case2_4 e im inum ino buf sz need origin))"

section \<open>Attributes, removal and the block interface of the name node\<close>

text \<open>Assigning the \<open>short\<close> type to the \<open>uint32_t\<close> of \<open>attr\<close> extends its sign.\<close>

definition u32_of_short :: "nat \<Rightarrow> nat" where
  "u32_of_short t = (if t < 2 ^ 15 then t else t + 2 ^ 32 - 2 ^ 16)"

definition im_getattr :: "env \<Rightarrow> inode_manager \<Rightarrow> nat \<Rightarrow> attr" where
  "im_getattr e im inum =
     (case get_inode (junk e 0) im inum of
        None \<Rightarrow> \<lparr>a_type = 0, a_atime = 0, a_mtime = 0, a_ctime = 0, a_size = 0\<rparr>
      | Some ino \<Rightarrow> \<lparr>a_type = u32_of_short (i_type ino), a_atime = i_atime ino, a_mtime = i_atime ino,
                     a_ctime = i_ctime ino, a_size = i_size ino\<rparr>)"

text \<open>
  \<open>remove_file\<close> computes the number of blocks with the branches of the conditional
  exchanged, compared with \<open>block_count\<close>.
\<close>

definition remove_count :: "nat \<Rightarrow> nat" where
  "remove_count sz = (if sz mod BLOCK_SIZE \<noteq> 0 then sz div BLOCK_SIZE else sz div BLOCK_SIZE + 1)"

definition remove_file :: "env \<Rightarrow> inode_manager \<Rightarrow> nat \<Rightarrow> inode_manager option" where
  "remove_file e im inum =
     (case get_inode (junk e 0) im inum of
        None \<Rightarrow> Some im
      | Some ino \<Rightarrow>
          (let n = remove_count (i_size ino)
           in if n < NDIRECT
              then let bm = free_direct e (i_blocks ino) 0 n im
                   in Some (free_inode e bm inum)
              else do {
                let indirect_blockid = bm_read_block im (i_blocks ino ! NDIRECT) (junk e 1);
                bm \<leftarrow> free_indirect e indirect_blockid 0 (n - NDIRECT) im;
                let bm = free_direct e (i_blocks ino) 0 (NDIRECT + 1) bm;
                Some (free_inode e bm inum)
              }))"

text \<open>
  The reference parameter \<open>bid\<close> is passed in and out: it keeps its value on the two
  early returns. Writing entry \<open>block_index - NDIRECT\<close> behind the end of the
  \<open>BLOCK_SIZE\<close> bytes of \<open>indirect_blockid\<close> is undefined.
\<close>

definition append_block :: "env \<Rightarrow> inode_manager \<Rightarrow> nat \<Rightarrow> nat \<Rightarrow> (inode_manager \<times> nat) option" where
  "append_block e im inum bid =
     (case get_inode (junk e 0) im inum of
        None \<Rightarrow> Some (im, bid)
      | Some ino \<Rightarrow>
          (let block_index = block_count (i_size ino)
           in if MAXFILE < block_index then Some (im, bid)
              else let (bm, bid) = alloc_block (junk e 2) im
                   in do {
                        (bm, bs) \<leftarrow>
                          (if block_index < NDIRECT then Some (bm, (i_blocks ino)[block_index := bid])
                           else let (bm, bs) = (if block_index = NDIRECT
                                      then let (bm, b) = alloc_block (junk e 3) bm
                                           in (bm, (i_blocks ino)[NDIRECT := b])
                                      else (bm, i_blocks ino));
                                    indirect_blockid = bm_read_block bm (bs ! NDIRECT) (junk e 4)
                                in if block_index - NDIRECT < NINDIRECT
                                   then Some (bm_write_block bm (bs ! NDIRECT)
                                          (put_u32 indirect_blockid (4 * (block_index - NDIRECT)) bid), bs)
                                   else None);
                        Some (put_inode (junk e 1) bm inum
                                (Some (ino\<lparr>i_blocks := bs, i_size := (i_size ino + BLOCK_SIZE) mod 2 ^ 32\<rparr>)),
                              bid)
                      }))"

text \<open>
  \<open>get_block_ids\<close> pushes the ids at the end of the list it is given, and \<open>complete\<close>
  sets size and times. Both dereference the result of \<open>get_inode\<close> without a test.
\<close>

definition get_block_ids :: "env \<Rightarrow> inode_manager \<Rightarrow> nat \<Rightarrow> nat list \<Rightarrow> nat list option" where
  "get_block_ids e im inum block_ids =
     do {
       ino \<leftarrow> get_inode (junk e 0) im inum;
       let block_num = block_count (i_size ino);
       (if block_num \<le> NDIRECT
        then ofold (\<lambda>i l. do { b \<leftarrow> arr_get (i_blocks ino) i; Some (l @ [b]) }) [0..<block_num] block_ids
        else do {
          l \<leftarrow> ofold (\<lambda>i l. do { b \<leftarrow> arr_get (i_blocks ino) i; Some (l @ [b]) }) [0..<NDIRECT] block_ids;
          let indirect_block_id = bm_read_block im (i_blocks ino ! NDIRECT) (junk e 1);
          ofold (\<lambda>i l. do { b \<leftarrow> idx_get indirect_block_id i; Some (l @ [b]) })
            [0..<block_num - NDIRECT] l
        })
     }"

definition im_read_block :: "inode_manager \<Rightarrow> nat \<Rightarrow> buffer \<Rightarrow> buffer" where
  "im_read_block im bid buf = bm_read_block im bid buf"

definition im_write_block :: "inode_manager \<Rightarrow> nat \<Rightarrow> buffer \<Rightarrow> inode_manager" where
  "im_write_block im bid buf = bm_write_block im bid buf"

definition im_complete :: "env \<Rightarrow> inode_manager \<Rightarrow> nat \<Rightarrow> nat \<Rightarrow> inode_manager option" where
  "im_complete e im inum sz =
     do {
       ino \<leftarrow> get_inode (junk e 0) im inum;
       Some (put_inode (junk e 1) im inum
               (Some (ino\<lparr>i_size := sz mod 2 ^ 32, i_atime := now e 0 mod 2 ^ 32,
                          i_mtime := now e 1 mod 2 ^ 32, i_ctime := now e 2 mod 2 ^ 32\<rparr>)))
     }"

end
