(* ===== verification/Inode_Layout.thy ===== *)
theory Inode_Layout
  imports Inode_Manager
begin

text \<open>
  Inodes on disk: \<open>put_inode\<close> and \<open>get_inode\<close> are inverse to each other on well-formed
  inodes, every inode has its own disk block, and \<open>inode_at\<close> is the view of the inode table
  that does not depend on the uninitialised buffers the code reads into.
\<close>

definition inode_wf :: "inode \<Rightarrow> bool" where
  "inode_wf ino \<longleftrightarrow> i_type ino < 2 ^ 16 \<and> i_size ino < 2 ^ 32 \<and> i_atime ino < 2 ^ 32
     \<and> i_mtime ino < 2 ^ 32 \<and> i_ctime ino < 2 ^ 32
     \<and> length (i_blocks ino) = NDIRECT + 1 \<and> (\<forall>b \<in> set (i_blocks ino). b < 2 ^ 32)"

lemma inode_of_bytes_wf [simp]: "inode_wf (inode_of_bytes b)"
  by (auto simp: inode_wf_def inode_of_bytes_def get_u32_less [simplified] get_u16_less)

lemma inode_of_bytes_blocks [simp]: "length (i_blocks (inode_of_bytes b)) = NDIRECT + 1"
  by (simp add: inode_of_bytes_def)

text \<open>The loop that stores the block ids touches only its own words.\<close>

lemma fold_put_u32_other:
  "(\<And>k. k < n \<Longrightarrow> q < o' + 4 * k \<or> o' + 4 * k + 4 \<le> q) \<Longrightarrow>
   fold (\<lambda>k b. put_u32 b (o' + 4 * k) (f k)) [0..<n] b q = b q"
  by (induction n) (simp_all add: mem_simps)

lemma fold_put_u32_before:
  "p + 4 \<le> o' \<Longrightarrow> get_u32 (fold (\<lambda>k b. put_u32 b (o' + 4 * k) (f k)) [0..<n] b) p = get_u32 b p"
  by (rule get_u32_cong, rule fold_put_u32_other) simp

lemma fold_put_u32_before16:
  "p + 2 \<le> o' \<Longrightarrow> get_u16 (fold (\<lambda>k b. put_u32 b (o' + 4 * k) (f k)) [0..<n] b) p = get_u16 b p"
  by (rule get_u16_cong, rule fold_put_u32_other) simp

lemma fold_put_u32_word:
  "k < n \<Longrightarrow> get_u32 (fold (\<lambda>k b. put_u32 b (o' + 4 * k) (f k)) [0..<n] b) (o' + 4 * k) = f k mod 2 ^ 32"
proof (induction n)
  case (Suc n)
  then show ?case
    by (cases "k = n") (simp_all add: mem_simps)
qed simp

lemma inode_of_store_inode:
  assumes "inode_wf ino"
  shows "inode_of_bytes (store_inode b ino) = ino"
proof -
  have "map (\<lambda>k. get_u32 (store_inode b ino) (20 + 4 * k)) [0..<NDIRECT + 1] = i_blocks ino"
    using assms
    by (intro nth_equalityI)
      (simp_all add: store_inode_def fold_put_u32_word inode_wf_def del: upt_Suc)
  moreover have "get_u16 (store_inode b ino) 0 = i_type ino"
    "get_u32 (store_inode b ino) 4 = i_size ino" "get_u32 (store_inode b ino) 8 = i_atime ino"
    "get_u32 (store_inode b ino) 12 = i_mtime ino" "get_u32 (store_inode b ino) 16 = i_ctime ino"
    using assms
    by (simp_all add: store_inode_def fold_put_u32_before fold_put_u32_before16 mem_simps inode_wf_def
        del: upt_Suc)
  ultimately show ?thesis
    by (simp add: inode_of_bytes_def)
qed

lemma inode_of_bytes_cong:
  "(\<And>i. i < 424 \<Longrightarrow> b i = b' i) \<Longrightarrow> inode_of_bytes b = inode_of_bytes b'"
  by (auto simp: inode_of_bytes_def NDIRECT_def intro!: get_u32_cong get_u16_cong)

section \<open>The inode table\<close>

definition ino_block :: "nat \<Rightarrow> nat" where
  "ino_block i = i + 3"

definition inode_at :: "inode_manager \<Rightarrow> nat \<Rightarrow> inode option" where
  "inode_at im i =
     (if INODE_NUM \<le> i then None
      else let ino = inode_of_bytes (bm_blocks im (ino_block i))
           in if i_type ino = 0 then None else Some ino)"

lemma IBLOCK_ok: "bm_ok im \<Longrightarrow> IBLOCK i (sb_nblocks (bm_sb im)) = ino_block i"
  by (simp add: bm_ok_def layout_defs ino_block_def)

lemma ino_block_bounds: "i < INODE_NUM \<Longrightarrow> 2 < ino_block i \<and> ino_block i < first_data"
  by (simp add: ino_block_def layout_defs first_data_def)

lemma first_data_less: "first_data < BLOCK_NUM"
  by (simp add: first_data_def layout_defs)

lemma ino_block_inj [simp]: "(ino_block i = ino_block j) = (i = j)"
  by (simp add: ino_block_def)

lemma read_inode_block:
  "i < INODE_NUM \<Longrightarrow> inode_of_bytes (bm_read_block im (ino_block i) buf)
     = inode_of_bytes (bm_blocks im (ino_block i))"
  using ino_block_bounds [of i] first_data_less
  by (intro inode_of_bytes_cong) (simp add: bm.rd_in BLOCK_SIZE_eq)

lemma get_inode_eq: "bm_ok im \<Longrightarrow> get_inode buf im i = inode_at im i"
  by (simp add: get_inode_def inode_at_def IBLOCK_ok read_inode_block Let_def)

lemma inode_at_wf: "inode_at im i = Some ino \<Longrightarrow> inode_wf ino \<and> i_type ino \<noteq> 0 \<and> i < INODE_NUM"
  by (auto simp: inode_at_def Let_def split: if_splits)

lemma inode_at_blocks: "inode_at im i = Some ino \<Longrightarrow> length (i_blocks ino) = NDIRECT + 1"
  using inode_at_wf [of im i ino] by (simp add: inode_wf_def)

lemma inode_at_cong: "bm_blocks im' (ino_block i) = bm_blocks im (ino_block i) \<Longrightarrow> inode_at im' i = inode_at im i"
  by (simp add: inode_at_def)

lemma put_inode_unfold:
  "bm_ok im \<Longrightarrow> put_inode buf im i (Some ino)
     = bm_write_block im (ino_block i) (store_inode (bm_read_block im (ino_block i) buf) ino)"
  by (simp add: put_inode_def IBLOCK_ok Let_def)

lemma put_inode_sb [simp]: "bm_sb (put_inode buf im i p) = bm_sb im"
  by (simp add: put_inode_def Let_def split: option.splits)

lemma put_inode_ok [simp]: "bm_ok (put_inode buf im i p) = bm_ok im"
  by (simp add: bm_ok_def)

lemma put_inode_other:
  "bm_ok im \<Longrightarrow> b \<noteq> ino_block i \<Longrightarrow> bm_blocks (put_inode buf im i (Some ino)) b = bm_blocks im b"
  by (simp add: put_inode_unfold bm.wr_other)

lemma put_inode_same:
  assumes "bm_ok im" and "i < INODE_NUM" and "inode_wf ino"
  shows "inode_at (put_inode buf im i (Some ino)) i = (if i_type ino = 0 then None else Some ino)"
proof -
  have "inode_of_bytes (bm_blocks (put_inode buf im i (Some ino)) (ino_block i))
      = inode_of_bytes (store_inode (bm_read_block im (ino_block i) buf) ino)"
    using assms ino_block_bounds [of i] first_data_less
    by (intro inode_of_bytes_cong) (simp add: put_inode_unfold bm.wr_same BLOCK_SIZE_eq)
  with assms show ?thesis
    by (simp add: inode_at_def inode_of_store_inode)
qed

lemma put_inode_at_other:
  "bm_ok im \<Longrightarrow> j \<noteq> i \<Longrightarrow> inode_at (put_inode buf im i (Some ino)) j = inode_at im j"
  by (rule inode_at_cong) (simp add: put_inode_other)

lemma put_inode_used:
  "bm_ok im \<Longrightarrow> i < INODE_NUM \<Longrightarrow> b < BPB \<Longrightarrow> bm_used (put_inode buf im i (Some ino)) b = bm_used im b"
  using ino_block_bounds [of i] by (simp add: bm_used_small put_inode_other)

end
