(* ===== verification/File_Invariant.thy ===== *)
theory File_Invariant
  imports Inode_Layout
begin

text \<open>
  The invariant of the inode layer and its abstract view. Every file owns the data blocks
  its size calls for, and the indirect block when there are more than \<open>NDIRECT\<close> of them;
  owned blocks are marked in the bitmap, lie in the data area, and belong to one file
  only. The abstract view \<open>abs_fs\<close> maps an inode number to the type and the bytes of the
  file. The lemma \<open>fs_inv_update\<close> is the frame rule all operations use: an operation that
  changes only the inode and the blocks of one file, and free blocks, keeps the invariant
  and every other file.
\<close>

definition data_range :: "nat set" where
  "data_range = {b. first_data \<le> b \<and> b < BLOCK_NUM}"

definition ids_at :: "buffer \<Rightarrow> nat \<Rightarrow> nat list" where
  "ids_at ids n = map (\<lambda>k. get_u32 ids (4 * k)) [0..<n]"

definition data_blocks :: "inode_manager \<Rightarrow> inode \<Rightarrow> nat list" where
  "data_blocks im ino =
     (let n = block_count (i_size ino)
      in if n \<le> NDIRECT then take n (i_blocks ino)
         else take NDIRECT (i_blocks ino) @ ids_at (bm_blocks im (i_blocks ino ! NDIRECT)) (n - NDIRECT))"

definition own_blocks :: "inode_manager \<Rightarrow> inode \<Rightarrow> nat list" where
  "own_blocks im ino =
     (if block_count (i_size ino) \<le> NDIRECT then data_blocks im ino
      else i_blocks ino ! NDIRECT # data_blocks im ino)"

definition own :: "inode_manager \<Rightarrow> nat \<Rightarrow> nat list" where
  "own im i = (case inode_at im i of None \<Rightarrow> [] | Some ino \<Rightarrow> own_blocks im ino)"

definition fs_inv :: "inode_manager \<Rightarrow> bool" where
  "fs_inv im \<longleftrightarrow> bm_ok im
     \<and> (\<forall>i ino. inode_at im i = Some ino \<longrightarrow> block_count (i_size ino) \<le> MAXFILE)
     \<and> (\<forall>i. distinct (own im i) \<and> set (own im i) \<subseteq> {b \<in> data_range. bm_used im b})
     \<and> (\<forall>i j. i \<noteq> j \<longrightarrow> set (own im i) \<inter> set (own im j) = {})"

definition file_bytes :: "inode_manager \<Rightarrow> inode \<Rightarrow> byte list" where
  "file_bytes im ino =
     map (\<lambda>k. bm_blocks im (data_blocks im ino ! (k div BLOCK_SIZE)) (k mod BLOCK_SIZE)) [0..<i_size ino]"

definition abs_fs :: "inode_manager \<Rightarrow> nat \<Rightarrow> (nat \<times> byte list) option" where
  "abs_fs im i = map_option (\<lambda>ino. (i_type ino, file_bytes im ino)) (inode_at im i)"

section \<open>Arithmetic of block counts\<close>

lemma block_count_0 [simp]: "block_count 0 = 0"
  by (simp add: block_count_def)

lemma block_count_le_iff: "block_count n \<le> m \<longleftrightarrow> n \<le> m * BLOCK_SIZE"
proof (cases "n mod BLOCK_SIZE = 0")
  case True
  then have n: "n = n div BLOCK_SIZE * BLOCK_SIZE" by (metis div_mult_mod_eq add_0_right)
  show ?thesis
    using True mult_le_cancel2 [of "n div BLOCK_SIZE" BLOCK_SIZE m] n by (simp add: block_count_def)
next
  case False
  then have "n \<noteq> m * BLOCK_SIZE" by auto
  then have "n \<le> m * BLOCK_SIZE \<longleftrightarrow> n div BLOCK_SIZE < m"
    using div_less_iff_less_mult [of BLOCK_SIZE n m] by (auto simp: le_less)
  with False show ?thesis by (auto simp: block_count_def)
qed

lemma block_count_add [simp]: "block_count (n + BLOCK_SIZE) = block_count n + 1"
  by (simp add: block_count_def div_add_self2)

lemma block_index_less: "k < n \<Longrightarrow> k div BLOCK_SIZE < block_count n"
  using block_count_le_iff [of n "k div BLOCK_SIZE"] div_times_less_eq_dividend [of k BLOCK_SIZE]
  by linarith

lemma block_count_bound: "n < 2 ^ 32 \<Longrightarrow> block_count n \<le> 2 ^ 18"
  by (simp add: block_count_le_iff BLOCK_SIZE_eq)

lemma length_ids_at [simp]: "length (ids_at ids n) = n"
  by (simp add: ids_at_def)

lemma ids_at_nth: "k < n \<Longrightarrow> ids_at ids n ! k = get_u32 ids (4 * k)"
  by (simp add: ids_at_def)

lemma ids_at_cong:
  "(\<And>i. i < 4 * n \<Longrightarrow> ids i = ids' i) \<Longrightarrow> ids_at ids n = ids_at ids' n"
  by (auto simp: ids_at_def intro!: get_u32_cong)

lemma length_data_blocks:
  "length (i_blocks ino) = NDIRECT + 1 \<Longrightarrow> length (data_blocks im ino) = block_count (i_size ino)"
  by (simp add: data_blocks_def Let_def)

section \<open>Frame\<close>

lemma data_blocks_cong:
  "(NDIRECT < block_count (i_size ino) \<Longrightarrow>
      bm_blocks im' (i_blocks ino ! NDIRECT) = bm_blocks im (i_blocks ino ! NDIRECT)) \<Longrightarrow>
   data_blocks im' ino = data_blocks im ino"
  by (simp add: data_blocks_def Let_def)

lemma own_blocks_frame:
  assumes "\<And>b. b \<in> set (own_blocks im ino) \<Longrightarrow> bm_blocks im' b = bm_blocks im b"
    and "length (i_blocks ino) = NDIRECT + 1"
  shows "data_blocks im' ino = data_blocks im ino" and "own_blocks im' ino = own_blocks im ino"
    and "file_bytes im' ino = file_bytes im ino"
proof -
  show db: "data_blocks im' ino = data_blocks im ino"
    by (rule data_blocks_cong, rule assms(1)) (simp add: own_blocks_def)
  then show "own_blocks im' ino = own_blocks im ino" by (simp add: own_blocks_def)
  have "set (data_blocks im ino) \<subseteq> set (own_blocks im ino)"
    by (auto simp: own_blocks_def)
  with assms(1) have same: "bm_blocks im' b = bm_blocks im b" if "b \<in> set (data_blocks im ino)" for b
    using that by blast
  have "k div BLOCK_SIZE < length (data_blocks im ino)" if "k < i_size ino" for k
    using that assms(2) by (simp add: length_data_blocks block_index_less)
  then show "file_bytes im' ino = file_bytes im ino"
    by (simp add: file_bytes_def db same)
qed

lemma inode_frame:
  assumes "bm_blocks im' (ino_block i) = bm_blocks im (ino_block i)"
    and "\<And>b. b \<in> set (own im i) \<Longrightarrow> bm_blocks im' b = bm_blocks im b"
  shows "inode_at im' i = inode_at im i" and "own im' i = own im i" and "abs_fs im' i = abs_fs im i"
proof -
  show at: "inode_at im' i = inode_at im i" using assms(1) by (rule inode_at_cong)
  show "own im' i = own im i"
    using own_blocks_frame(2) [of im _ im'] assms(2) inode_at_blocks
    by (auto simp: own_def at split: option.split)
  show "abs_fs im' i = abs_fs im i"
    using own_blocks_frame(3) [of im _ im'] assms(2) inode_at_blocks
    by (cases "inode_at im i") (auto simp: abs_fs_def own_def at)
qed

lemma fs_inv_ok: "fs_inv im \<Longrightarrow> bm_ok im"
  by (simp add: fs_inv_def)

lemma fs_inv_own:
  assumes "fs_inv im"
  shows "distinct (own im i)" and "b \<in> set (own im i) \<Longrightarrow> b \<in> data_range"
    and "b \<in> set (own im i) \<Longrightarrow> bm_used im b"
    and "i \<noteq> j \<Longrightarrow> b \<in> set (own im i) \<Longrightarrow> b \<notin> set (own im j)"
proof -
  show "distinct (own im i)" using assms unfolding fs_inv_def by blast
  have "set (own im i) \<subseteq> {b \<in> data_range. bm_used im b}"
    using assms unfolding fs_inv_def by blast
  then show "b \<in> set (own im i) \<Longrightarrow> b \<in> data_range"
    and "b \<in> set (own im i) \<Longrightarrow> bm_used im b" by auto
  show "i \<noteq> j \<Longrightarrow> b \<in> set (own im i) \<Longrightarrow> b \<notin> set (own im j)"
    using assms unfolding fs_inv_def by blast
qed

lemma fs_inv_count: "fs_inv im \<Longrightarrow> inode_at im i = Some ino \<Longrightarrow> block_count (i_size ino) \<le> MAXFILE"
  unfolding fs_inv_def by blast

lemma data_range_bounds:
  assumes "b \<in> data_range"
  shows "2 < b" and "b < BLOCK_NUM" and "b < BPB" and "BBLOCK b = 2"
  using assms by (simp_all add: data_range_def first_data_def layout_defs)

lemma ino_block_not_data: "i < INODE_NUM \<Longrightarrow> ino_block i \<notin> data_range"
  using ino_block_bounds [of i] by (simp add: data_range_def)

lemma bm_free_data: "b \<in> bm_free im \<Longrightarrow> b \<in> data_range \<and> \<not> bm_used im b"
  by (simp add: bm_free_def data_range_def)

lemma own_large: "INODE_NUM \<le> i \<Longrightarrow> own im i = []"
  by (simp add: own_def inode_at_def)

text \<open>The set of blocks an operation on file \<open>i\<close> may write.\<close>

definition touch :: "inode_manager \<Rightarrow> nat \<Rightarrow> nat set" where
  "touch im i = {2, ino_block i} \<union> set (own im i) \<union> bm_free im"

lemma fs_inv_update:
  assumes inv: "fs_inv im" and i: "i < INODE_NUM" and ok: "bm_ok im'"
    and frame: "\<And>b. b \<notin> touch im i \<Longrightarrow> bm_blocks im' b = bm_blocks im b"
    and used: "\<And>b. b \<in> data_range \<Longrightarrow> bm_used im b \<Longrightarrow> b \<notin> set (own im i) \<Longrightarrow> bm_used im' b"
    and own: "distinct (own im' i)" "set (own im' i) \<subseteq> set (own im i) \<union> bm_free im"
    and own_used: "\<And>b. b \<in> set (own im' i) \<Longrightarrow> bm_used im' b"
    and count: "\<And>ino. inode_at im' i = Some ino \<Longrightarrow> block_count (i_size ino) \<le> MAXFILE"
  shows "fs_inv im'" and "j \<noteq> i \<Longrightarrow> inode_at im' j = inode_at im j"
    and "j \<noteq> i \<Longrightarrow> abs_fs im' j = abs_fs im j" and "j \<noteq> i \<Longrightarrow> own im' j = own im j"
proof -
  have own_not_touch: "b \<notin> touch im i" if "j \<noteq> i" "b \<in> set (own im j)" for b j
    using fs_inv_own [OF inv] that bm_free_data data_range_bounds ino_block_not_data [OF i]
    unfolding touch_def by (metis UnE empty_iff insertE less_irrefl)
  have ino_not_touch: "ino_block j \<notin> touch im i" if "j \<noteq> i" "j < INODE_NUM" for j
    using that ino_block_bounds [of j] ino_block_not_data [OF that(2)] fs_inv_own(2) [OF inv]
      bm_free_data unfolding touch_def by auto
  have other: "inode_at im' j = inode_at im j \<and> own im' j = own im j \<and> abs_fs im' j = abs_fs im j"
    if "j \<noteq> i" for j
  proof (cases "j < INODE_NUM")
    case True
    then show ?thesis
      using inode_frame [of im' j im] frame own_not_touch ino_not_touch that by blast
  next
    case False
    then show ?thesis by (simp add: inode_at_def own_def abs_fs_def)
  qed
  then show "j \<noteq> i \<Longrightarrow> inode_at im' j = inode_at im j"
    and "j \<noteq> i \<Longrightarrow> abs_fs im' j = abs_fs im j" and "j \<noteq> i \<Longrightarrow> own im' j = own im j" by auto
  have sub: "b \<in> data_range" if "b \<in> set (own im' i)" for b
    using own(2) that fs_inv_own(2) [OF inv] bm_free_data by blast
  have range: "distinct (own im' j) \<and> set (own im' j) \<subseteq> {b \<in> data_range. bm_used im' b}" for j
  proof (cases "j = i")
    case True
    then show ?thesis using own(1) own_used sub by auto
  next
    case False
    then have "bm_used im' b" if "b \<in> set (own im j)" for b
      using that fs_inv_own [OF inv] used by metis
    with False show ?thesis using other [OF False] fs_inv_own [OF inv] by auto
  qed
  have disj: "set (own im' j) \<inter> set (own im' i) = {}" if "j \<noteq> i" for j
    using that own(2) other [OF that] fs_inv_own(3,4) [OF inv] bm_free_data by fastforce
  have "set (own im' j) \<inter> set (own im' k) = {}" if "j \<noteq> k" for j k
    using that disj [of j] disj [of k] other [of j] other [of k] fs_inv_own(4) [OF inv, of j k]
    by (metis disjoint_iff)
  moreover have "block_count (i_size ino) \<le> MAXFILE" if "inode_at im' j = Some ino" for j ino
    using that count other [of j] fs_inv_count [OF inv] by (cases "j = i") auto
  ultimately show "fs_inv im'"
    unfolding fs_inv_def using ok range by blast
qed

section \<open>Committing a file\<close>

text \<open>
  \<open>bits_for im i B bm\<close>: compared with \<open>im\<close>, the bitmap of \<open>bm\<close> has exactly the blocks of
  file \<open>i\<close> exchanged for \<open>B\<close>. \<open>written\<close> is the contract of every operation that gives file
  \<open>i\<close> new contents: the invariant, the new abstract state, all other inodes as they were,
  and no block lost or used twice.
\<close>

definition bits_for :: "inode_manager \<Rightarrow> nat \<Rightarrow> nat set \<Rightarrow> block_manager \<Rightarrow> bool" where
  "bits_for im i B bm \<longleftrightarrow>
     (\<forall>b \<in> data_range. bm_used bm b = (b \<in> B \<or> bm_used im b \<and> b \<notin> set (own im i)))"

definition written :: "inode_manager \<Rightarrow> nat \<Rightarrow> nat \<Rightarrow> byte list \<Rightarrow> inode_manager \<Rightarrow> bool" where
  "written im i ty bytes im' \<longleftrightarrow>
     fs_inv im' \<and> abs_fs im' = (abs_fs im)(i \<mapsto> (ty, bytes)) \<and> bits_for im i (set (own im' i)) im'
     \<and> set (own im' i) \<subseteq> set (own im i) \<union> bm_free im
     \<and> (\<forall>j. j \<noteq> i \<longrightarrow> inode_at im' j = inode_at im j \<and> own im' j = own im j)"

lemma bits_forD: "bits_for im i B bm \<Longrightarrow> b \<in> data_range \<Longrightarrow>
    bm_used bm b = (b \<in> B \<or> bm_used im b \<and> b \<notin> set (own im i))"
  by (simp add: bits_for_def)

lemma bits_for_same: "fs_inv im \<Longrightarrow> bits_for im i (set (own im i)) im"
  using fs_inv_own(3) [of im _ i] by (auto simp: bits_for_def)

lemma commit_file:
  assumes inv: "fs_inv im" and i: "i < INODE_NUM"
    and bm: "bm_ok bm" "\<And>b. b \<notin> insert 2 (set B) \<Longrightarrow> bm_blocks bm b = bm_blocks im b"
      "bits_for im i (set B) bm"
    and B: "distinct B" "set B \<subseteq> set (own im i) \<union> bm_free im"
    and ino': "inode_wf ino'" "i_type ino' \<noteq> 0" "block_count (i_size ino') \<le> MAXFILE" "own_blocks bm ino' = B"
    and im': "im' = put_inode m bm i (Some ino')"
  shows "written im i (i_type ino') (file_bytes bm ino') im'" and "inode_at im' i = Some ino'"
    and "own im' i = B" and "b \<in> data_range \<Longrightarrow> bm_used im' b = bm_used bm b"
proof -
  have range: "set B \<subseteq> data_range" using B(2) fs_inv_own(2) [OF inv] bm_free_data by blast
  have blocks: "bm_blocks im' b = bm_blocks bm b" if "b \<noteq> ino_block i" for b
    using that bm(1) by (simp add: im' put_inode_other)
  have nB: "b \<noteq> ino_block i" if "b \<in> set B" for b
    using that range ino_block_not_data [OF i] by (metis subsetD)
  have frame: "bm_blocks im' b = bm_blocks bm b" if "b \<in> set (own_blocks bm ino')" for b
    using that blocks nB by (simp add: ino'(4))
  have len: "length (i_blocks ino') = NDIRECT + 1" using ino'(1) by (simp add: inode_wf_def)
  have fr: "own_blocks im' ino' = own_blocks bm ino'" "file_bytes im' ino' = file_bytes bm ino'"
    by (rule own_blocks_frame; simp add: frame len)+
  show at': "inode_at im' i = Some ino'" using bm(1) i ino' by (simp add: im' put_inode_same)
  show own': "own im' i = B" by (simp add: own_def at' fr ino'(4))
  show used: "bm_used im' b = bm_used bm b" if "b \<in> data_range" for b
    using that bm(1) i data_range_bounds(3) [OF that] by (simp add: im' put_inode_used)
  have bits: "bits_for im i (set (own im' i)) im'"
    using used bits_forD [OF bm(3)] by (simp add: bits_for_def own')
  have touch: "bm_blocks im' b = bm_blocks im b" if "b \<notin> touch im i" for b
    using that B(2) blocks [of b] bm(2) [of b] by (auto simp: touch_def)
  have keep: "bm_used im' b" if "b \<in> data_range" "bm_used im b" "b \<notin> set (own im i)" for b
    using that bits_forD [OF bits] by simp
  have mine: "bm_used im' b" if "b \<in> set (own im' i)" for b
    using that bits_forD [OF bits] range own' by auto
  have ok': "bm_ok im'" using bm(1) by (simp add: im')
  have d: "distinct (own im' i)" "set (own im' i) \<subseteq> set (own im i) \<union> bm_free im"
    using B own' by simp_all
  have count: "block_count (i_size x) \<le> MAXFILE" if "inode_at im' i = Some x" for x
    using that at' ino'(3) by simp
  note upd = fs_inv_update [OF inv i ok' touch keep d mine count]
  have "fs_inv im'" by (rule upd(1)) simp_all
  moreover have "abs_fs im' = (abs_fs im)(i \<mapsto> (i_type ino', file_bytes bm ino'))"
    using upd(3) by (auto simp: fun_eq_iff abs_fs_def at' fr)
  moreover have "inode_at im' j = inode_at im j \<and> own im' j = own im j" if "j \<noteq> i" for j
    by (rule conjI; rule upd; simp add: that)
  ultimately show "written im i (i_type ino') (file_bytes bm ino') im'"
    unfolding written_def using bits B(2) own' by blast
qed

end
