(* ===== verification/File_Loops.thy ===== *)
theory File_Loops
  imports File_Invariant
begin

text \<open>
  The loops of \<open>read_file\<close>, \<open>write_file\<close> and \<open>remove_file\<close>: what filling slots with fresh
  blocks, freeing blocks, writing and reading the direct and the indirect blocks of a file
  do to the disk, for any number of iterations.
\<close>

lemma NDIRECT_facts: "NDIRECT = 100" "NINDIRECT = 4096" "MAXFILE = 4196"
  by (simp_all add: NDIRECT_def NINDIRECT_def MAXFILE_def BLOCK_SIZE_eq)

section \<open>Writing\<close>

lemma write_direct_Suc:
  "write_direct bs buf (Suc n) bm =
     (let (bm', off) = write_direct bs buf n bm
      in (bm_write_block (bm_write_block bm' (bs ! n) zeros) (bs ! n) (ptr_add buf off), off + BLOCK_SIZE))"
  by (simp add: write_direct_def case_prod_beta)

lemma write_direct_off: "snd (write_direct bs buf n bm) = n * BLOCK_SIZE"
  by (induction n) (simp_all add: write_direct_Suc case_prod_beta, simp add: write_direct_def)

lemma write_direct_sb [simp]: "bm_sb (fst (write_direct bs buf n bm)) = bm_sb bm"
  by (induction n) (simp_all add: write_direct_Suc case_prod_beta, simp add: write_direct_def)

lemma write_direct_other:
  "n \<le> length bs \<Longrightarrow> c \<notin> set (take n bs) \<Longrightarrow>
     bm_blocks (fst (write_direct bs buf n bm)) c = bm_blocks bm c"
proof (induction n)
  case 0
  then show ?case by (simp add: write_direct_def)
next
  case (Suc n)
  then show ?case
    by (simp add: write_direct_Suc case_prod_beta take_Suc_conv_app_nth bm.wr_other)
qed

lemma write_direct_same:
  assumes "n \<le> length bs" and "distinct (take n bs)" and "set (take n bs) \<subseteq> {..<BLOCK_NUM}"
    and "i < n" and "k < BLOCK_SIZE"
  shows "bm_blocks (fst (write_direct bs buf n bm)) (bs ! i) k = buf (i * BLOCK_SIZE + k)"
  using assms
proof (induction n)
  case (Suc n)
  then have dist: "distinct (take n bs)" "bs ! n \<notin> set (take n bs)" "bs ! n < BLOCK_NUM"
    and sub: "set (take n bs) \<subseteq> {..<BLOCK_NUM}"
    by (simp_all add: take_Suc_conv_app_nth)
  show ?case
  proof (cases "i = n")
    case True
    with Suc.prems dist show ?thesis
      by (simp add: write_direct_Suc case_prod_beta bm.wr_same write_direct_off)
  next
    case False
    with Suc.prems(4) have i: "i < n" by simp
    with Suc.prems(1) have "bs ! i \<in> set (take n bs)"
      by (auto simp: in_set_conv_nth)
    with dist(2) have "bs ! i \<noteq> bs ! n" by metis
    with i Suc.IH Suc.prems(1,5) dist(1) sub show ?thesis
      by (simp add: write_direct_Suc case_prod_beta bm.wr_other)
  qed
qed simp

text \<open>
  The indirect loop stays inside its arrays for at most \<open>NDIRECT + 1\<close> iterations, because
  it indexes \<open>target_inode->blocks\<close>; the direct blocks it zeroes stay zero.
\<close>

lemma idx_get_in [simp]: "i < NINDIRECT \<Longrightarrow> idx_get ids i = Some (get_u32 ids (4 * i))"
  by (simp add: idx_get_def)

lemma write_indirect_Suc:
  "write_indirect bs ids buf (Suc n) st =
     Option.bind (write_indirect bs ids buf n st) (\<lambda>(bm, off). do {
       z \<leftarrow> arr_get bs n; b \<leftarrow> idx_get ids n;
       Some (bm_write_block (bm_write_block bm z zeros) b (ptr_add buf off), off + BLOCK_SIZE) })"
  by (simp add: write_indirect_def ofold_upt_Suc del: upt_Suc)

lemma write_indirect_0 [simp]: "write_indirect bs ids buf 0 st = Some st"
  by (simp add: write_indirect_def)

lemma write_indirect_out:
  "length bs < n \<Longrightarrow> write_indirect bs ids buf n st = None"
proof (induction n)
  case (Suc n)
  then show ?case
    by (cases "n = length bs") (simp_all add: write_indirect_Suc arr_get_def Option.bind_eq_None_conv)
qed simp

lemma write_indirect_run:
  assumes "n \<le> length bs" and "n \<le> NINDIRECT"
  shows "\<exists>bm'. write_indirect bs ids buf n (bm, off) = Some (bm', off + n * BLOCK_SIZE)
    \<and> bm_sb bm' = bm_sb bm
    \<and> (\<forall>c. c \<notin> set (take n bs) \<union> set (ids_at ids n) \<longrightarrow> bm_blocks bm' c = bm_blocks bm c)"
  using assms
proof (induction n)
  case (Suc n)
  then obtain bm' where bm': "write_indirect bs ids buf n (bm, off) = Some (bm', off + n * BLOCK_SIZE)"
    "bm_sb bm' = bm_sb bm"
    "\<forall>c. c \<notin> set (take n bs) \<union> set (ids_at ids n) \<longrightarrow> bm_blocks bm' c = bm_blocks bm c"
    by auto
  with Suc.prems show ?case
    by (simp add: write_indirect_Suc take_Suc_conv_app_nth ids_at_def bm.wr_other add.assoc)
qed simp

lemma write_indirect_content:
  assumes "n \<le> length bs" and "n \<le> NINDIRECT"
    and "write_indirect bs ids buf n (bm, off) = Some (bm', off')"
    and "distinct (ids_at ids n)" and "set (take n bs) \<inter> set (ids_at ids n) = {}"
    and "set (take n bs) \<union> set (ids_at ids n) \<subseteq> {..<BLOCK_NUM}" and "k < BLOCK_SIZE"
  shows "c \<in> set (take n bs) \<Longrightarrow> bm_blocks bm' c k = 0"
    and "i < n \<Longrightarrow> bm_blocks bm' (get_u32 ids (4 * i)) k = buf (off + i * BLOCK_SIZE + k)"
proof -
  have "(\<forall>c \<in> set (take n bs). bm_blocks bm' c k = 0)
      \<and> (\<forall>i < n. bm_blocks bm' (get_u32 ids (4 * i)) k = buf (off + i * BLOCK_SIZE + k))"
    using assms
  proof (induction n arbitrary: bm' off')
    case (Suc n)
    let ?z = "bs ! n" and ?b = "get_u32 ids (4 * n)"
    have split: "take (Suc n) bs = take n bs @ [?z]" "ids_at ids (Suc n) = ids_at ids n @ [?b]"
      using Suc.prems(1) by (simp_all add: take_Suc_conv_app_nth ids_at_def)
    from Suc.prems(1,2) obtain bm1 where bm1:
      "write_indirect bs ids buf n (bm, off) = Some (bm1, off + n * BLOCK_SIZE)"
      using write_indirect_run [of n bs ids buf bm off] by auto
    with Suc.prems(1,2,3) have bm': "bm' = bm_write_block (bm_write_block bm1 ?z zeros) ?b
        (ptr_add buf (off + n * BLOCK_SIZE))"
      by (simp add: write_indirect_Suc)
    from Suc.prems(4-6) have side: "distinct (ids_at ids n)" "?b \<notin> set (ids_at ids n)"
      "set (take n bs) \<inter> set (ids_at ids n) = {}" "?z \<notin> set (ids_at ids n)"
      "?b \<notin> set (take n bs)" "?z \<noteq> ?b" "?z < BLOCK_NUM" "?b < BLOCK_NUM"
      "set (take n bs) \<union> set (ids_at ids n) \<subseteq> {..<BLOCK_NUM}"
      unfolding split by auto
    have IH: "\<forall>c \<in> set (take n bs). bm_blocks bm1 c k = 0"
      "\<forall>i < n. bm_blocks bm1 (get_u32 ids (4 * i)) k = buf (off + i * BLOCK_SIZE + k)"
      using Suc.IH [OF _ _ bm1 side(1,3,9) Suc.prems(7)] Suc.prems(1,2) by auto
    have "get_u32 ids (4 * i) \<in> set (ids_at ids n)" if "i < n" for i
      using that by (simp add: ids_at_def)
    then have "\<forall>i < n. bm_blocks bm' (get_u32 ids (4 * i)) k = buf (off + i * BLOCK_SIZE + k)"
      using IH(2) side(2,4) unfolding bm' by (metis bm.wr_other)
    moreover have "bm_blocks bm' ?b k = buf (off + n * BLOCK_SIZE + k)"
      using side(8) Suc.prems(7) by (simp add: bm' bm.wr_same)
    moreover have "\<forall>c \<in> set (take n bs). bm_blocks bm' c k = 0"
    proof
      fix c assume c: "c \<in> set (take n bs)"
      then have "c \<noteq> ?b" using side(5) by metis
      with c IH(1) side(7) Suc.prems(7) show "bm_blocks bm' c k = 0"
        by (cases "c = ?z") (simp_all add: bm' bm.wr_other bm.wr_same zeros_def)
    qed
    moreover have "bm_blocks bm' ?z k = 0"
      using side(6,7) Suc.prems(7) by (simp add: bm' bm.wr_other bm.wr_same zeros_def)
    ultimately show ?case
      unfolding split by (auto simp: less_Suc_eq)
  qed simp
  then show "c \<in> set (take n bs) \<Longrightarrow> bm_blocks bm' c k = 0"
    and "i < n \<Longrightarrow> bm_blocks bm' (get_u32 ids (4 * i)) k = buf (off + i * BLOCK_SIZE + k)"
    by blast+
qed

section \<open>Allocating\<close>

lemma alloc_direct_run:
  assumes "alloc_direct e lo hi (bm, bs) = (bm', bs')" and "bm_ok bm"
    and "hi - lo \<le> card (bm_free bm)" and "hi \<le> length bs"
  shows "bm_ok bm'" and "length bs' = length bs" and "i \<notin> {lo..<hi} \<Longrightarrow> bs' ! i = bs ! i"
    and "inj_on ((!) bs') {lo..<hi}" and "(!) bs' ` {lo..<hi} \<subseteq> bm_free bm"
    and "bm_free bm' = bm_free bm - (!) bs' ` {lo..<hi}"
    and "bm_used bm' c = (c \<in> (!) bs' ` {lo..<hi} \<or> bm_used bm c)"
    and "c \<noteq> 2 \<Longrightarrow> bm_blocks bm' c = bm_blocks bm c"
  using bma.alloc_run [of "\<lambda>i. junk e (10 + i)" "\<lambda>i b bs. bs[i := b]" "[lo..<hi]" bm bs bm' bs'
      "\<lambda>a. length a = length bs" "(!)"] assms
  by (auto simp: alloc_direct_def)

text \<open>Slot \<open>j - base\<close> of the indirect block, seen as an array indexed by \<open>j\<close>.\<close>

definition slot :: "nat \<Rightarrow> buffer \<Rightarrow> nat \<Rightarrow> nat" where
  "slot base ids j = (if j < base then 0 else get_u32 ids (4 * (j - base)))"

lemma bm_free_u32: "b \<in> bm_free bm \<Longrightarrow> b mod 2 ^ 32 = b"
  by (simp add: bm_free_def layout_defs)

lemma slot_put_same: "base \<le> i \<Longrightarrow> slot base (put_u32 ids (4 * (i - base)) b) i = b mod 2 ^ 32"
  by (simp add: slot_def mem_simps)

lemma slot_put_other: "base \<le> i \<Longrightarrow> j \<noteq> i \<Longrightarrow> slot base (put_u32 ids (4 * (i - base)) b) j = slot base ids j"
proof -
  assume "base \<le> i" "j \<noteq> i"
  then have "j < base \<or> 4 * (i - base) + 4 \<le> 4 * (j - base) \<or> 4 * (j - base) + 4 \<le> 4 * (i - base)"
    by linarith
  then show ?thesis by (auto simp: slot_def mem_simps)
qed

lemma alloc_indirect_run:
  assumes "alloc_indirect e base lo hi (bm, ids) = (bm', ids')" and "bm_ok bm"
    and "hi - lo \<le> card (bm_free bm)" and "base \<le> lo"
  shows "bm_ok bm'" and "i \<notin> {lo..<hi} \<Longrightarrow> slot base ids' i = slot base ids i"
    and "inj_on (slot base ids') {lo..<hi}" and "slot base ids' ` {lo..<hi} \<subseteq> bm_free bm"
    and "bm_free bm' = bm_free bm - slot base ids' ` {lo..<hi}"
    and "bm_used bm' c = (c \<in> slot base ids' ` {lo..<hi} \<or> bm_used bm c)"
    and "c \<noteq> 2 \<Longrightarrow> bm_blocks bm' c = bm_blocks bm c"
  using bma.alloc_run [of "\<lambda>i. junk e (200 + i)" "\<lambda>i b ids. put_u32 ids (4 * (i - base)) b" "[lo..<hi]"
      bm ids bm' ids' "\<lambda>_. True" "slot base"] assms
  by (auto simp: alloc_indirect_def slot_put_same slot_put_other bm_free_u32 simp del: power_numeral)

section \<open>Freeing\<close>

lemma free_block_data:
  assumes "f \<in> data_range"
  shows "c \<noteq> 2 \<Longrightarrow> bm_blocks (free_block m f bm) c = bm_blocks bm c"
    and "bm_used (free_block m f bm) b = (b \<noteq> f \<and> bm_used bm b)"
  using data_range_bounds [OF assms] by (simp_all add: free_block_other free_block_used layout_defs)

lemma free_fold_run:
  assumes "\<forall>i \<in> set ns. f i \<in> data_range"
  shows "bm_sb (fold (\<lambda>i. free_block (m i) (f i)) ns bm) = bm_sb bm"
    and "c \<noteq> 2 \<Longrightarrow> bm_blocks (fold (\<lambda>i. free_block (m i) (f i)) ns bm) c = bm_blocks bm c"
    and "bm_used (fold (\<lambda>i. free_block (m i) (f i)) ns bm) b = (b \<notin> f ` set ns \<and> bm_used bm b)"
  using assms
  by (induction ns arbitrary: bm)
    (auto simp: free_block_data)

lemma free_indirect_fold:
  "hi \<le> NINDIRECT \<Longrightarrow> free_indirect e ids lo hi bm
     = Some (fold (\<lambda>i. free_block (junk e (200 + i)) (get_u32 ids (4 * i))) [lo..<hi] bm)"
  unfolding free_indirect_def by (rule ofold_eq_fold) simp

section \<open>Reading\<close>

text \<open>
  A reading loop over the blocks \<open>f 0, f 1, \<dots>\<close>: after \<open>n\<close> rounds the buffer holds their
  bytes one after the other from \<open>off\<close> on, and what was before \<open>off\<close> is still there.
\<close>

definition read_run :: "inode_manager \<Rightarrow> (nat \<Rightarrow> nat) \<Rightarrow> nat \<Rightarrow> buffer \<Rightarrow> nat \<Rightarrow> buffer" where
  "read_run im f n buf off =
     fst (fold (\<lambda>i (buf, off). (read_into im (f i) buf off, off + BLOCK_SIZE)) [0..<n] (buf, off))"

lemma read_run_off:
  "snd (fold (\<lambda>i (buf, off). (read_into im (f i) buf off, off + BLOCK_SIZE)) [0..<n] (buf, off))
     = off + n * BLOCK_SIZE"
  by (induction n) (simp_all add: case_prod_beta)

lemma read_run_Suc: "read_run im f (Suc n) buf off
    = read_into im (f n) (read_run im f n buf off) (off + n * BLOCK_SIZE)"
  by (simp add: read_run_def case_prod_beta read_run_off)

lemma read_into_at:
  "read_into im b buf off k =
     (if off \<le> k \<and> k < off + BLOCK_SIZE \<and> b < BLOCK_NUM then bm_blocks im b (k - off) else buf k)"
  using bm.rd_in [of b "k - off" im "ptr_add buf off"] bm.rd_out [of b im "ptr_add buf off"]
  by (auto simp: read_into_def memcpy_at_def not_less)

lemma read_run_before: "k < off \<Longrightarrow> read_run im f n buf off k = buf k"
  by (induction n) (simp_all add: read_run_Suc read_into_at, simp add: read_run_def)

lemma read_run_bytes:
  assumes "\<forall>i < n. f i < BLOCK_NUM" and "k < n * BLOCK_SIZE"
  shows "read_run im f n buf off (off + k) = bm_blocks im (f (k div BLOCK_SIZE)) (k mod BLOCK_SIZE)"
  using assms
proof (induction n)
  case (Suc n)
  show ?case
  proof (cases "k < n * BLOCK_SIZE")
    case True
    with Suc show ?thesis by (simp add: read_run_Suc read_into_at)
  next
    case False
    with Suc.prems(2) have "k div BLOCK_SIZE = n"
      by (simp add: div_nat_eqI mult.commute)
    then have "k = n * BLOCK_SIZE + k mod BLOCK_SIZE" by (metis div_mult_mod_eq)
    then have "k - n * BLOCK_SIZE = k mod BLOCK_SIZE" by simp
    with False Suc.prems \<open>k div BLOCK_SIZE = n\<close> show ?thesis
      by (simp add: read_run_Suc read_into_at add.commute)
  qed
qed simp

lemma read_direct_run:
  assumes "n \<le> length bs"
  shows "read_direct im bs n (buf, off)
    = Some (read_run im (\<lambda>i. bs ! i) n buf off, off + n * BLOCK_SIZE)"
proof -
  have "read_direct im bs n (buf, off)
      = Some (fold (\<lambda>i (buf, off). (read_into im (bs ! i) buf off, off + BLOCK_SIZE)) [0..<n] (buf, off))"
    unfolding read_direct_def using assms by (intro ofold_eq_fold) auto
  then show ?thesis
    by (simp add: read_run_def prod_eq_iff read_run_off)
qed

lemma read_indirect_run:
  assumes "n \<le> NINDIRECT"
  shows "read_indirect im ids n (buf, off)
    = Some (read_run im (\<lambda>i. get_u32 ids (4 * i)) n buf off, off + n * BLOCK_SIZE)"
proof -
  have "read_indirect im ids n (buf, off)
      = Some (fold (\<lambda>i (buf, off). (read_into im (get_u32 ids (4 * i)) buf off, off + BLOCK_SIZE))
          [0..<n] (buf, off))"
    unfolding read_indirect_def using assms by (intro ofold_eq_fold) auto
  then show ?thesis
    by (simp add: read_run_def prod_eq_iff read_run_off)
qed

end
