(* ===== verification/File_Read.thy ===== *)
theory File_Read
  imports File_Loops
begin

text \<open>
  Operations that leave the contents of all files alone: reading a file returns exactly its
  bytes, of whatever size, and creating and listing files. \<open>inode_only\<close> is the
  shared lemma for operations whose last step rewrites one inode.
\<close>

lemma inode_views_same:
  assumes "i_size ino' = i_size ino" and "i_blocks ino' = i_blocks ino"
  shows "data_blocks im ino' = data_blocks im ino" and "own_blocks im ino' = own_blocks im ino"
    and "file_bytes im ino' = file_bytes im ino"
  using assms by (simp_all add: data_blocks_def own_blocks_def file_bytes_def Let_def)

lemma own_Some: "inode_at im i = Some ino \<Longrightarrow> own im i = own_blocks im ino"
  by (simp add: own_def)

lemma data_sub_own: "set (data_blocks im ino) \<subseteq> set (own_blocks im ino)"
  by (auto simp: own_blocks_def)

lemma fs_inv_data:
  assumes "fs_inv im" and "inode_at im i = Some ino"
  shows "set (data_blocks im ino) \<subseteq> data_range"
    and "NDIRECT < block_count (i_size ino) \<Longrightarrow> i_blocks ino ! NDIRECT \<in> data_range"
proof -
  have "set (own_blocks im ino) \<subseteq> data_range"
    using fs_inv_own(2) [OF assms(1), of _ i] own_Some [OF assms(2)] by auto
  then show "set (data_blocks im ino) \<subseteq> data_range"
    and "NDIRECT < block_count (i_size ino) \<Longrightarrow> i_blocks ino ! NDIRECT \<in> data_range"
    using data_sub_own [of im ino] by (auto simp: own_blocks_def)
qed

lemma data_blocks_nth:
  assumes "length (i_blocks ino) = NDIRECT + 1" and "n < block_count (i_size ino)"
  shows "data_blocks im ino ! n =
    (if n < NDIRECT then i_blocks ino ! n
     else get_u32 (bm_blocks im (i_blocks ino ! NDIRECT)) (4 * (n - NDIRECT)))"
  using assms by (auto simp: data_blocks_def Let_def nth_append ids_at_nth)

section \<open>Reading a file\<close>

lemma read_indirect_ids:
  assumes "b \<in> data_range" and "k < NINDIRECT"
  shows "get_u32 (bm_read_block im b m) (4 * k) = get_u32 (bm_blocks im b) (4 * k)"
  using assms data_range_bounds(2) [of b]
  by (intro get_u32_cong) (simp add: bm.rd_in NDIRECT_facts BLOCK_SIZE_eq)

lemma read_blocks_bytes:
  assumes inv: "fs_inv im" and at: "inode_at im i = Some ino"
  shows "\<exists>buf. read_blocks e im ino = Some buf \<and> map buf [0..<i_size ino] = file_bytes im ino"
proof -
  let ?n = "block_count (i_size ino)" and ?bs = "i_blocks ino"
  have len: "length ?bs = NDIRECT + 1" by (rule inode_at_blocks [OF at])
  have db: "data_blocks im ino ! k < BLOCK_NUM" if "k < ?n" for k
    using that fs_inv_data(1) [OF inv at] length_data_blocks [OF len, of im] data_range_bounds(2)
    by (metis nth_mem subsetD)
  have blk: "k div BLOCK_SIZE < ?n" if "k < i_size ino" for k
    using that by (rule block_index_less)
  note nth = data_blocks_nth [OF len, of _ im]
  have size: "i_size ino \<le> ?n * BLOCK_SIZE" using block_count_le_iff [of "i_size ino" ?n] by simp
  consider (one) "i_size ino \<le> BLOCK_SIZE" | (direct) "BLOCK_SIZE < i_size ino" "?n \<le> NDIRECT"
    | (indirect) "BLOCK_SIZE < i_size ino" "NDIRECT < ?n" by linarith
  then show ?thesis
  proof cases
    case one
    have "bm_read_block im (?bs ! 0) (junk e 1) k = bm_blocks im (data_blocks im ino ! (k div BLOCK_SIZE)) (k mod BLOCK_SIZE)"
      if "k < i_size ino" for k
      using that one db [of 0] blk [of k] nth [of 0] by (simp add: bm.rd_in NDIRECT_facts)
    then show ?thesis using one len by (simp add: read_blocks_def file_bytes_def)
  next
    case direct
    then have f: "\<forall>k < ?n. ?bs ! k < BLOCK_NUM" using db nth by force
    have "read_run im ((!) ?bs) ?n (junk e 1) 0 k = bm_blocks im (data_blocks im ino ! (k div BLOCK_SIZE)) (k mod BLOCK_SIZE)"
      if "k < i_size ino" for k
      using that read_run_bytes [OF f, of k im "junk e 1" 0] size blk [of k] nth [of "k div BLOCK_SIZE"] direct
      by simp
    then show ?thesis
      using direct len by (simp add: read_blocks_def file_bytes_def read_direct_run)
  next
    case indirect
    let ?m = "?n - NDIRECT" and ?ids = "bm_read_block im (?bs ! NDIRECT) (junk e 2)"
    have m: "?m \<le> NINDIRECT" using fs_inv_count [OF inv at] by (simp add: MAXFILE_def)
    let ?b1 = "read_run im ((!) ?bs) NDIRECT (junk e 1) 0"
    let ?b2 = "read_run im (\<lambda>k. get_u32 ?ids (4 * k)) ?m ?b1 (NDIRECT * BLOCK_SIZE)"
    have ids: "get_u32 ?ids (4 * k) = data_blocks im ino ! (NDIRECT + k)" if "k < ?m" for k
      using that read_indirect_ids [OF fs_inv_data(2) [OF inv at indirect(2)], of k] m nth [of "NDIRECT + k"]
      by simp
    have f1: "\<forall>k < NDIRECT. ?bs ! k < BLOCK_NUM" using db nth indirect(2) by (metis order_less_trans)
    have f2: "\<forall>k < ?m. get_u32 ?ids (4 * k) < BLOCK_NUM" using ids db by simp
    have "?b2 k = bm_blocks im (data_blocks im ino ! (k div BLOCK_SIZE)) (k mod BLOCK_SIZE)"
      if k: "k < i_size ino" for k
    proof (cases "k < NDIRECT * BLOCK_SIZE")
      case True
      then have "k div BLOCK_SIZE < NDIRECT" by (simp add: less_mult_imp_div_less)
      with True show ?thesis
        using read_run_before [OF True] read_run_bytes [OF f1 True, of im "junk e 1" 0]
          nth [OF blk [OF k]] by simp
    next
      case False
      define k' where "k' = k - NDIRECT * BLOCK_SIZE"
      with False have kk: "k = NDIRECT * BLOCK_SIZE + k'" by simp
      have dm: "k div BLOCK_SIZE = NDIRECT + k' div BLOCK_SIZE" "k mod BLOCK_SIZE = k' mod BLOCK_SIZE"
        unfolding kk by simp_all
      have "k' < ?m * BLOCK_SIZE" using k size unfolding kk by (simp add: diff_mult_distrib)
      moreover have "k' div BLOCK_SIZE < ?m" using blk [OF k] dm(1) by simp
      ultimately show ?thesis
        using read_run_bytes [OF f2, of k' im ?b1 "NDIRECT * BLOCK_SIZE"] ids dm unfolding kk by simp
    qed
    then have "map ?b2 [0..<i_size ino] = file_bytes im ino" by (simp add: file_bytes_def)
    then show ?thesis
      using indirect len m by (simp add: read_blocks_def read_direct_run read_indirect_run)
  qed
qed

text \<open>Rewriting an inode without changing type, size and blocks.\<close>

lemma inode_only:
  assumes inv: "fs_inv im" and at: "inode_at im i = Some ino" and wf: "inode_wf ino'"
    and same: "i_type ino' = i_type ino" "i_size ino' = i_size ino" "i_blocks ino' = i_blocks ino"
    and im'_def: "im' = put_inode m im i (Some ino')"
  shows "fs_inv im'" and "abs_fs im' = abs_fs im" and "inode_at im' = (inode_at im)(i \<mapsto> ino')"
    and "b \<in> data_range \<Longrightarrow> bm_used im' b = bm_used im b"
    and "b \<noteq> ino_block i \<Longrightarrow> bm_blocks im' b = bm_blocks im b" and "own im' = own im"
proof -
  note ok = fs_inv_ok [OF inv]
  have i: "i < INODE_NUM" "i_type ino' \<noteq> 0" using inode_at_wf [OF at] same(1) by simp_all
  note views = inode_views_same [OF same(2,3), of im]
  have o: "own_blocks im ino' = own im i" using views own_Some [OF at] by simp
  have n: "block_count (i_size ino') \<le> MAXFILE" using fs_inv_count [OF inv at] same(2) by simp
  note c = commit_file [OF inv i(1) ok refl bits_for_same [OF inv] fs_inv_own(1) [OF inv]
      Un_upper1 wf i(2) n o im'_def]
  show "fs_inv im'" and used: "b \<in> data_range \<Longrightarrow> bm_used im' b = bm_used im b"
    and "b \<noteq> ino_block i \<Longrightarrow> bm_blocks im' b = bm_blocks im b"
    using c ok by (simp_all add: written_def im'_def put_inode_other)
  have "(abs_fs im)(i \<mapsto> (i_type ino', file_bytes im ino')) = abs_fs im"
    using same(1) views(3) by (auto simp: abs_fs_def at)
  then show "abs_fs im' = abs_fs im" using c by (simp add: written_def)
  show "inode_at im' = (inode_at im)(i \<mapsto> ino')" using c by (auto simp: written_def fun_eq_iff)
  show "own im' = own im" using c by (metis ext written_def)
qed

lemma read_file_ok:
  assumes inv: "fs_inv im" and at: "inode_at im i = Some ino"
  shows "\<exists>im' buf. read_file e im i = Some (im', Some (buf, i_size ino))
    \<and> map buf [0..<i_size ino] = file_bytes im ino \<and> fs_inv im' \<and> abs_fs im' = abs_fs im
    \<and> inode_at im' = (inode_at im)(i \<mapsto> ino\<lparr>i_atime := now e 0 mod 2 ^ 32\<rparr>)
    \<and> (\<forall>b \<in> data_range. bm_used im' b = bm_used im b) \<and> own im' = own im"
proof -
  let ?ino = "ino\<lparr>i_atime := now e 0 mod 2 ^ 32\<rparr>"
  let ?im = "put_inode (junk e 3) im i (Some ?ino)"
  obtain buf where "read_blocks e im ino = Some buf" "map buf [0..<i_size ino] = file_bytes im ino"
    using read_blocks_bytes [OF inv at] by blast
  moreover have "inode_wf ?ino" using inode_at_wf [OF at] by (simp add: inode_wf_def)
  note inode_only [OF inv at this _ _ _ refl, where m = "junk e 3", simplified]
  ultimately show ?thesis
    using at fs_inv_ok [OF inv] by (auto simp: read_file_def get_inode_eq)
qed

lemma read_file_none: "bm_ok im \<Longrightarrow> inode_at im i = None \<Longrightarrow> read_file e im i = Some (im, None)"
  by (simp add: read_file_def get_inode_eq)

end
