(* ===== verification/File_Write.thy ===== *)
theory File_Write
  imports File_Read
begin

text \<open>
  \<open>write_file\<close>: for every size that fits into the direct blocks the file's contents become
  exactly the given bytes, every other file keeps its contents, the invariant is kept and
  exactly the blocks the file does not own any more become free. For larger sizes the
  theory computes what is stored instead.
\<close>

lemma need_blocks_eq:
  assumes "0 \<le> sz" and "sz < 2 ^ 31"
  shows "need_blocks sz = block_count (nat sz)"
proof -
  obtain n where n: "sz = int n" "n < 2 ^ 31" using assms by (metis zero_le_imp_eq_int of_nat_less_iff of_nat_numeral of_nat_power)
  have q: "c_div (int n) (int BLOCK_SIZE) = int (n div BLOCK_SIZE)"
    by (cases "n = 0") (simp_all add: c_div_def sgn_if zdiv_int)
  have r: "(int n - int (n div BLOCK_SIZE) * int BLOCK_SIZE = 0) = (n mod BLOCK_SIZE = 0)"
    by (metis (no_types) eq_iff_diff_eq_0 of_nat_eq_iff of_nat_mult minus_div_mult_eq_mod
        div_mult_mod_eq add.right_neutral of_nat_add add_diff_cancel_left')
  have "block_count n \<le> 2 ^ 17"
    using n(2) by (simp add: block_count_le_iff BLOCK_SIZE_eq)
  then have small: "int (block_count n) mod 2 ^ 32 = int (block_count n)" by simp
  have "need_blocks sz = nat (int (block_count n) mod 2 ^ 32)"
    unfolding n(1) need_blocks_def Let_def q r block_count_def by (simp add: add.commute)
  then show ?thesis by (simp only: small) (simp add: n)
qed

section \<open>The shared end of the cases\<close>

text \<open>
  Before the data is written, \<open>bm\<close> is the state with the bitmap already adjusted, and \<open>bs\<close>
  the file's block array. The file then owns the first \<open>n\<close> entries.
\<close>

lemma finish_write_put:
  "0 \<le> sz \<Longrightarrow> sz < 2 ^ 31 \<Longrightarrow> finish_write e i ino sz bm =
     put_inode (junk e 1) bm i (Some (ino\<lparr>i_size := nat sz, i_ctime := now e 0 mod 2 ^ 32,
       i_mtime := now e 1 mod 2 ^ 32\<rparr>))"
  by (simp add: finish_write_def)

lemma finish_write_wf:
  "inode_wf ino \<Longrightarrow> length bs = NDIRECT + 1 \<Longrightarrow> \<forall>b \<in> set bs. b < 2 ^ 32 \<Longrightarrow> n < 2 ^ 31 \<Longrightarrow>
     inode_wf (ino\<lparr>i_blocks := bs, i_size := n, i_ctime := c mod 2 ^ 32, i_mtime := m mod 2 ^ 32\<rparr>)"
  by (simp add: inode_wf_def)

lemma write_direct_used:
  assumes "n \<le> length bs" and "set (take n bs) \<subseteq> data_range" and "b \<in> data_range"
  shows "bm_used (fst (write_direct bs buf n bm)) b = bm_used bm b"
proof -
  have "2 \<notin> set (take n bs)" using assms(2) data_range_bounds(1) by blast
  then show ?thesis
    using data_range_bounds(3) [OF assms(3)] write_direct_other [OF assms(1)] by (simp add: bm_used_small)
qed

lemma write_small_end:
  assumes inv: "fs_inv im" and at: "inode_at im i = Some ino"
    and bm: "bm_ok bm" "\<And>b. b \<noteq> 2 \<Longrightarrow> bm_blocks bm b = bm_blocks im b"
      "bits_for im i (set (take n bs)) bm"
    and bs: "length bs = NDIRECT + 1" "\<forall>b \<in> set bs. b < 2 ^ 32" "distinct (take n bs)"
      "set (take n bs) \<subseteq> set (own im i) \<union> bm_free im"
    and sz: "0 \<le> sz" "sz < 2 ^ 31" "n = block_count (nat sz)" "n \<le> NDIRECT"
  shows "written im i (i_type ino) (map buf [0..<nat sz])
    (finish_write e i (ino\<lparr>i_blocks := bs\<rparr>) sz (fst (write_direct bs buf n bm)))"
proof -
  let ?bm1 = "fst (write_direct bs buf n bm)"
  let ?ino = "ino\<lparr>i_blocks := bs, i_size := nat sz, i_ctime := now e 0 mod 2 ^ 32, i_mtime := now e 1 mod 2 ^ 32\<rparr>"
  have i: "i < INODE_NUM" "i_type ?ino \<noteq> 0" "inode_wf ?ino"
    using inode_at_wf [OF at] finish_write_wf [OF _ bs(1,2)] sz(1,2) by (simp_all add: nat_less_iff)
  have range: "set (take n bs) \<subseteq> data_range"
    using bs(4) fs_inv_own(2) [OF inv] bm_free_data by blast
  have len: "n \<le> length bs" using sz(4) bs(1) by simp
  have ok1: "bm_ok ?bm1" using bm(1) by (simp add: bm_ok_def)
  have frame: "bm_blocks ?bm1 b = bm_blocks im b" if "b \<notin> insert 2 (set (take n bs))" for b
    using that write_direct_other [OF len] bm(2) by simp
  have bits: "bits_for im i (set (take n bs)) ?bm1"
    using bm(3) write_direct_used [OF len range] by (simp add: bits_for_def)
  have own: "own_blocks ?bm1 ?ino = take n bs"
    using sz by (simp add: own_blocks_def data_blocks_def)
  have count: "block_count (i_size ?ino) \<le> MAXFILE" using sz by (simp add: MAXFILE_def)
  have "set (take n bs) \<subseteq> {..<BLOCK_NUM}" using range data_range_bounds(2) by blast
  then have "bm_blocks ?bm1 (bs ! (k div BLOCK_SIZE)) (k mod BLOCK_SIZE) = buf k" if "k < nat sz" for k
    using write_direct_same [OF len bs(3), of "k div BLOCK_SIZE" "k mod BLOCK_SIZE" buf bm]
      block_index_less [OF that] sz(3) by simp
  then have "file_bytes ?bm1 ?ino = map buf [0..<nat sz]"
    using sz block_index_less by (simp add: file_bytes_def data_blocks_def)
  then show ?thesis
    using commit_file(1) [OF inv i(1) ok1 frame bits bs(3,4) i(3,2) count own refl, of "junk e 1"]
    by (simp add: finish_write_put [OF sz(1,2)])
qed

section \<open>Sizes within the direct blocks\<close>

lemma set_take_image: "n \<le> length xs \<Longrightarrow> set (take n xs) = (!) xs ` {0..<n}"
  by (simp add: nth_image)

lemma distinct_take_iff: "n \<le> length xs \<Longrightarrow> distinct (take n xs) = inj_on ((!) xs) {0..<n}"
  by (auto simp: distinct_conv_nth inj_on_def) metis

lemma image_upt_split: "a \<le> b \<Longrightarrow> f ` {0..<b} = f ` {0..<a} \<union> f ` {a..<b::nat}"
  by (simp add: image_Un [symmetric] ivl_disj_un_two(3))

lemma take_data_blocks:
  "length (i_blocks ino) = NDIRECT + 1 \<Longrightarrow> n \<le> NDIRECT \<Longrightarrow> n \<le> block_count (i_size ino) \<Longrightarrow>
     take n (data_blocks im ino) = take n (i_blocks ino)"
  by (simp add: data_blocks_def Let_def min_def)

lemma own_direct:
  "inode_at im i = Some ino \<Longrightarrow> block_count (i_size ino) \<le> NDIRECT \<Longrightarrow>
     own im i = take (block_count (i_size ino)) (i_blocks ino)"
  by (simp add: own_def own_blocks_def data_blocks_def)

text \<open>The block array after new ids were put into the slots from \<open>lo\<close> to \<open>hi\<close>.\<close>

lemma alloc_direct_array:
  assumes run: "alloc_direct e lo hi (im, i_blocks ino) = (bm, bs)"
    and inv: "fs_inv im" and at: "inode_at im i = Some ino" and n: "block_count (i_size ino) = lo"
    and le: "lo \<le> hi" "hi \<le> NDIRECT" and free: "hi - lo \<le> card (bm_free im)"
  shows "bm_ok bm" and "\<And>b. b \<noteq> 2 \<Longrightarrow> bm_blocks bm b = bm_blocks im b"
    and "bits_for im i (set (take hi bs)) bm" and "length bs = NDIRECT + 1"
    and "\<forall>b \<in> set bs. b < 2 ^ 32" and "distinct (take hi bs)"
    and "set (take hi bs) \<subseteq> set (own im i) \<union> bm_free im" and "bm_free bm = bm_free im - set (take hi bs)"
proof -
  have len: "length (i_blocks ino) = NDIRECT + 1" by (rule inode_at_blocks [OF at])
  note r = alloc_direct_run [OF run fs_inv_ok [OF inv] free, unfolded len]
  have hi: "hi \<le> NDIRECT + 1" using le(2) by simp
  have low: "bs ! k = i_blocks ino ! k" if "k < lo" for k using r(3) [OF hi, of k] that by simp
  have own: "own im i = take lo (i_blocks ino)" using own_direct [OF at] n le by simp
  then have own_img: "set (own im i) = (!) bs ` {0..<lo}"
    using len le low by (simp add: set_take_image)
  have new: "(!) bs ` {lo..<hi} \<subseteq> bm_free im" by (rule r(5) [OF hi])
  have set: "set (take hi bs) = set (own im i) \<union> (!) bs ` {lo..<hi}"
    using le r(2) [OF hi] own_img image_upt_split [OF le(1), of "(!) bs"] by (simp add: set_take_image)
  have "inj_on ((!) bs) {0..<lo}"
    using fs_inv_own(1) [OF inv, of i] le len low unfolding own
    by (subst inj_on_cong [of _ _ "(!) (i_blocks ino)"]) (simp_all add: distinct_take_iff)
  moreover have "(!) bs ` {0..<lo} \<inter> (!) bs ` {lo..<hi} = {}"
    using new fs_inv_own(3) [OF inv, of _ i] bm_free_data unfolding own_img [symmetric] by blast
  ultimately have "inj_on ((!) bs) ({0..<lo} \<union> {lo..<hi})"
    using r(4) [OF hi] by (subst inj_on_Un) (simp add: Diff_triv ivl_disj_int_two)
  then show "distinct (take hi bs)"
    using le r(2) [OF hi] by (simp add: distinct_take_iff ivl_disj_un_two(3))
  show "set (take hi bs) \<subseteq> set (own im i) \<union> bm_free im" using set new by blast
  show "bits_for im i (set (take hi bs)) bm"
    using r(7) [OF hi] fs_inv_own(3) [OF inv, of _ i] unfolding bits_for_def set by blast
  show "bm_free bm = bm_free im - set (take hi bs)"
    using r(6) [OF hi] fs_inv_own(3) [OF inv, of _ i] bm_free_data unfolding set by blast
  show "\<forall>b \<in> set bs. b < 2 ^ 32"
  proof
    fix b assume "b \<in> set bs"
    then obtain k where k: "k < length bs" "b = bs ! k" by (auto simp: in_set_conv_nth)
    show "b < 2 ^ 32"
    proof (cases "k \<in> {lo..<hi}")
      case True
      then have "b \<in> bm_free im" using new k(2) by blast
      then show ?thesis by (simp add: bm_free_def layout_defs)
    next
      case False
      then show ?thesis
        using k r(2,3) [OF hi] inode_at_wf [OF at] len by (simp add: inode_wf_def)
    qed
  qed
  show "bm_ok bm" "length bs = NDIRECT + 1" using r(1,2) [OF hi] by simp_all
  show "\<And>b. b \<noteq> 2 \<Longrightarrow> bm_blocks bm b = bm_blocks im b" using r(8) [OF hi] by simp
qed

lemma write_case1_1_ok:
  assumes inv: "fs_inv im" and at: "inode_at im i = Some ino"
    and sz: "0 \<le> sz" "sz < 2 ^ 31" and n: "n = block_count (nat sz)" "n \<le> NDIRECT"
    and o': "block_count (i_size ino) = o'" "o' < n" and free: "n - o' \<le> card (bm_free im)"
  shows "written im i (i_type ino) (map buf [0..<nat sz]) (write_case1_1 e im i ino buf sz n o')"
proof -
  obtain bm bs where run: "alloc_direct e o' n (im, i_blocks ino) = (bm, bs)" by (meson surj_pair)
  note a = alloc_direct_array [OF run inv at o'(1) less_imp_le [OF o'(2)] n(2) free]
  show ?thesis
    using write_small_end [OF inv at a(1-3) a(4-7) sz n] run
    by (simp add: write_case1_1_def case_prod_beta)
qed

lemma write_no_alloc_ok:
  assumes inv: "fs_inv im" and at: "inode_at im i = Some ino"
    and sz: "0 \<le> sz" "sz < 2 ^ 31" and n: "n = block_count (nat sz)" "n \<le> NDIRECT"
    and o': "n \<le> block_count (i_size ino)"
    and bm: "bm_ok bm" "\<And>b. b \<noteq> 2 \<Longrightarrow> bm_blocks bm b = bm_blocks im b"
      "bits_for im i (set (take n (i_blocks ino))) bm"
  shows "written im i (i_type ino) (map buf [0..<nat sz])
    (finish_write e i ino sz (fst (write_direct (i_blocks ino) buf n bm)))"
proof -
  let ?bs = "i_blocks ino"
  have len: "length ?bs = NDIRECT + 1" by (rule inode_at_blocks [OF at])
  obtain m where m: "data_blocks im ino = take n ?bs @ m"
    using take_data_blocks [OF len n(2) o', of im] by (metis append_take_drop_id)
  have d: "distinct (take n ?bs)" "set (take n ?bs) \<subseteq> set (own im i)"
    using fs_inv_own(1) [OF inv, of i] by (auto simp: own_Some [OF at] own_blocks_def m split: if_splits)
  then have sub: "set (take n ?bs) \<subseteq> set (own im i) \<union> bm_free im" by blast
  have wf: "\<forall>b \<in> set ?bs. b < 2 ^ 32" using inode_at_wf [OF at] by (simp add: inode_wf_def)
  have eq: "ino\<lparr>i_blocks := i_blocks ino\<rparr> = ino" by simp
  show ?thesis
    using write_small_end [OF inv at bm len wf d(1) sub sz n] unfolding eq .
qed

lemma write_case1_2_ok:
  assumes inv: "fs_inv im" and at: "inode_at im i = Some ino"
    and sz: "0 \<le> sz" "sz < 2 ^ 31" and n: "n = block_count (nat sz)" "n \<le> NDIRECT"
    and o': "block_count (i_size ino) = n"
  shows "written im i (i_type ino) (map buf [0..<nat sz]) (write_case1_2 e im i ino buf sz n)"
proof -
  have "bits_for im i (set (take n (i_blocks ino))) im"
    using fs_inv_own(3) [OF inv, of _ i] own_direct [OF at] o' n(2) by (auto simp: bits_for_def)
  then show ?thesis
    using write_no_alloc_ok [OF inv at sz n _ fs_inv_ok [OF inv] refl] o'
    by (simp add: write_case1_2_def case_prod_beta)
qed

lemma bits_for_free:
  assumes inv: "fs_inv im" and own: "set (own im i) = T \<union> F" and disj: "T \<inter> F = {}"
    and used: "\<And>b. bm_used bm b = (b \<notin> F \<and> bm_used im b)"
  shows "bits_for im i T bm"
proof -
  have "bm_used im b" if "b \<in> T" for b
    using that own by (intro fs_inv_own(3) [OF inv, of _ i]) simp
  then show ?thesis
    using disj unfolding bits_for_def own used by auto
qed

lemma write_case1_3_ok:
  assumes inv: "fs_inv im" and at: "inode_at im i = Some ino"
    and sz: "0 \<le> sz" "sz < 2 ^ 31" and n: "n = block_count (nat sz)" "n \<le> NDIRECT"
    and o': "block_count (i_size ino) = o'" "n < o'" "o' \<le> NDIRECT"
  shows "written im i (i_type ino) (map buf [0..<nat sz]) (write_case1_3 e im i ino buf sz n o')"
proof -
  let ?bs = "i_blocks ino" and ?bm = "free_direct e (i_blocks ino) n o' im"
  have len: "length ?bs = NDIRECT + 1" by (rule inode_at_blocks [OF at])
  have own: "own im i = take o' ?bs" using own_direct [OF at] o' by simp
  have split: "set (own im i) = (!) ?bs ` {0..<n} \<union> (!) ?bs ` {n..<o'}"
    using o' len image_upt_split [of n o' "(!) ?bs"] by (simp add: own set_take_image)
  have range: "\<forall>k \<in> set [n..<o']. ?bs ! k \<in> data_range"
    using split fs_inv_own(2) [OF inv, of _ i] by auto
  note f = free_fold_run [OF range, where m = "\<lambda>k. junk e (10 + k)" and bm = im, folded free_direct_def]
  have "inj_on ((!) ?bs) {0..<o'}"
    using fs_inv_own(1) [OF inv, of i] o' len by (simp add: own distinct_take_iff)
  then have "(!) ?bs ` {0..<n} \<inter> (!) ?bs ` {n..<o'} = {}"
    using inj_on_image_Int [of "(!) ?bs" "{0..<o'}" "{0..<n}" "{n..<o'}"] o'(2) by simp
  moreover have "set (take n ?bs) = (!) ?bs ` {0..<n}"
    using n(2) len by (simp add: set_take_image)
  ultimately have "bits_for im i (set (take n ?bs)) ?bm"
    using f(3) split by (intro bits_for_free [OF inv, where F = "(!) ?bs ` {n..<o'}"]) simp_all
  moreover have "bm_ok ?bm" using f(1) fs_inv_ok [OF inv] by (simp add: bm_ok_def)
  ultimately show ?thesis
    using write_no_alloc_ok [OF inv at sz n less_imp_le, of ?bm buf e] o' f(2)
    by (simp add: write_case1_3_def case_prod_beta)
qed

lemma own_indirect:
  assumes "inode_at im i = Some ino" and "NDIRECT < block_count (i_size ino)"
  shows "own im i = i_blocks ino ! NDIRECT # take NDIRECT (i_blocks ino)
    @ ids_at (bm_blocks im (i_blocks ino ! NDIRECT)) (block_count (i_size ino) - NDIRECT)"
  using assms by (simp add: own_def own_blocks_def data_blocks_def)

lemma read_ids:
  assumes "b \<in> data_range" and "n \<le> NINDIRECT"
  shows "ids_at (bm_read_block im b m) n = ids_at (bm_blocks im b) n"
  using assms by (auto simp: ids_at_def read_indirect_ids)

lemma set_ids_at: "set (ids_at ids n) = (\<lambda>k. get_u32 ids (4 * k)) ` {0..<n}"
  by (simp add: ids_at_def)

lemma write_case1_4_ok:
  assumes inv: "fs_inv im" and at: "inode_at im i = Some ino"
    and sz: "0 \<le> sz" "sz < 2 ^ 31" and n: "n = block_count (nat sz)" "n \<le> NDIRECT"
    and o': "block_count (i_size ino) = o'" "NDIRECT < o'"
  shows "\<exists>im'. write_case1_4 e im i ino buf sz n o' = Some im'
    \<and> written im i (i_type ino) (map buf [0..<nat sz]) im'"
proof -
  let ?bs = "i_blocks ino" and ?ids = "bm_read_block im (i_blocks ino ! NDIRECT) (junk e 2)"
  have len: "length ?bs = NDIRECT + 1" by (rule inode_at_blocks [OF at])
  have m: "o' - NDIRECT \<le> NINDIRECT" using fs_inv_count [OF inv at] o'(1) by (simp add: MAXFILE_def)
  have ind: "?bs ! NDIRECT \<in> data_range" using fs_inv_data(2) [OF inv at] o' by simp
  have own: "own im i = ?bs ! NDIRECT # take NDIRECT ?bs @ ids_at ?ids (o' - NDIRECT)"
    using own_indirect [OF at] o' read_ids [OF ind m] by simp
  let ?B = "(!) ?bs ` {n..<NDIRECT + 1}" and ?C = "set (ids_at ?ids (o' - NDIRECT))"
  have tk: "set (take NDIRECT ?bs) = set (take n ?bs) \<union> (!) ?bs ` {n..<NDIRECT}"
    using n(2) len image_upt_split [OF n(2), of "(!) ?bs"] by (simp add: set_take_image)
  have B: "?B = insert (?bs ! NDIRECT) ((!) ?bs ` {n..<NDIRECT})"
    using n(2) by (simp add: atLeastLessThanSuc)
  have split: "set (own im i) = set (take n ?bs) \<union> ?B \<union> ?C"
    unfolding own B using tk by auto
  have "distinct (own im i)" by (rule fs_inv_own(1) [OF inv])
  then have "distinct (take NDIRECT ?bs)" "?bs ! NDIRECT \<notin> set (take NDIRECT ?bs)"
    "set (take NDIRECT ?bs) \<inter> ?C = {}"
    by (auto simp: own)
  moreover have "inj_on ((!) ?bs) {0..<NDIRECT}"
    using calculation(1) len by (simp add: distinct_take_iff)
  then have "set (take n ?bs) \<inter> (!) ?bs ` {n..<NDIRECT} = {}"
    using inj_on_image_Int [of "(!) ?bs" "{0..<NDIRECT}" "{0..<n}" "{n..<NDIRECT}"] n(2) len
    by (simp add: set_take_image)
  ultimately have disj: "set (take n ?bs) \<inter> (?B \<union> ?C) = {}"
    unfolding B using tk by auto
  have range: "\<forall>b \<in> ?B \<union> ?C. b \<in> data_range"
    using split fs_inv_own(2) [OF inv, of _ i] by auto
  let ?bm1 = "fold (\<lambda>k. free_block (junk e (200 + k)) (get_u32 ?ids (4 * k))) [0..<o' - NDIRECT] im"
  let ?bm2 = "free_direct e ?bs n (NDIRECT + 1) ?bm1"
  have "\<forall>k \<in> set [0..<o' - NDIRECT]. get_u32 ?ids (4 * k) \<in> data_range"
    using range by (simp add: set_ids_at)
  note f1 = free_fold_run [OF this, where m = "\<lambda>k. junk e (200 + k)" and bm = im]
  have "\<forall>k \<in> set [n..<NDIRECT + 1]. ?bs ! k \<in> data_range" using range by (simp del: upt_Suc)
  note f2 = free_fold_run [OF this, where m = "\<lambda>k. junk e (10 + k)" and bm = ?bm1, folded free_direct_def]
  have "bm_used ?bm2 b = (b \<notin> ?B \<union> ?C \<and> bm_used im b)" for b
    using f2(3) [of b] f1(3) [of b] by (auto simp: set_ids_at simp del: upt_Suc)
  then have "bits_for im i (set (take n ?bs)) ?bm2"
    using disj split by (intro bits_for_free [OF inv, where F = "?B \<union> ?C"]) (simp_all only: Un_assoc)
  moreover have "bm_ok ?bm2" using f1(1) f2(1) fs_inv_ok [OF inv] by (simp add: bm_ok_def)
  moreover have "bm_blocks ?bm2 b = bm_blocks im b" if "b \<noteq> 2" for b
    using that f1(2) f2(2) by simp
  ultimately have "written im i (i_type ino) (map buf [0..<nat sz])
      (finish_write e i ino sz (fst (write_direct ?bs buf n ?bm2)))"
    using write_no_alloc_ok [OF inv at sz n, of ?bm2] o' n(2) by simp
  then show ?thesis
    using len m by (simp add: write_case1_4_def case_prod_beta free_indirect_fold)
qed

theorem write_file_small:
  assumes inv: "fs_inv im" and at: "inode_at im i = Some ino"
    and sz: "0 \<le> sz" "block_count (nat sz) \<le> NDIRECT"
    and free: "block_count (nat sz) - block_count (i_size ino) \<le> card (bm_free im)"
  shows "\<exists>im'. write_file e im i buf sz = Some im'
    \<and> written im i (i_type ino) (map buf [0..<nat sz]) im'"
proof -
  have "nat sz \<le> NDIRECT * BLOCK_SIZE" using sz(2) by (simp add: block_count_le_iff)
  then have s31: "sz < 2 ^ 31" by (simp add: NDIRECT_facts BLOCK_SIZE_eq)
  note need = need_blocks_eq [OF sz(1) s31]
  let ?n = "block_count (nat sz)" and ?o = "block_count (i_size ino)"
  have max: "\<not> MAXFILE < ?n" using sz(2) by (simp add: MAXFILE_def)
  note wf = write_file_def get_inode_eq [OF fs_inv_ok [OF inv]] at need Let_def
  consider "?o < ?n" | "?o = ?n" | "?n < ?o" "?o \<le> NDIRECT" | "?n < ?o" "NDIRECT < ?o" by linarith
  then show ?thesis
  proof cases
    case 1
    then show ?thesis
      using write_case1_1_ok [OF inv at sz(1) s31 refl sz(2) refl _ free] sz(2) max by (simp add: wf)
  next
    case 2
    then show ?thesis
      using write_case1_2_ok [OF inv at sz(1) s31 refl sz(2) 2] sz(2) max by (simp add: wf)
  next
    case 3
    then show ?thesis
      using write_case1_3_ok [OF inv at sz(1) s31 refl sz(2) refl] sz(2) max by (simp add: wf)
  next
    case 4
    then show ?thesis
      using write_case1_4_ok [OF inv at sz(1) s31 refl sz(2) refl] sz(2) max by (simp add: wf)
  qed
qed

end
