(* ===== verification/File_Large.thy ===== *)
theory File_Large
  imports File_Write
begin

text \<open>
  \<open>write_file\<close> for sizes that need the indirect block. The loop that writes the indirect
  blocks zeroes \<open>target_inode->blocks[i]\<close> before it writes \<open>indirect_blockid[i]\<close>, so
  it wipes direct blocks that were just written, and for more than \<open>NDIRECT + 1\<close> indirect
  blocks it reads behind the end of the array. \<open>large_bytes\<close> is what such a file holds.
\<close>

definition large_bytes :: "buffer \<Rightarrow> nat \<Rightarrow> byte list" where
  "large_bytes buf n =
     map (\<lambda>k. if k div BLOCK_SIZE < min NDIRECT (block_count n - NDIRECT) then 0 else buf k) [0..<n]"

text \<open>
  The state after the data and the indirect block are on disk, for a file with block array
  \<open>bs\<close> and \<open>m\<close> indirect ids in \<open>ids\<close>.
\<close>

abbreviation large_blocks :: "nat list \<Rightarrow> buffer \<Rightarrow> nat \<Rightarrow> nat list" where
  "large_blocks bs ids m \<equiv> bs ! NDIRECT # take NDIRECT bs @ ids_at ids m"

lemma set_blocks: "length bs = NDIRECT + 1 \<Longrightarrow> set bs = insert (bs ! NDIRECT) (set (take NDIRECT bs))"
  using arg_cong [OF take_Suc_conv_app_nth [of NDIRECT bs], of set] by simp

lemma large_writes:
  assumes bs: "length bs = NDIRECT + 1" "distinct (large_blocks bs ids m)"
      "set (large_blocks bs ids m) \<subseteq> {..<BLOCK_NUM}" and m: "m \<le> NDIRECT + 1"
    and run: "write_indirect bs ids buf m (write_direct bs buf NDIRECT bm) = Some (bm2, off)"
    and bm3: "bm3 = bm_write_block bm2 (bs ! NDIRECT) ids"
  shows "bm_sb bm3 = bm_sb bm" and "b \<notin> set (large_blocks bs ids m) \<Longrightarrow> bm_blocks bm3 b = bm_blocks bm b"
    and "ids_at (bm_blocks bm3 (bs ! NDIRECT)) m = ids_at ids m"
    and "q < NDIRECT \<Longrightarrow> k < BLOCK_SIZE \<Longrightarrow>
      bm_blocks bm3 (bs ! q) k = (if q < m then 0 else buf (q * BLOCK_SIZE + k))"
    and "q < m \<Longrightarrow> k < BLOCK_SIZE \<Longrightarrow>
      bm_blocks bm3 (get_u32 ids (4 * q)) k = buf ((NDIRECT + q) * BLOCK_SIZE + k)"
proof -
  let ?bm1 = "fst (write_direct bs buf NDIRECT bm)" and ?x = "bs ! NDIRECT"
  have m': "m \<le> NINDIRECT" "m \<le> length bs" "NDIRECT \<le> length bs" using m bs(1) by (simp_all add: NDIRECT_facts)
  have tm: "set (take m bs) \<subseteq> insert ?x (set (take NDIRECT bs))"
    using set_blocks [OF bs(1)] set_take_subset [of m bs] by simp
  have run': "write_indirect bs ids buf m (?bm1, NDIRECT * BLOCK_SIZE) = Some (bm2, off)"
    using run write_direct_off [of bs buf NDIRECT bm] by (metis prod.collapse)
  have r: "bm_sb bm2 = bm_sb ?bm1"
    and r_other: "\<And>c. c \<notin> set (take m bs) \<union> set (ids_at ids m) \<Longrightarrow> bm_blocks bm2 c = bm_blocks ?bm1 c"
    using write_indirect_run [OF m'(2,1), of ids buf ?bm1 "NDIRECT * BLOCK_SIZE"] run' by auto
  have to2: "bm_blocks bm3 c = bm_blocks bm2 c" if "c \<noteq> ?x" for c using that by (simp add: bm3 bm.wr_other)
  show "bm_sb bm3 = bm_sb bm" using r by (simp add: bm3)
  show "bm_blocks bm3 b = bm_blocks bm b" if "b \<notin> set (large_blocks bs ids m)"
  proof -
    have "bm_blocks bm3 b = bm_blocks bm2 b" using that by (intro to2) simp
    also have "\<dots> = bm_blocks ?bm1 b" using that tm by (intro r_other) auto
    also have "\<dots> = bm_blocks bm b" using that m'(3) by (simp add: write_direct_other)
    finally show ?thesis .
  qed
  have "4 * m \<le> BLOCK_SIZE" using m'(1) by (simp add: NDIRECT_facts BLOCK_SIZE_eq)
  then show "ids_at (bm_blocks bm3 ?x) m = ids_at ids m"
    using bs(3) by (intro ids_at_cong) (simp add: bm3 bm.wr_same)
  have dd: "distinct (take NDIRECT bs)" "distinct (ids_at ids m)"
    "set (take NDIRECT bs) \<inter> set (ids_at ids m) = {}" "?x \<notin> set (take NDIRECT bs)" "?x \<notin> set (ids_at ids m)"
    using bs(2) by auto
  have sub: "set (take m bs) \<inter> set (ids_at ids m) = {}"
    "set (take m bs) \<union> set (ids_at ids m) \<subseteq> {..<BLOCK_NUM}" "set (take NDIRECT bs) \<subseteq> {..<BLOCK_NUM}"
    using bs(3) tm dd(3,5) by auto
  note wi = write_indirect_content [OF m'(2,1) run' dd(2) sub(1,2)]
  show "bm_blocks bm3 (get_u32 ids (4 * q)) k = buf ((NDIRECT + q) * BLOCK_SIZE + k)"
    if "q < m" "k < BLOCK_SIZE"
  proof -
    have "get_u32 ids (4 * q) \<in> set (ids_at ids m)" using that(1) by (simp add: set_ids_at)
    then have "get_u32 ids (4 * q) \<noteq> ?x" using dd(5) by metis
    then show ?thesis using to2 wi(2) [OF that(2,1)] by (simp add: add_mult_distrib)
  qed
  show "bm_blocks bm3 (bs ! q) k = (if q < m then 0 else buf (q * BLOCK_SIZE + k))"
    if "q < NDIRECT" "k < BLOCK_SIZE"
  proof -
    have inq: "bs ! q \<in> set (take NDIRECT bs)" using that(1) m'(3) by (auto simp: in_set_conv_nth)
    then have ne: "bs ! q \<noteq> ?x" "bs ! q \<notin> set (ids_at ids m)" using dd(3,4) by (metis, blast)
    show ?thesis
    proof (cases "q < m")
      case True
      then have "bs ! q \<in> set (take m bs)" using m'(2) by (auto simp: in_set_conv_nth)
      with True show ?thesis using to2 [OF ne(1)] wi(1) [OF that(2)] by simp
    next
      case False
      have "inj_on ((!) bs) {0..<NDIRECT}" using dd(1) m'(3) by (simp add: distinct_take_iff)
      then have "bs ! q \<noteq> bs ! y" if "y < m" for y
        using inj_onD [of "(!) bs" "{0..<NDIRECT}" q y] False \<open>q < NDIRECT\<close> that by auto
      then have "bs ! q \<notin> set (take m bs)" 
        unfolding set_take_image [OF m'(2)] by (metis atLeastLessThan_iff imageE)
      then have "bm_blocks bm2 (bs ! q) = bm_blocks ?bm1 (bs ! q)" using ne(2) by (intro r_other) simp
      with False show ?thesis
        using to2 [OF ne(1)] write_direct_same [OF m'(3) dd(1) sub(3) that, of buf bm] by simp
    qed
  qed
qed

lemma write_large_end:
  assumes inv: "fs_inv im" and at: "inode_at im i = Some ino"
    and bm: "bm_ok bm" "\<And>b. b \<noteq> 2 \<Longrightarrow> bm_blocks bm b = bm_blocks im b"
      "bits_for im i (set (large_blocks bs ids m)) bm"
    and bs: "length bs = NDIRECT + 1" "\<forall>b \<in> set bs. b < 2 ^ 32" "distinct (large_blocks bs ids m)"
      "set (large_blocks bs ids m) \<subseteq> set (own im i) \<union> bm_free im"
    and sz: "0 \<le> sz" "sz < 2 ^ 31" "block_count (nat sz) = NDIRECT + m" "0 < m" "m \<le> NDIRECT + 1"
  shows "\<exists>bm2 off. write_indirect bs ids buf m (write_direct bs buf NDIRECT bm) = Some (bm2, off)
    \<and> written im i (i_type ino) (large_bytes buf (nat sz))
        (finish_write e i (ino\<lparr>i_blocks := bs\<rparr>) sz (bm_write_block bm2 (bs ! NDIRECT) ids))"
proof -
  have "m \<le> length bs" "m \<le> NINDIRECT" using sz(5) bs(1) by (simp_all add: NDIRECT_facts)
  then obtain bm2 off where run: "write_indirect bs ids buf m (write_direct bs buf NDIRECT bm) = Some (bm2, off)"
    using write_indirect_run by (metis surj_pair)
  let ?B = "large_blocks bs ids m" and ?bm3 = "bm_write_block bm2 (bs ! NDIRECT) ids"
  let ?ino = "ino\<lparr>i_blocks := bs, i_size := nat sz, i_ctime := now e 0 mod 2 ^ 32, i_mtime := now e 1 mod 2 ^ 32\<rparr>"
  have range: "set ?B \<subseteq> data_range" using bs(4) fs_inv_own(2) [OF inv] bm_free_data by blast
  then have "set ?B \<subseteq> {..<BLOCK_NUM}" using data_range_bounds(2) by blast
  note w = large_writes [OF bs(1,3) this sz(5) run refl]
  have i: "i < INODE_NUM" "i_type ?ino \<noteq> 0" "inode_wf ?ino"
    using inode_at_wf [OF at] finish_write_wf [OF _ bs(1,2)] sz(1,2) by (simp_all add: nat_less_iff)
  have ok3: "bm_ok ?bm3" using bm(1) w(1) by (simp add: bm_ok_def)
  have frame: "bm_blocks ?bm3 b = bm_blocks im b" if "b \<notin> insert 2 (set ?B)" for b
    using that w(2) [of b] bm(2) [of b] by simp
  have "2 \<notin> set ?B" using range data_range_bounds(1) by blast
  then have "bm_used ?bm3 b = bm_used bm b" if "b \<in> data_range" for b
    using data_range_bounds(3) [OF that] w(2) [of 2] by (simp add: bm_used_small)
  then have bits: "bits_for im i (set ?B) ?bm3" using bm(3) by (simp add: bits_for_def)
  have db: "data_blocks ?bm3 ?ino = take NDIRECT bs @ ids_at ids m"
    using sz(3,4) w(3) by (simp add: data_blocks_def)
  then have own: "own_blocks ?bm3 ?ino = ?B" using sz(3,4) by (simp add: own_blocks_def)
  have count: "block_count (i_size ?ino) \<le> MAXFILE" using sz by (simp add: NDIRECT_facts)
  have byte: "bm_blocks ?bm3 ((take NDIRECT bs @ ids_at ids m) ! (k div BLOCK_SIZE)) (k mod BLOCK_SIZE)
      = (if k div BLOCK_SIZE < min NDIRECT m then 0 else buf k)" if k: "k < nat sz" for k
  proof -
    let ?q = "k div BLOCK_SIZE"
    have q: "?q < NDIRECT + m" using block_index_less [OF k] sz(3) by simp
    show ?thesis
    proof (cases "?q < NDIRECT")
      case True
      then show ?thesis using w(4) [OF True, of "k mod BLOCK_SIZE"] bs(1) by (simp add: nth_append)
    next
      case False
      then have "(NDIRECT + (?q - NDIRECT)) * BLOCK_SIZE + k mod BLOCK_SIZE = k" by simp
      with False q show ?thesis
        using w(5) [of "?q - NDIRECT" "k mod BLOCK_SIZE"] bs(1) by (simp add: nth_append ids_at_nth)
    qed
  qed
  then have "file_bytes ?bm3 ?ino = large_bytes buf (nat sz)"
    unfolding file_bytes_def large_bytes_def db sz(3) by simp
  then have "written im i (i_type ino) (large_bytes buf (nat sz))
      (finish_write e i (ino\<lparr>i_blocks := bs\<rparr>) sz ?bm3)"
    using commit_file(1) [OF inv i(1) ok3 frame bits bs(3,4) i(3,2) count own refl, of "junk e 1"]
    by (simp add: finish_write_put [OF sz(1,2)])
  then show ?thesis using run by blast
qed

section \<open>The four cases\<close>

lemma take_update_beyond: "take n (xs[n := x]) = take n xs"
  by simp

lemma own_large_blocks:
  assumes inv: "fs_inv im" and at: "inode_at im i = Some ino" and n: "NDIRECT < block_count (i_size ino)"
  shows "own im i = large_blocks (i_blocks ino) (bm_read_block im (i_blocks ino ! NDIRECT) mem)
    (block_count (i_size ino) - NDIRECT)"
  using own_indirect [OF at n] read_ids [OF fs_inv_data(2) [OF inv at n]] fs_inv_count [OF inv at]
  by (simp add: MAXFILE_def)

lemma ids_at_slot: "ids_at ids m = map (slot b ids) [b..<b + m]"
  by (rule nth_equalityI) (simp_all add: ids_at_def slot_def)

lemma write_case2_same_ok:
  assumes inv: "fs_inv im" and at: "inode_at im i = Some ino"
    and bm: "bm_ok bm" "\<And>b. b \<noteq> 2 \<Longrightarrow> bm_blocks bm b = bm_blocks im b"
      "bits_for im i (set (large_blocks (i_blocks ino) ids m)) bm"
    and ids: "distinct (large_blocks (i_blocks ino) ids m)"
      "set (large_blocks (i_blocks ino) ids m) \<subseteq> set (own im i) \<union> bm_free im"
    and sz: "0 \<le> sz" "sz < 2 ^ 31" "block_count (nat sz) = NDIRECT + m" "0 < m" "m \<le> NDIRECT + 1"
  shows "\<exists>bm2 off. write_indirect (i_blocks ino) ids buf m (write_direct (i_blocks ino) buf NDIRECT bm) = Some (bm2, off)
    \<and> written im i (i_type ino) (large_bytes buf (nat sz))
        (finish_write e i ino sz (bm_write_block bm2 (i_blocks ino ! NDIRECT) ids))"
proof -
  have "\<forall>b \<in> set (i_blocks ino). b < 2 ^ 32" using inode_at_wf [OF at] by (simp add: inode_wf_def)
  note write_large_end [OF inv at bm inode_at_blocks [OF at] this ids sz, of buf e]
  then show ?thesis by simp
qed

lemma write_case2_3_ok:
  assumes inv: "fs_inv im" and at: "inode_at im i = Some ino"
    and sz: "0 \<le> sz" "sz < 2 ^ 31" "block_count (nat sz) = NDIRECT + m" "0 < m" "m \<le> NDIRECT + 1"
    and o': "block_count (i_size ino) = NDIRECT + m"
  shows "\<exists>im'. write_case2_3 e im i ino buf sz (NDIRECT + m) = Some im'
    \<and> written im i (i_type ino) (large_bytes buf (nat sz)) im'"
proof -
  let ?ids = "bm_read_block im (i_blocks ino ! NDIRECT) (junk e 2)"
  have own: "own im i = large_blocks (i_blocks ino) ?ids m"
    using own_large_blocks [OF inv at] o' sz(4) by simp
  have "bits_for im i (set (large_blocks (i_blocks ino) ?ids m)) im"
    using bits_for_same [OF inv, of i] own by simp
  moreover have "distinct (large_blocks (i_blocks ino) ?ids m)"
    "set (large_blocks (i_blocks ino) ?ids m) \<subseteq> set (own im i) \<union> bm_free im"
    using fs_inv_own(1) [OF inv, of i] unfolding own by blast+
  ultimately show ?thesis
    using write_case2_same_ok [OF inv at fs_inv_ok [OF inv] refl _ _ _ sz, of ?ids buf e]
    by (auto simp: write_case2_3_def Let_def case_prod_beta)
qed

lemma write_case2_4_ok:
  assumes inv: "fs_inv im" and at: "inode_at im i = Some ino"
    and sz: "0 \<le> sz" "sz < 2 ^ 31" "block_count (nat sz) = NDIRECT + m" "0 < m" "m \<le> NDIRECT + 1"
    and o': "block_count (i_size ino) = NDIRECT + p" "m < p"
  shows "\<exists>im'. write_case2_4 e im i ino buf sz (NDIRECT + m) (NDIRECT + p) = Some im'
    \<and> written im i (i_type ino) (large_bytes buf (nat sz)) im'"
proof -
  let ?bs = "i_blocks ino" and ?ids = "bm_read_block im (i_blocks ino ! NDIRECT) (junk e 2)"
  have own: "own im i = large_blocks ?bs ?ids p"
    using own_large_blocks [OF inv at] o' sz(4) by simp
  let ?F = "(\<lambda>k. get_u32 ?ids (4 * k)) ` {m..<p}"
  have split: "ids_at ?ids p = ids_at ?ids m @ map (\<lambda>k. get_u32 ?ids (4 * k)) [m..<p]"
    using o'(2) upt_add_eq_append [of 0 m "p - m"] by (simp add: ids_at_def)
  have set: "set (own im i) = set (large_blocks ?bs ?ids m) \<union> ?F" unfolding own split by auto
  have dist: "distinct (large_blocks ?bs ?ids m)" "set (large_blocks ?bs ?ids m) \<inter> ?F = {}"
    using fs_inv_own(1) [OF inv, of i] unfolding own split by auto
  have "\<forall>k \<in> set [m..<p]. get_u32 ?ids (4 * k) \<in> data_range"
    using fs_inv_own(2) [OF inv, of _ i] unfolding set by auto
  note f = free_fold_run [OF this, where m = "\<lambda>k. junk e (200 + k)" and bm = im]
  let ?bm = "fold (\<lambda>k. free_block (junk e (200 + k)) (get_u32 ?ids (4 * k))) [m..<p] im"
  have ok: "bm_ok ?bm" using f(1) fs_inv_ok [OF inv] by (simp add: bm_ok_def)
  have bits: "bits_for im i (set (large_blocks ?bs ?ids m)) ?bm"
    using f(3) by (intro bits_for_free [OF inv set dist(2)]) simp
  have sub: "set (large_blocks ?bs ?ids m) \<subseteq> set (own im i) \<union> bm_free im" using set by blast
  have frame: "bm_blocks ?bm b = bm_blocks im b" if "b \<noteq> 2" for b using f(2) that by simp
  have "p \<le> NINDIRECT" using fs_inv_count [OF inv at] o'(1) by (simp add: MAXFILE_def)
  then show ?thesis
    using write_case2_same_ok [OF inv at ok frame bits dist(1) sub sz, of buf e]
    by (auto simp: write_case2_4_def Let_def case_prod_beta free_indirect_fold)
qed

text \<open>Adding fresh blocks to what a file owns.\<close>

lemma bits_for_alloc:
  assumes inv: "fs_inv im" and used: "\<And>b. bm_used bm b = (b \<in> F \<or> bm_used im b)"
    and B: "B = set (own im i) \<union> F"
  shows "bits_for im i B bm"
proof -
  have "bm_used im b" if "b \<in> set (own im i)" for b using that by (rule fs_inv_own(3) [OF inv])
  then show ?thesis unfolding bits_for_def B used by auto
qed

lemma own_not_free: "fs_inv im \<Longrightarrow> set (own im i) \<inter> bm_free im = {}"
  using fs_inv_own(3) [of im _ i] bm_free_data by blast

lemma write_case2_2_ok:
  assumes inv: "fs_inv im" and at: "inode_at im i = Some ino"
    and sz: "0 \<le> sz" "sz < 2 ^ 31" "block_count (nat sz) = NDIRECT + m" "0 < m" "m \<le> NDIRECT + 1"
    and o': "block_count (i_size ino) = NDIRECT + p" "0 < p" "p < m" and free: "m - p \<le> card (bm_free im)"
  shows "\<exists>im'. write_case2_2 e im i ino buf sz (NDIRECT + m) (NDIRECT + p) = Some im'
    \<and> written im i (i_type ino) (large_bytes buf (nat sz)) im'"
proof -
  let ?bs = "i_blocks ino" and ?ids = "bm_read_block im (i_blocks ino ! NDIRECT) (junk e 2)"
  let ?R = "{NDIRECT + p..<NDIRECT + m}"
  have own: "own im i = large_blocks ?bs ?ids p" using own_large_blocks [OF inv at] o' by simp
  obtain bm ids where run: "alloc_indirect e NDIRECT (NDIRECT + p) (NDIRECT + m) (im, ?ids) = (bm, ids)"
    by (meson surj_pair)
  have fr: "NDIRECT + m - (NDIRECT + p) \<le> card (bm_free im)" using free by simp
  note r = alloc_indirect_run [OF run fs_inv_ok [OF inv] fr le_add1]
  let ?F = "slot NDIRECT ids ` ?R"
  have "ids_at ids p = ids_at ?ids p"
    unfolding ids_at_slot [of _ p NDIRECT] using r(2) by auto
  then have split: "ids_at ids m = ids_at ?ids p @ map (slot NDIRECT ids) [NDIRECT + p..<NDIRECT + m]"
    using upt_add_eq_append [of NDIRECT "NDIRECT + p" "m - p"] o'(3)
    by (simp add: ids_at_slot [of _ m NDIRECT] ids_at_slot [of _ p NDIRECT])
  have list: "large_blocks ?bs ids m = own im i @ map (slot NDIRECT ids) [NDIRECT + p..<NDIRECT + m]"
    unfolding own split by simp
  have dist: "distinct (large_blocks ?bs ids m)"
    unfolding list using fs_inv_own(1) [OF inv, of i] r(3,4) own_not_free [OF inv, of i]
    by (auto simp: distinct_map)
  have sub: "set (large_blocks ?bs ids m) \<subseteq> set (own im i) \<union> bm_free im"
    unfolding list using r(4) by auto
  have bits: "bits_for im i (set (large_blocks ?bs ids m)) bm"
    by (rule bits_for_alloc [OF inv r(6)]) (simp only: list set_append set_map set_upt)
  show ?thesis
    using write_case2_same_ok [OF inv at r(1) r(7) bits dist sub sz, of buf e] run
    by (auto simp: write_case2_2_def Let_def case_prod_beta)
qed

lemma card_alloc_direct:
  assumes "alloc_direct e lo hi (bm, bs) = (bm', bs')" and "bm_ok bm"
    and "hi - lo \<le> card (bm_free bm)" and "hi \<le> length bs"
  shows "card (bm_free bm') = card (bm_free bm) - (hi - lo)"
proof -
  note r = alloc_direct_run [OF assms]
  have "finite ((!) bs' ` {lo..<hi})" by simp
  then show ?thesis
    using r(5) card_image [OF r(4)] by (simp add: r(6) card_Diff_subset)
qed

text \<open>Case 2-1: the missing direct blocks, the indirect block, then the indirect blocks.\<close>

lemma alloc_case2_1:
  assumes inv: "fs_inv im" and at: "inode_at im i = Some ino"
    and o': "block_count (i_size ino) = o'" "o' < NDIRECT"
    and free: "NDIRECT + m + 1 - o' \<le> card (bm_free im)"
    and run1: "alloc_direct e o' NDIRECT (im, i_blocks ino) = (bm1, bs1)"
    and run2: "alloc_block (junk e 3) bm1 = (bm2, b)"
    and run3: "alloc_indirect e 0 0 m (bm2, junk e 2) = (bm, ids)"
  defines "bs \<equiv> bs1[NDIRECT := b]"
  shows "bm_ok bm" and "\<And>b. b \<noteq> 2 \<Longrightarrow> bm_blocks bm b = bm_blocks im b"
    and "bits_for im i (set (large_blocks bs ids m)) bm"
    and "length bs = NDIRECT + 1" and "\<forall>b \<in> set bs. b < 2 ^ 32" and "distinct (large_blocks bs ids m)"
    and "set (large_blocks bs ids m) \<subseteq> set (own im i) \<union> bm_free im"
proof -
  have len: "length (i_blocks ino) = NDIRECT + 1" by (rule inode_at_blocks [OF at])
  have f1: "NDIRECT - o' \<le> card (bm_free im)" using free by simp
  note a = alloc_direct_array [OF run1 inv at o'(1) less_imp_le [OF o'(2)] order_refl f1]
  have c1: "m + 1 \<le> card (bm_free bm1)"
    using card_alloc_direct [OF run1 fs_inv_ok [OF inv] f1] len free o'(2) by simp
  then have ne: "bm_free bm1 \<noteq> {}" by auto
  note b = bm_alloc_in_free [OF a(1) ne, of "junk e 3", unfolded run2 fst_conv snd_conv]
  have ok2: "bm_ok bm2" using bm_alloc_frame(1) [OF a(1), of "junk e 3"] a(1) run2 by (simp add: bm_ok_def)
  have c2: "m - 0 \<le> card (bm_free bm2)" using b(1,2) c1 by simp
  note r = alloc_indirect_run [OF run3 ok2 c2 order_refl]
  let ?T = "take NDIRECT bs1"
  have bs: "take NDIRECT bs = ?T" "bs ! NDIRECT = b" using a(4) by (simp_all add: bs_def)
  have ids: "set (ids_at ids m) = slot 0 ids ` {0..<m}" "distinct (ids_at ids m)"
    using r(3) by (simp_all add: ids_at_slot [of ids m 0] distinct_map)
  have idsub: "set (ids_at ids m) \<subseteq> bm_free bm1 - {b}" using r(4) b(2) ids(1) by simp
  have set: "set (large_blocks bs ids m) = insert b (set ?T \<union> set (ids_at ids m))" by (simp add: bs)
  show "bm_ok bm" by (rule r(1))
  show "bm_blocks bm c = bm_blocks im c" if "c \<noteq> 2" for c
    using r(7) [OF that] bm_alloc_frame(2) [OF a(1) that, of "junk e 3"] run2 a(2) [OF that] by simp
  show "length bs = NDIRECT + 1" using a(4) by (simp add: bs_def)
  have b32: "b < 2 ^ 32" using b(1) by (simp add: bm_free_def layout_defs)
  show "\<forall>b \<in> set bs. b < 2 ^ 32"
    using a(5) b32 set_update_subset_insert [of bs1 NDIRECT b] unfolding bs_def by blast
  have free1: "bm_free bm1 = bm_free im - set ?T" by (rule a(8))
  show "set (large_blocks bs ids m) \<subseteq> set (own im i) \<union> bm_free im"
    unfolding set using a(7) b(1) idsub free1 by blast
  have "set ?T \<inter> set (ids_at ids m) = {}" "b \<notin> set ?T" "b \<notin> set (ids_at ids m)"
    using idsub b(1) free1 by blast+
  then show "distinct (large_blocks bs ids m)" unfolding bs using a(6) ids(2) by simp
  have "bm_used bm c = (c \<in> set (ids_at ids m) \<or> c = b \<or> bm_used bm1 c)" for c
    using r(6) [of c] b(3) [of c] ids(1) by simp
  then show "bits_for im i (set (large_blocks bs ids m)) bm"
    using bits_forD [OF a(3)] unfolding bits_for_def set by auto
qed

lemma write_case2_1_ok:
  assumes inv: "fs_inv im" and at: "inode_at im i = Some ino"
    and sz: "0 \<le> sz" "sz < 2 ^ 31" "block_count (nat sz) = NDIRECT + m" "0 < m" "m \<le> NDIRECT + 1"
    and o': "block_count (i_size ino) = o'" "o' < NDIRECT"
    and free: "NDIRECT + m + 1 - o' \<le> card (bm_free im)"
  shows "\<exists>im'. write_case2_1 e im i ino buf sz (NDIRECT + m) o' = Some im'
    \<and> written im i (i_type ino) (large_bytes buf (nat sz)) im'"
proof -
  obtain bm1 bs1 where run1: "alloc_direct e o' NDIRECT (im, i_blocks ino) = (bm1, bs1)" by (meson surj_pair)
  obtain bm2 b where run2: "alloc_block (junk e 3) bm1 = (bm2, b)" by (meson surj_pair)
  obtain bm ids where run3: "alloc_indirect e 0 0 m (bm2, junk e 2) = (bm, ids)" by (meson surj_pair)
  note a = alloc_case2_1 [OF inv at o' free run1 run2 run3]
  show ?thesis
    using write_large_end [OF inv at a sz, of buf e] run1 run2 run3
    by (auto simp: write_case2_1_def Let_def case_prod_beta)
qed

lemma write_file_large_ok:
  assumes inv: "fs_inv im" and at: "inode_at im i = Some ino" and sz: "0 \<le> sz"
    and n: "NDIRECT < block_count (nat sz)" "block_count (nat sz) \<le> 2 * NDIRECT + 1"
    and o': "block_count (i_size ino) \<noteq> NDIRECT"
    and free: "block_count (nat sz) + 1 - block_count (i_size ino) \<le> card (bm_free im)"
  shows "\<exists>im'. write_file e im i buf sz = Some im'
    \<and> written im i (i_type ino) (large_bytes buf (nat sz)) im'"
proof -
  let ?o = "block_count (i_size ino)"
  obtain m where m: "block_count (nat sz) = NDIRECT + m" "0 < m" "m \<le> NDIRECT + 1"
    using n by (intro that [of "block_count (nat sz) - NDIRECT"]) simp_all
  have "nat sz \<le> (2 * NDIRECT + 1) * BLOCK_SIZE" using n(2) by (simp only: block_count_le_iff)
  then have s31: "sz < 2 ^ 31" by (simp add: NDIRECT_facts BLOCK_SIZE_eq)
  have max: "\<not> MAXFILE < NDIRECT + m" using m(3) by (simp add: NDIRECT_facts)
  note wf = write_file_def get_inode_eq [OF fs_inv_ok [OF inv]] at need_blocks_eq [OF sz s31] Let_def m(1)
  note args = inv at sz s31 m
  consider "?o < NDIRECT" | p where "?o = NDIRECT + p" "0 < p" "p < m" | "?o = NDIRECT + m"
    | p where "?o = NDIRECT + p" "m < p"
  proof -
    have "?o < NDIRECT \<or> ?o = NDIRECT + (?o - NDIRECT) \<and> 0 < ?o - NDIRECT" using o' by linarith
    then show ?thesis using that by (metis linorder_neqE_nat)
  qed
  then show ?thesis
  proof cases
    case 1
    then show ?thesis using write_case2_1_ok [OF args refl 1] free max m by (simp add: wf)
  next
    case 2
    then show ?thesis using write_case2_2_ok [OF args 2] free max m by (simp add: wf)
  next
    case 3
    then show ?thesis using write_case2_3_ok [OF args 3] max m by (simp add: wf)
  next
    case 4
    then show ?thesis using write_case2_4_ok [OF args 4] max m by (simp add: wf)
  qed
qed

lemma alloc_direct_length: "length (snd (alloc_direct e lo hi (bm, bs))) = length bs"
proof -
  have "length (snd (fold (\<lambda>i (bm, bs). let (bm', b) = alloc_block (junk e (10 + i)) bm in (bm', bs[i := b]))
      ns (bm, bs))) = length bs" for ns
    by (induction ns arbitrary: bm bs) (simp_all add: case_prod_beta Let_def)
  then show ?thesis by (simp add: alloc_direct_def)
qed


end
