(* ===== verification/File_Create.thy ===== *)
theory File_Create
  imports File_Large
begin

text \<open>
  Making and removing files: \<open>alloc_inode\<close> returns the least free inode number, the
  constructor establishes the invariant, \<open>free_inode\<close> and \<open>remove_file\<close>. The number of
  blocks \<open>remove_file\<close> frees is one less or one more than the file owns; the lemmas say
  exactly which block is left allocated, or freed although it is not the file's.
\<close>

section \<open>Allocating an inode\<close>

lemma alloc_inode_loop_cases:
  assumes ok: "bm_ok im"
  shows "(\<exists>j. i \<le> j \<and> j < INODE_NUM \<and> inode_at im j = None \<and> (\<forall>k. i \<le> k \<and> k < j \<longrightarrow> inode_at im k \<noteq> None)
      \<and> alloc_inode_loop e im ty i = (put_inode (junk e 1) im j (Some (fresh_inode e ty)), j))
    \<or> (\<forall>k. i \<le> k \<and> k < INODE_NUM \<longrightarrow> inode_at im k \<noteq> None) \<and> alloc_inode_loop e im ty i = (im, 0)"
proof (induction "INODE_NUM - i" arbitrary: i)
  case 0
  then show ?case
    using ok by (intro disjI2) (auto simp: alloc_inode_loop.simps [of e im ty i] bm_ok_def)
next
  case (Suc n)
  then have i: "i < sb_ninodes (bm_sb im)" "i < INODE_NUM" using ok by (simp_all add: bm_ok_def)
  note step = alloc_inode_loop.simps [of e im ty i] get_inode_eq [OF ok]
  have le: "i \<le> k \<longleftrightarrow> k = i \<or> i + 1 \<le> k" for k by linarith
  show ?case
  proof (cases "inode_at im i")
    case None
    with i show ?thesis by (intro disjI1 exI [of _ i]) (auto simp: step)
  next
    case (Some ino)
    then have eq: "alloc_inode_loop e im ty i = alloc_inode_loop e im ty (i + 1)" using i by (simp add: step)
    have "n = INODE_NUM - (i + 1)" using Suc.hyps(2) by simp
    from Suc.hyps(1) [OF this] show ?thesis
      unfolding eq le using Some by (auto simp del: Suc_eq_plus1 add_Suc_right)
  qed
qed

lemma fresh_inode_wf: "inode_wf (fresh_inode e ty)"
  using inode_of_bytes_wf [of "junk e 0"] by (simp add: inode_wf_def fresh_inode_def)

lemma fresh_inode_views:
  "i_size (fresh_inode e ty) = 0" "i_type (fresh_inode e ty) = ty mod 2 ^ 16"
  "own_blocks im (fresh_inode e ty) = []" "file_bytes im (fresh_inode e ty) = []"
  by (simp_all add: fresh_inode_def own_blocks_def data_blocks_def file_bytes_def)

lemma alloc_inode_ok:
  assumes inv: "fs_inv im" and ty: "0 < ty" "ty < 2 ^ 16"
  shows "(\<exists>j im'. alloc_inode e im ty = (im', j) \<and> 1 \<le> j \<and> j < INODE_NUM \<and> inode_at im j = None
      \<and> (\<forall>k. 1 \<le> k \<and> k < j \<longrightarrow> inode_at im k \<noteq> None) \<and> written im j ty [] im'
      \<and> inode_at im' j = Some (fresh_inode e ty)
      \<and> (\<forall>b \<in> data_range. bm_used im' b = bm_used im b) \<and> own im' = own im)
    \<or> (\<forall>k. 1 \<le> k \<and> k < INODE_NUM \<longrightarrow> inode_at im k \<noteq> None) \<and> alloc_inode e im ty = (im, 0)"
  using alloc_inode_loop_cases [OF fs_inv_ok [OF inv], of 1 e ty, folded alloc_inode_def]
proof (elim disjE exE conjE)
  fix j
  assume j: "1 \<le> j" "j < INODE_NUM" "inode_at im j = None" "\<forall>k. 1 \<le> k \<and> k < j \<longrightarrow> inode_at im k \<noteq> None"
    and alloc: "alloc_inode e im ty = (put_inode (junk e 1) im j (Some (fresh_inode e ty)), j)"
  let ?new = "fresh_inode e ty" and ?im = "put_inode (junk e 1) im j (Some (fresh_inode e ty))"
  have own: "own im j = []" using j(3) by (simp add: own_def)
  have c: "block_count (i_size ?new) \<le> MAXFILE" "own_blocks im ?new = own im j" "i_type ?new \<noteq> 0" "i_type ?new = ty"
    using ty own by (simp_all add: fresh_inode_views)
  note cm = commit_file [OF inv j(2) fs_inv_ok [OF inv] refl bits_for_same [OF inv]
      fs_inv_own(1) [OF inv] Un_upper1 fresh_inode_wf c(3,1,2) refl, unfolded c(4) fresh_inode_views(4)]
  have "own ?im k = own im k" for k
    using cm(1,3) [where m = "junk e 1"] by (cases "k = j") (simp_all add: written_def)
  then have "own ?im = own im" by blast
  then show ?thesis
    using j alloc cm [where m = "junk e 1"] by (intro disjI1 exI [of _ j] exI [of _ ?im]) simp
qed blast

section \<open>Formatting\<close>

lemma inode_at_new: "inode_at new_block_manager i = None"
  by (simp add: inode_at_def new_block_manager_def new_disk_def inode_of_bytes_def zeros_def get_u16_def)

lemma fs_inv_new: "fs_inv new_block_manager"
  by (simp add: fs_inv_def inode_at_new own_def)

lemma bm_used_new: "\<not> bm_used new_block_manager b"
  by (simp add: bm_used_def bit_of_def new_block_manager_def new_disk_def zeros_def)

lemma abs_fs_new: "abs_fs new_block_manager = Map.empty"
  by (simp add: abs_fs_def inode_at_new fun_eq_iff)

lemma bm_free_data_range: "bm_free im = {b \<in> data_range. \<not> bm_used im b}"
  by (auto simp: bm_free_def data_range_def)

lemma new_inode_manager_ok:
  "\<exists>im. new_inode_manager e = Some im \<and> fs_inv im \<and> abs_fs im = [1 \<mapsto> (T_DIR, [])]
     \<and> bm_free im = data_range \<and> inode_at im 1 = Some (fresh_inode e T_DIR)"
proof -
  have ty: "0 < T_DIR" "T_DIR < 2 ^ 16" by (simp_all add: T_DIR_def)
  have one: "1 < INODE_NUM" by (simp add: INODE_NUM_def)
  obtain j im' where a: "alloc_inode e new_block_manager T_DIR = (im', j)" "1 \<le> j"
      "\<forall>k. 1 \<le> k \<and> k < j \<longrightarrow> inode_at new_block_manager k \<noteq> None" "written new_block_manager j T_DIR [] im'"
      "inode_at im' j = Some (fresh_inode e T_DIR)"
      "\<forall>b \<in> data_range. bm_used im' b = bm_used new_block_manager b"
    using alloc_inode_ok [OF fs_inv_new ty, of e] one inode_at_new by blast
  then have j: "j = 1" using inode_at_new by (metis le_neq_implies_less order_refl)
  have abs: "abs_fs im' = [1 \<mapsto> (T_DIR, [])]" using a(4) by (simp add: written_def abs_fs_new j)
  moreover have "bm_free im' = data_range" using a(6) by (auto simp: bm_free_data_range bm_used_new)
  ultimately show ?thesis
    using a(1,4,5) by (simp add: new_inode_manager_def written_def j)
qed

section \<open>Removing a file\<close>

lemma clear_inode:
  assumes inv: "fs_inv im" and i: "i < INODE_NUM"
    and bm: "bm_ok bm" "\<And>b. b \<noteq> 2 \<Longrightarrow> bm_blocks bm b = bm_blocks im b"
      "\<And>b. b \<in> data_range \<Longrightarrow> bm_used im b \<Longrightarrow> b \<notin> set (own im i) \<Longrightarrow> bm_used bm b"
    and im': "im' = put_inode m bm i (Some (inode_of_bytes zeros))"
  shows "fs_inv im'" and "abs_fs im' = (abs_fs im)(i := None)" and "j \<noteq> i \<Longrightarrow> own im' j = own im j"
    and "b \<in> data_range \<Longrightarrow> bm_used im' b = bm_used bm b"
proof -
  have "i_type (inode_of_bytes zeros) = 0" by (simp add: inode_of_bytes_def get_u16_def zeros_def)
  then have at': "inode_at im' i = None" using bm(1) i by (simp add: im' put_inode_same)
  then have own': "own im' i = []" by (simp add: own_def)
  show used: "bm_used im' b = bm_used bm b" if "b \<in> data_range" for b
    using that bm(1) i data_range_bounds(3) [OF that] by (simp add: im' put_inode_used)
  have touch: "bm_blocks im' b = bm_blocks im b" if "b \<notin> touch im i" for b
    using that bm(1) bm(2) [of b] by (simp add: im' put_inode_other touch_def)
  have keep: "bm_used im' b" if "b \<in> data_range" "bm_used im b" "b \<notin> set (own im i)" for b
    using that used bm(3) by simp
  have ok': "bm_ok im'" using bm(1) by (simp add: im')
  note upd = fs_inv_update [OF inv i ok' touch keep]
  show "fs_inv im'" by (rule upd(1)) (simp_all add: own' at')
  show "j \<noteq> i \<Longrightarrow> own im' j = own im j" by (rule upd(4)) (simp_all add: own' at')
  have "abs_fs im' j = abs_fs im j" if "j \<noteq> i" for j by (rule upd(3)) (simp_all add: own' at' that)
  then show "abs_fs im' = (abs_fs im)(i := None)" by (auto simp: fun_eq_iff abs_fs_def at')
qed

lemma free_inode_live:
  "bm_ok im \<Longrightarrow> inode_at im i = Some ino \<Longrightarrow>
     free_inode e im i = put_inode (junk e 3) im i (Some (inode_of_bytes zeros))"
  by (simp add: free_inode_def get_inode_eq)

lemma inode_at_bits:
  "(\<And>b. b \<noteq> 2 \<Longrightarrow> bm_blocks bm b = bm_blocks im b) \<Longrightarrow> inode_at bm i = inode_at im i"
  by (rule inode_at_cong) (simp add: ino_block_def)

text \<open>What \<open>remove_file\<close> frees, for a file whose size is not a multiple of the block size.\<close>

lemma remove_frees:
  assumes inv: "fs_inv im" and at: "inode_at im i = Some ino" and r: "i_size ino mod BLOCK_SIZE \<noteq> 0"
  shows "\<exists>bm. remove_file e im i = Some (free_inode e bm i) \<and> bm_sb bm = bm_sb im
    \<and> (\<forall>c. c \<noteq> 2 \<longrightarrow> bm_blocks bm c = bm_blocks im c)
    \<and> (\<forall>b. bm_used bm b = (bm_used im b \<and> (b \<notin> set (own im i) \<or> b = last (data_blocks im ino))))"
proof -
  let ?n = "i_size ino div BLOCK_SIZE" and ?bs = "i_blocks ino"
  have len: "length ?bs = NDIRECT + 1" by (rule inode_at_blocks [OF at])
  have c: "block_count (i_size ino) = ?n + 1" "remove_count (i_size ino) = ?n"
    using r by (simp_all add: block_count_def remove_count_def)
  note un = remove_file_def get_inode_eq [OF fs_inv_ok [OF inv]] at c(2) Let_def
  show ?thesis
  proof (cases "?n < NDIRECT")
    case True
    then have own: "own im i = take (?n + 1) ?bs" "data_blocks im ino = take (?n + 1) ?bs"
      using own_direct [OF at] c(1) by (simp_all add: data_blocks_def)
    have l: "take (?n + 1) ?bs = take ?n ?bs @ [?bs ! ?n]" using True len by (simp add: take_Suc_conv_app_nth)
    have d: "?bs ! ?n \<notin> set (take ?n ?bs)" using fs_inv_own(1) [OF inv, of i] unfolding own l by simp
    have img: "(!) ?bs ` {0..<?n} = set (take ?n ?bs)" using True len by (simp add: set_take_image)
    have "\<forall>k \<in> set [0..<?n]. ?bs ! k \<in> data_range"
      using fs_inv_own(2) [OF inv, of _ i] img unfolding own l by auto
    note f = free_fold_run [OF this, where m = "\<lambda>k. junk e (10 + k)" and bm = im, folded free_direct_def,
        unfolded set_upt img]
    show ?thesis
      using True f d unfolding own l by (intro exI [of _ "free_direct e ?bs 0 ?n im"]) (auto simp: un)
  next
    case False
    let ?m = "?n - NDIRECT" and ?ids = "bm_read_block im (?bs ! NDIRECT) (junk e 1)"
    have own: "own im i = large_blocks ?bs ?ids (?m + 1)"
      using own_large_blocks [OF inv at, of "junk e 1"] c(1) False by (simp add: Suc_diff_le)
    have l: "ids_at ?ids (?m + 1) = ids_at ?ids ?m @ [get_u32 ?ids (4 * ?m)]" by (simp add: ids_at_def)
    have "data_blocks im ino = take NDIRECT ?bs @ ids_at ?ids (?m + 1)"
      using own_Some [OF at] own c(1) False by (simp add: own_blocks_def)
    then have last: "last (data_blocks im ino) = get_u32 ?ids (4 * ?m)" unfolding l by simp
    have d: "get_u32 ?ids (4 * ?m) \<notin> insert (?bs ! NDIRECT) (set (take NDIRECT ?bs)) \<union> set (ids_at ?ids ?m)"
      using fs_inv_own(1) [OF inv, of i] unfolding own l by auto
    have img: "(!) ?bs ` {0..<NDIRECT + 1} = insert (?bs ! NDIRECT) (set (take NDIRECT ?bs))"
      using set_blocks [OF len] set_take_image [of "NDIRECT + 1" ?bs] len by simp
    have m: "?m \<le> NINDIRECT" using fs_inv_count [OF inv at] c(1) by (simp add: MAXFILE_def)
    have range: "set (own im i) \<subseteq> data_range" using fs_inv_own(2) [OF inv, of _ i] by blast
    let ?bm1 = "fold (\<lambda>k. free_block (junk e (200 + k)) (get_u32 ?ids (4 * k))) [0..<?m] im"
    have "\<forall>k \<in> set [0..<?m]. get_u32 ?ids (4 * k) \<in> data_range"
      using range unfolding own l by (auto simp: set_ids_at)
    note f1 = free_fold_run [OF this, where m = "\<lambda>k. junk e (200 + k)" and bm = im, unfolded set_upt]
    have "(!) ?bs ` {0..<NDIRECT + 1} \<subseteq> data_range" using range unfolding own img by auto
    then have "\<forall>k \<in> set [0..<NDIRECT + 1]. ?bs ! k \<in> data_range" unfolding set_upt by blast
    note f2 = free_fold_run [OF this, where m = "\<lambda>k. junk e (10 + k)" and bm = ?bm1,
        folded free_direct_def, unfolded set_upt img]
    have "bm_used (free_direct e ?bs 0 (NDIRECT + 1) ?bm1) b
        = (bm_used im b \<and> (b \<notin> set (own im i) \<or> b = get_u32 ?ids (4 * ?m)))" for b
      using f2(3) [of b] f1(3) [of b] d unfolding own l by (auto simp: set_ids_at)
    then show ?thesis
      using False m f1(1,2) f2(1,2) unfolding last
      by (intro exI [of _ "free_direct e ?bs 0 (NDIRECT + 1) ?bm1"])
        (simp add: un free_indirect_fold)
  qed
qed

lemma remove_file_leak:
  assumes inv: "fs_inv im" and at: "inode_at im i = Some ino" and r: "i_size ino mod BLOCK_SIZE \<noteq> 0"
  shows "\<exists>im'. remove_file e im i = Some im' \<and> fs_inv im' \<and> abs_fs im' = (abs_fs im)(i := None)
    \<and> (\<forall>j. j \<noteq> i \<longrightarrow> own im' j = own im j)
    \<and> (\<forall>b \<in> data_range. bm_used im' b
          = (bm_used im b \<and> (b \<notin> set (own im i) \<or> b = last (data_blocks im ino))))"
proof -
  obtain bm where bm: "remove_file e im i = Some (free_inode e bm i)" "bm_sb bm = bm_sb im"
      "\<And>c. c \<noteq> 2 \<Longrightarrow> bm_blocks bm c = bm_blocks im c"
      "\<And>b. bm_used bm b = (bm_used im b \<and> (b \<notin> set (own im i) \<or> b = last (data_blocks im ino)))"
    using remove_frees [OF assms, of e] by blast
  have ok: "bm_ok bm" using bm(2) fs_inv_ok [OF inv] by (simp add: bm_ok_def)
  have i: "i < INODE_NUM" using inode_at_wf [OF at] by simp
  have live: "free_inode e bm i = put_inode (junk e 3) bm i (Some (inode_of_bytes zeros))"
    using free_inode_live [OF ok] inode_at_bits [OF bm(3)] at by simp
  have keep: "bm_used bm b" if "b \<in> data_range" "bm_used im b" "b \<notin> set (own im i)" for b
    using that bm(4) by simp
  note c = clear_inode [OF inv i ok bm(3) keep live]
  show ?thesis
    by (intro exI [of _ "free_inode e bm i"] conjI ballI allI impI) (simp_all add: bm(1,4) c)
qed

text \<open>
  An empty file owns no block, but \<open>remove_file\<close> frees the block its uninitialised or stale
  \<open>blocks[0]\<close> names.
\<close>

lemma remove_file_empty:
  assumes inv: "fs_inv im" and at: "inode_at im i = Some ino" and z: "i_size ino = 0"
    and b: "i_blocks ino ! 0 \<in> data_range"
  shows "\<exists>im'. remove_file e im i = Some im' \<and> inode_at im' i = None \<and> (\<forall>j. j \<noteq> i \<longrightarrow> own im' j = own im j)
    \<and> \<not> bm_used im' (i_blocks ino ! 0)"
proof -
  let ?b = "i_blocks ino ! 0" and ?bm = "free_block (junk e 10) (i_blocks ino ! 0) im"
  let ?im = "put_inode (junk e 3) ?bm i (Some (inode_of_bytes zeros))"
  have i: "i < INODE_NUM" using inode_at_wf [OF at] by simp
  have ok: "bm_ok ?bm" using fs_inv_ok [OF inv] by (simp add: bm_ok_def)
  have blk: "bm_blocks ?bm c = bm_blocks im c" if "c \<noteq> 2" for c using free_block_data(1) [OF b that] .
  have "remove_count (i_size ino) = 1" using z by (simp add: remove_count_def)
  then have "remove_file e im i = Some (free_inode e ?bm i)"
    using at by (simp add: remove_file_def get_inode_eq [OF fs_inv_ok [OF inv]] free_direct_def NDIRECT_facts)
  then have rm: "remove_file e im i = Some ?im"
    using free_inode_live [OF ok] inode_at_bits [OF blk] at by simp
  have "\<not> bm_used ?im ?b"
    using put_inode_used [OF ok i data_range_bounds(3) [OF b]] free_block_data(2) [OF b] by simp
  moreover have "inode_at ?im i = None"
    using ok i by (simp add: put_inode_same) (simp add: inode_of_bytes_def get_u16_def zeros_def)
  moreover have "own ?im j = own im j" if "j \<noteq> i" for j
  proof (cases "j < INODE_NUM")
    case True
    have "bm_blocks ?im c = bm_blocks im c" if "c \<noteq> 2" "c \<noteq> ino_block i" for c
      using that blk ok by (simp add: put_inode_other)
    then show ?thesis
      using True that ino_block_bounds [OF True] fs_inv_own(2) [OF inv, of _ j] data_range_bounds(1)
        ino_block_not_data [OF i] inode_frame(2) [of ?im j im] by (metis ino_block_inj less_irrefl)
  qed (simp add: own_large)
  ultimately show ?thesis using rm by blast
qed

end
