(* ===== verification/File_Blocks.thy ===== *)
theory File_Blocks
  imports File_Create
begin

text \<open>
  The block interface the name node uses: \<open>append_block\<close> gives a file one more block,
  \<open>get_block_ids\<close> lists its blocks, \<open>complete\<close> sets its size.
\<close>

definition appended :: "inode_manager \<Rightarrow> nat \<Rightarrow> inode \<Rightarrow> nat \<Rightarrow> inode_manager \<Rightarrow> bool" where
  "appended im i ino bid im' \<longleftrightarrow>
     fs_inv im' \<and> bid \<in> bm_free im \<and> bits_for im i (set (own im' i)) im'
     \<and> (\<exists>ino'. inode_at im' i = Some ino' \<and> i_type ino' = i_type ino
          \<and> i_size ino' = i_size ino + BLOCK_SIZE \<and> data_blocks im' ino' = data_blocks im ino @ [bid])
     \<and> (\<forall>b \<in> insert bid (set (data_blocks im ino)). bm_blocks im' b = bm_blocks im b)
     \<and> (\<forall>j. j \<noteq> i \<longrightarrow> abs_fs im' j = abs_fs im j \<and> inode_at im' j = inode_at im j)"

lemma append_end:
  assumes inv: "fs_inv im" and at: "inode_at im i = Some ino" and n: "block_count (i_size ino) < MAXFILE"
    and bm: "bm_ok bm" "\<And>b. b \<noteq> 2 \<Longrightarrow> b \<notin> X \<Longrightarrow> bm_blocks bm b = bm_blocks im b"
      "bits_for im i (set B) bm"
    and X: "X \<subseteq> set B" "bid \<notin> X" "X \<inter> set (data_blocks im ino) = {}"
    and bs: "length bs = NDIRECT + 1" "\<forall>b \<in> set bs. b < 2 ^ 32"
    and B: "distinct B" "set B \<subseteq> set (own im i) \<union> bm_free im" "bid \<in> bm_free im"
    and ino': "ino' = ino\<lparr>i_blocks := bs, i_size := (i_size ino + BLOCK_SIZE) mod 2 ^ 32\<rparr>"
      "i_size ino' = i_size ino + BLOCK_SIZE \<Longrightarrow> own_blocks bm ino' = B"
      "i_size ino' = i_size ino + BLOCK_SIZE \<Longrightarrow> data_blocks bm ino' = data_blocks im ino @ [bid]"
  shows "appended im i ino bid (put_inode m bm i (Some ino'))"
proof -
  let ?im = "put_inode m bm i (Some ino')"
  have i: "i < INODE_NUM" "i_type ino' \<noteq> 0" "inode_wf ino'" "i_type ino' = i_type ino"
    using inode_at_wf [OF at] bs by (simp_all add: ino'(1) inode_wf_def)
  have "i_size ino \<le> MAXFILE * BLOCK_SIZE" using n by (simp add: block_count_le_iff [symmetric])
  then have size: "i_size ino' = i_size ino + BLOCK_SIZE"
    by (simp add: ino'(1) NDIRECT_facts BLOCK_SIZE_eq)
  then have count: "block_count (i_size ino') \<le> MAXFILE" using n by simp
  have frame: "bm_blocks bm b = bm_blocks im b" if "b \<notin> insert 2 (set B)" for b
    using that X(1) by (intro bm(2)) auto
  note c = commit_file [OF inv i(1) bm(1) frame bm(3) B(1,2) i(3,2) count ino'(2) [OF size] refl, where m = m]
  have range: "set B \<subseteq> data_range" using B(2) fs_inv_own(2) [OF inv] bm_free_data by blast
  have put: "bm_blocks ?im b = bm_blocks bm b" if "b \<in> data_range" for b
    using that bm(1) ino_block_not_data [OF i(1)] by (metis put_inode_other)
  have db: "data_blocks ?im ino' = data_blocks im ino @ [bid]"
    using c(2,3) ino'(2,3) [OF size] own_Some [OF c(2)] by (auto simp: own_blocks_def split: if_splits)
  have data: "set (data_blocks im ino) \<subseteq> data_range" by (rule fs_inv_data(1) [OF inv at])
  have "bm_blocks ?im b = bm_blocks im b" if "b \<in> insert bid (set (data_blocks im ino))" for b
  proof -
    have "b \<in> data_range" using that data B(3) bm_free_data by blast
    moreover have "b \<notin> X" using that X(2,3) by auto
    ultimately show ?thesis using put bm(2) data_range_bounds(1) by (metis less_irrefl)
  qed
  then show ?thesis
    using c(1,2) i(4) size db B(3) by (simp add: appended_def written_def)
qed

lemma alloc_block_step:
  assumes "bm_ok bm" and "bm_free bm \<noteq> {}" and "alloc_block m bm = (bm', b)"
  shows "bm_ok bm'" and "b \<in> bm_free bm" and "bm_free bm' = bm_free bm - {b}"
    and "bm_used bm' c = (c = b \<or> bm_used bm c)" and "c \<noteq> 2 \<Longrightarrow> bm_blocks bm' c = bm_blocks bm c"
  using bm_alloc_in_free [OF assms(1,2), where m = m] bm_alloc_frame [OF assms(1), where m = m] assms
  by (simp_all add: bm_ok_def)

lemma free_block_id: "b \<in> bm_free im \<Longrightarrow> b < 2 ^ 32" "b \<in> bm_free im \<Longrightarrow> b < BLOCK_NUM"
  by (simp_all add: bm_free_def layout_defs)

lemma update_blocks_u32:
  "\<forall>b \<in> set bs. b < m \<Longrightarrow> c < m \<Longrightarrow> \<forall>b \<in> set (bs[k := c]). b < (m :: nat)"
  using set_update_subset_insert [of bs k c] by blast

lemma ids_at_put:
  "c < 2 ^ 32 \<Longrightarrow> ids_at (put_u32 ids (4 * m) c) (m + 1) = ids_at ids m @ [c]"
  by (auto simp: ids_at_def mem_simps)

text \<open>One more direct block.\<close>

lemma append_direct:
  assumes inv: "fs_inv im" and at: "inode_at im i = Some ino"
    and n: "block_count (i_size ino) < NDIRECT" and free: "bm_free im \<noteq> {}"
  shows "\<exists>im' bid. append_block e im i bid0 = Some (im', bid) \<and> appended im i ino bid im'"
proof -
  let ?n = "block_count (i_size ino)" and ?bs = "i_blocks ino"
  obtain bm bid where run: "alloc_block (junk e 2) im = (bm, bid)" by (meson surj_pair)
  note s = alloc_block_step [OF fs_inv_ok [OF inv] free run]
  let ?B = "own im i @ [bid]" and ?ino = "ino\<lparr>i_blocks := ?bs[?n := bid], i_size := (i_size ino + BLOCK_SIZE) mod 2 ^ 32\<rparr>"
  have len: "length ?bs = NDIRECT + 1" by (rule inode_at_blocks [OF at])
  have own: "own im i = take ?n ?bs" "data_blocks im ino = take ?n ?bs"
    using own_direct [OF at] n by (simp_all add: data_blocks_def)
  have t: "take (?n + 1) (?bs[?n := bid]) = take ?n ?bs @ [bid]"
    using n len by (simp add: take_Suc_conv_app_nth)
  have new: "bid \<notin> set (own im i)" using s(2) own_not_free [OF inv, of i] by blast
  have dist: "distinct ?B" using fs_inv_own(1) [OF inv, of i] new by simp
  have bits: "bits_for im i (set ?B) bm"
    by (rule bits_for_alloc [OF inv, where F = "{bid}"]) (simp_all add: s(4))
  have "\<forall>b \<in> set ?bs. b < 2 ^ 32" using inode_at_wf [OF at] by (simp add: inode_wf_def)
  note u32 = update_blocks_u32 [OF this free_block_id(1) [OF s(2)], of ?n]
  have views: "own_blocks bm ?ino = ?B" "data_blocks bm ?ino = data_blocks im ino @ [bid]"
    if "i_size ?ino = i_size ino + BLOCK_SIZE"
    using that n t own by (simp_all add: own_blocks_def data_blocks_def)
  have "appended im i ino bid (put_inode (junk e 1) bm i (Some ?ino))"
    by (rule append_end [OF inv at _ s(1) s(5) bits _ _ _ _ u32 dist _ s(2) refl views, of "{}"])
      (use n len s(2) in \<open>simp_all add: NDIRECT_facts\<close>)
  then show ?thesis
    using at n run fs_inv_count [OF inv at]
    by (auto simp: append_block_def get_inode_eq [OF fs_inv_ok [OF inv]] Let_def)
qed

text \<open>The first block behind the indirect block, which is allocated with it.\<close>

lemma append_first_indirect:
  assumes inv: "fs_inv im" and at: "inode_at im i = Some ino"
    and n: "block_count (i_size ino) = NDIRECT" and free: "2 \<le> card (bm_free im)"
  shows "\<exists>im' bid. append_block e im i bid0 = Some (im', bid) \<and> appended im i ino bid im'"
proof -
  let ?bs = "i_blocks ino"
  obtain bm1 bid where run1: "alloc_block (junk e 2) im = (bm1, bid)" by (meson surj_pair)
  have ne: "bm_free im \<noteq> {}" using free by auto
  note s = alloc_block_step [OF fs_inv_ok [OF inv] ne run1]
  have "card (bm_free bm1) \<noteq> 0" using s(2,3) free by simp
  then have ne1: "bm_free bm1 \<noteq> {}" by auto
  obtain bm2 x where run2: "alloc_block (junk e 3) bm1 = (bm2, x)" by (meson surj_pair)
  note t = alloc_block_step [OF s(1) ne1 run2]
  let ?ids = "put_u32 (bm_read_block bm2 x (junk e 4)) 0 bid"
  let ?bm = "bm_write_block bm2 x ?ids" and ?B = "x # own im i @ [bid]"
  let ?ino = "ino\<lparr>i_blocks := ?bs[NDIRECT := x], i_size := (i_size ino + BLOCK_SIZE) mod 2 ^ 32\<rparr>"
  have len: "length ?bs = NDIRECT + 1" by (rule inode_at_blocks [OF at])
  have own: "own im i = take NDIRECT ?bs" "data_blocks im ino = own im i"
    using own_direct [OF at] n by (simp_all add: data_blocks_def)
  have new: "bid \<notin> set (own im i)" "x \<notin> set (own im i)" "x \<noteq> bid" "x \<in> bm_free im"
    using s(2,3) t(2) own_not_free [OF inv, of i] by auto
  have x: "x \<in> data_range" using new(4) bm_free_data by blast
  have dist: "distinct ?B" using fs_inv_own(1) [OF inv, of i] new by auto
  have used: "bm_used ?bm c = bm_used bm2 c" if "c \<in> data_range" for c
    using data_range_bounds [OF that] data_range_bounds(1) [OF x] by (simp add: bm_used_write)
  have bits: "bits_for im i (set ?B) ?bm"
    using used s(4) t(4) fs_inv_own(3) [OF inv, of _ i] by (auto simp: bits_for_def)
  have ok: "bm_ok ?bm" using t(1) by (simp add: bm_ok_def)
  have frame: "bm_blocks ?bm b = bm_blocks im b" if "b \<noteq> 2" "b \<notin> {x}" for b
    using that s(5) t(5) by (simp add: bm.wr_other)
  have "\<forall>b \<in> set ?bs. b < 2 ^ 32" using inode_at_wf [OF at] by (simp add: inode_wf_def)
  note u32 = update_blocks_u32 [OF this free_block_id(1) [OF new(4)], of NDIRECT]
  have "ids_at (bm_blocks ?bm x) 1 = ids_at ?ids 1"
    using data_range_bounds(2) [OF x] by (intro ids_at_cong) (simp add: bm.wr_same BLOCK_SIZE_eq)
  then have ids: "ids_at (bm_blocks ?bm x) 1 = [bid]"
    using ids_at_put [OF free_block_id(1) [OF s(2)], of _ 0] by (simp add: ids_at_def)
  have views: "own_blocks ?bm ?ino = ?B" "data_blocks ?bm ?ino = data_blocks im ino @ [bid]"
    if "i_size ?ino = i_size ino + BLOCK_SIZE"
    using that n len own ids by (simp_all add: own_blocks_def data_blocks_def)
  have "appended im i ino bid (put_inode (junk e 1) ?bm i (Some ?ino))"
    by (rule append_end [OF inv at _ ok frame bits _ _ _ _ u32 dist _ s(2) refl views, of "{x}"])
      (use n len s(2) new own in \<open>auto simp: NDIRECT_facts\<close>)
  then show ?thesis
    using at n run1 run2 len
    by (auto simp: append_block_def get_inode_eq [OF fs_inv_ok [OF inv]] Let_def NDIRECT_facts)
qed

text \<open>Further blocks go into the indirect block.\<close>

lemma append_indirect:
  assumes inv: "fs_inv im" and at: "inode_at im i = Some ino"
    and n: "NDIRECT < block_count (i_size ino)" "block_count (i_size ino) < MAXFILE" and free: "bm_free im \<noteq> {}"
  shows "\<exists>im' bid. append_block e im i bid0 = Some (im', bid) \<and> appended im i ino bid im'"
proof -
  let ?bs = "i_blocks ino" and ?m = "block_count (i_size ino) - NDIRECT"
  let ?x = "i_blocks ino ! NDIRECT"
  obtain bm1 bid where run: "alloc_block (junk e 2) im = (bm1, bid)" by (meson surj_pair)
  note s = alloc_block_step [OF fs_inv_ok [OF inv] free run]
  let ?old = "bm_read_block bm1 ?x (junk e 4)"
  let ?ids = "put_u32 ?old (4 * ?m) bid"
  let ?bm = "bm_write_block bm1 ?x ?ids" and ?B = "own im i @ [bid]"
  let ?ino = "ino\<lparr>i_blocks := ?bs, i_size := (i_size ino + BLOCK_SIZE) mod 2 ^ 32\<rparr>"
  have len: "length ?bs = NDIRECT + 1" by (rule inode_at_blocks [OF at])
  have m: "?m + 1 \<le> NINDIRECT" using n unfolding MAXFILE_def by linarith
  have x: "?x \<in> data_range" by (rule fs_inv_data(2) [OF inv at n(1)])
  have own: "own im i = ?x # data_blocks im ino" using own_Some [OF at] n(1) by (simp add: own_blocks_def)
  have new: "bid \<notin> set (own im i)" using s(2) own_not_free [OF inv, of i] by blast
  have dist: "distinct ?B" using fs_inv_own(1) [OF inv, of i] new by simp
  have used: "bm_used ?bm c = bm_used bm1 c" if "c \<in> data_range" for c
    using data_range_bounds [OF that] data_range_bounds(1) [OF x] by (simp add: bm_used_write)
  have bits: "bits_for im i (set ?B) ?bm"
    using used s(4) fs_inv_own(3) [OF inv, of _ i] by (auto simp: bits_for_def)
  have ok: "bm_ok ?bm" using s(1) by (simp add: bm_ok_def)
  have frame: "bm_blocks ?bm b = bm_blocks im b" if "b \<noteq> 2" "b \<notin> {?x}" for b
    using that s(5) by (simp add: bm.wr_other)
  have u32: "\<forall>b \<in> set ?bs. b < 2 ^ 32" using inode_at_wf [OF at] by (simp add: inode_wf_def)
  have "ids_at (bm_blocks ?bm ?x) (?m + 1) = ids_at ?ids (?m + 1)"
    using data_range_bounds(2) [OF x] m by (intro ids_at_cong) (simp add: bm.wr_same BLOCK_SIZE_eq NDIRECT_facts)
  also have "\<dots> = ids_at ?old ?m @ [bid]" by (rule ids_at_put [OF free_block_id(1) [OF s(2)]])
  also have "ids_at ?old ?m = ids_at (bm_blocks im ?x) ?m"
    using read_ids [OF x, of ?m bm1 "junk e 4"] m s(5) data_range_bounds(1) [OF x] by simp
  finally have ids: "ids_at (bm_blocks ?bm ?x) (?m + 1) = ids_at (bm_blocks im ?x) ?m @ [bid]" .
  have views: "data_blocks ?bm ?ino = data_blocks im ino @ [bid]" "own_blocks ?bm ?ino = ?B"
    if "i_size ?ino = i_size ino + BLOCK_SIZE"
  proof -
    show "data_blocks ?bm ?ino = data_blocks im ino @ [bid]"
      using that n(1) ids by (simp add: data_blocks_def Suc_diff_le)
    then show "own_blocks ?bm ?ino = ?B" using that n(1) own by (simp add: own_blocks_def)
  qed
  have "appended im i ino bid (put_inode (junk e 1) ?bm i (Some ?ino))"
    by (rule append_end [OF inv at n(2) ok frame bits _ _ _ len u32 dist _ s(2) refl views(2,1), of "{?x}"])
      (use dist s(2) own in auto)
  then show ?thesis
    using at n run m
    by (auto simp: append_block_def get_inode_eq [OF fs_inv_ok [OF inv]] Let_def)
qed

lemma append_block_ok:
  assumes "fs_inv im" and "inode_at im i = Some ino" and "block_count (i_size ino) < MAXFILE"
    and "2 \<le> card (bm_free im)"
  shows "\<exists>im' bid. append_block e im i bid0 = Some (im', bid) \<and> appended im i ino bid im'"
proof -
  have "bm_free im \<noteq> {}" using assms(4) by auto
  then show ?thesis
    using append_direct append_first_indirect append_indirect assms
    by (metis linorder_neqE_nat)
qed

section \<open>Listing the blocks\<close>

lemma ofold_collect:
  "(\<And>i. i \<in> set ns \<Longrightarrow> f i = Some (g i)) \<Longrightarrow>
     ofold (\<lambda>i l. do { b \<leftarrow> f i; Some (l @ [b]) }) ns l = Some (l @ map g ns)"
  by (induction ns arbitrary: l) auto

lemma get_block_ids_ok:
  assumes inv: "fs_inv im" and at: "inode_at im i = Some ino"
  shows "get_block_ids e im i l = Some (l @ data_blocks im ino)"
proof -
  let ?n = "block_count (i_size ino)" and ?bs = "i_blocks ino"
  let ?ids = "bm_read_block im (?bs ! NDIRECT) (junk e 1)"
  have len: "length ?bs = NDIRECT + 1" by (rule inode_at_blocks [OF at])
  have direct: "ofold (\<lambda>i l. do { b \<leftarrow> arr_get ?bs i; Some (l @ [b]) }) [0..<k] l = Some (l @ take k ?bs)"
    if "k \<le> NDIRECT" for k l
  proof -
    have "map ((!) ?bs) [0..<k] = take k ?bs" using that len by (intro nth_equalityI) simp_all
    then show ?thesis using that len ofold_collect [of "[0..<k]" "arr_get ?bs" "(!) ?bs" l] by simp
  qed
  show ?thesis
  proof (cases "?n \<le> NDIRECT")
    case True
    then show ?thesis
      using at direct by (simp add: get_block_ids_def get_inode_eq [OF fs_inv_ok [OF inv]] data_blocks_def)
  next
    case False
    have m: "?n - NDIRECT \<le> NINDIRECT" using fs_inv_count [OF inv at] by (simp add: MAXFILE_def)
    then have "ofold (\<lambda>i l. do { b \<leftarrow> idx_get ?ids i; Some (l @ [b]) }) [0..<?n - NDIRECT] l'
        = Some (l' @ ids_at ?ids (?n - NDIRECT))" for l'
      unfolding ids_at_def by (intro ofold_collect) simp
    with False show ?thesis
      using at direct [OF order_refl] read_ids [OF fs_inv_data(2) [OF inv at] m]
      by (simp add: get_block_ids_def get_inode_eq [OF fs_inv_ok [OF inv]] data_blocks_def Let_def)
  qed
qed

section \<open>Setting the size\<close>

lemma im_complete_ok:
  assumes inv: "fs_inv im" and at: "inode_at im i = Some ino" and sz: "sz < 2 ^ 32"
    and n: "block_count sz = block_count (i_size ino)"
  shows "\<exists>im' ino'. im_complete e im i sz = Some im' \<and> fs_inv im' \<and> inode_at im' = (inode_at im)(i \<mapsto> ino')
    \<and> i_size ino' = sz \<and> i_type ino' = i_type ino \<and> data_blocks im' ino' = data_blocks im ino
    \<and> abs_fs im' = (abs_fs im)(i \<mapsto> (i_type ino,
        map (\<lambda>k. bm_blocks im (data_blocks im ino ! (k div BLOCK_SIZE)) (k mod BLOCK_SIZE)) [0..<sz]))
    \<and> (\<forall>b \<in> data_range. bm_used im' b = bm_used im b)"
proof -
  let ?ino = "ino\<lparr>i_size := sz, i_atime := now e 0 mod 2 ^ 32, i_mtime := now e 1 mod 2 ^ 32, i_ctime := now e 2 mod 2 ^ 32\<rparr>"
  let ?im = "put_inode (junk e 1) im i (Some ?ino)"
  have i: "i < INODE_NUM" "i_type ?ino \<noteq> 0" "inode_wf ?ino"
    using inode_at_wf [OF at] sz by (simp_all add: inode_wf_def)
  have db: "data_blocks im ?ino = data_blocks im ino" using n by (simp add: data_blocks_def Let_def)
  then have own: "own_blocks im ?ino = own im i" using n own_Some [OF at] by (simp add: own_blocks_def)
  have count: "block_count (i_size ?ino) \<le> MAXFILE" using n fs_inv_count [OF inv at] by simp
  note c = commit_file [OF inv i(1) fs_inv_ok [OF inv] refl bits_for_same [OF inv] fs_inv_own(1) [OF inv]
      Un_upper1 i(3,2) count own refl, where m = "junk e 1"]
  have db': "data_blocks ?im ?ino = data_blocks im ino"
    using own_Some [OF c(2)] c(3) own_Some [OF at] n by (auto simp: own_blocks_def split: if_splits)
  have bytes: "file_bytes im ?ino = map (\<lambda>k. bm_blocks im (data_blocks im ino ! (k div BLOCK_SIZE)) (k mod BLOCK_SIZE)) [0..<sz]"
    unfolding file_bytes_def db by simp
  have "im_complete e im i sz = Some ?im"
    using at sz by (simp add: im_complete_def get_inode_eq [OF fs_inv_ok [OF inv]])
  moreover have "inode_at ?im = (inode_at im)(i \<mapsto> ?ino)"
    using c(1,2) by (auto simp: written_def fun_eq_iff)
  ultimately show ?thesis
    using c(1,4) db' bytes by (intro exI [of _ ?im] exI [of _ ?ino]) (simp add: written_def)
qed

lemma im_getattr_at:
  "bm_ok im \<Longrightarrow> inode_at im i = Some ino \<Longrightarrow> im_getattr e im i =
     \<lparr>a_type = u32_of_short (i_type ino), a_atime = i_atime ino, a_mtime = i_atime ino,
      a_ctime = i_ctime ino, a_size = i_size ino\<rparr>"
  by (simp add: im_getattr_def get_inode_eq)

end
