(* ===== verification/Extent_Server.thy ===== *)
theory Extent_Server
  imports File_Blocks
begin

text \<open>
  The extent server, \<open>src/yfs/extent_server.cc\<close>. Its state is the inode manager. A handler
  takes the environment of the call and returns the new state, the status it returns, and
  the value of its reference parameter, which the RPC dispatcher (\<open>rpcs::reg\<close> in
  \<open>src/yfs/rpc/rpc.h\<close>) declares without initialising it. The \<open>int &\<close> parameters that no
  handler assigns are left out. The lemmas give the meaning of the handlers in terms of the
  abstract store \<open>ext_fs\<close>, a map from ids to a type and a string.
\<close>

section \<open>Status values, C strings\<close>

type_synonym status = int

definition ext_OK :: status where "ext_OK = 0"
definition ext_RPCERR :: status where "ext_RPCERR = 1"
definition ext_NOENT :: status where "ext_NOENT = 2"
definition ext_IOERR :: status where "ext_IOERR = 3"

text \<open>Conversion of a \<open>size_t\<close> or \<open>unsigned int\<close> to \<open>int\<close>.\<close>

definition c_int :: "nat \<Rightarrow> int" where
  "c_int n = (let m = int (n mod 2 ^ 32) in if m < 2 ^ 31 then m else m - 2 ^ 32)"

definition byte_of_char :: "char \<Rightarrow> byte" where
  "byte_of_char c = word_of_nat (of_char c)"

definition char_of_byte :: "byte \<Rightarrow> char" where
  "char_of_byte b = char_of (unat b)"

text \<open>
  \<open>c_str\<close>: the characters of the string, the terminating zero, and whatever memory follows,
  which \<open>write_file\<close> reads because it copies whole blocks.
\<close>

definition c_str :: "buffer \<Rightarrow> string \<Rightarrow> buffer" where
  "c_str mem s = (\<lambda>k. if k < length s then byte_of_char (s ! k) else if k = length s then 0 else mem k)"

definition string_of :: "buffer \<Rightarrow> nat \<Rightarrow> string" where
  "string_of buf n = map (\<lambda>k. char_of_byte (buf k)) [0..<n]"

text \<open>\<open>id &= 0x7fffffff\<close>\<close>

definition mask_id :: "nat \<Rightarrow> nat" where
  "mask_id eid = eid mod 2 ^ 31"

section \<open>The handlers\<close>

definition es_create :: "nat \<Rightarrow> env \<Rightarrow> inode_manager \<Rightarrow> (inode_manager \<times> status \<times> nat) option" where
  "es_create ty e im = (let (im', i) = alloc_inode e im ty in Some (im', ext_OK, i))"

definition es_put :: "nat \<Rightarrow> string \<Rightarrow> env \<Rightarrow> inode_manager \<Rightarrow> (inode_manager \<times> status \<times> unit) option" where
  "es_put eid buf e im =
     do { im' \<leftarrow> write_file e im (mask_id eid) (c_str (junk e 5) buf) (c_int (length buf));
          Some (im', ext_OK, ()) }"

definition es_get :: "nat \<Rightarrow> env \<Rightarrow> inode_manager \<Rightarrow> (inode_manager \<times> status \<times> string) option" where
  "es_get eid e im =
     do {
       (im', out) \<leftarrow> read_file e im (mask_id eid);
       (case out of
          None \<Rightarrow> Some (im', ext_OK, [])
        | Some (cbuf, n) \<Rightarrow>
            (let sz = c_int n
             in if sz = 0 then Some (im', ext_OK, [])
                else if sz < 0 then None
                else Some (im', ext_OK, string_of cbuf (nat sz))))
     }"

definition es_getattr :: "nat \<Rightarrow> env \<Rightarrow> inode_manager \<Rightarrow> (inode_manager \<times> status \<times> attr) option" where
  "es_getattr eid e im = Some (im, ext_OK, im_getattr e im (mask_id eid))"

definition es_remove :: "nat \<Rightarrow> env \<Rightarrow> inode_manager \<Rightarrow> (inode_manager \<times> status \<times> unit) option" where
  "es_remove eid e im = do { im' \<leftarrow> remove_file e im (mask_id eid); Some (im', ext_OK, ()) }"

text \<open>The \<open>blockid_t\<close> of the dispatcher is uninitialised when \<open>append_block\<close> gets it.\<close>

definition es_append_block :: "nat \<Rightarrow> env \<Rightarrow> inode_manager \<Rightarrow> (inode_manager \<times> status \<times> nat) option" where
  "es_append_block eid e im =
     do { (im', bid) \<leftarrow> append_block e im (mask_id eid) (get_u32 (junk e 9) 0); Some (im', ext_OK, bid) }"

definition es_get_block_ids :: "nat \<Rightarrow> env \<Rightarrow> inode_manager \<Rightarrow> (inode_manager \<times> status \<times> nat list) option" where
  "es_get_block_ids eid e im = do { l \<leftarrow> get_block_ids e im (mask_id eid) []; Some (im, ext_OK, l) }"

definition es_read_block :: "nat \<Rightarrow> env \<Rightarrow> inode_manager \<Rightarrow> (inode_manager \<times> status \<times> string) option" where
  "es_read_block bid e im = Some (im, ext_OK, string_of (im_read_block im bid (junk e 0)) BLOCK_SIZE)"

definition es_write_block :: "nat \<Rightarrow> string \<Rightarrow> env \<Rightarrow> inode_manager \<Rightarrow> (inode_manager \<times> status \<times> unit) option" where
  "es_write_block bid buf e im =
     (if length buf \<noteq> BLOCK_SIZE then Some (im, ext_IOERR, ())
      else Some (im_write_block im bid (c_str (junk e 5) buf), ext_OK, ()))"

text \<open>\<open>complete\<close> does not mask its id; the call converts it to \<open>uint32_t\<close>.\<close>

definition es_complete :: "nat \<Rightarrow> nat \<Rightarrow> env \<Rightarrow> inode_manager \<Rightarrow> (inode_manager \<times> status \<times> unit) option" where
  "es_complete eid sz e im = do { im' \<leftarrow> im_complete e im (eid mod 2 ^ 32) sz; Some (im', ext_OK, ()) }"

definition new_extent_server :: "env \<Rightarrow> inode_manager option" where
  "new_extent_server e = new_inode_manager e"

section \<open>Strings and bytes\<close>

lemma char_byte_char [simp]: "char_of_byte (byte_of_char c) = c"
proof -
  have "of_char c < (256 :: nat)" by simp
  then show ?thesis by (simp add: char_of_byte_def byte_of_char_def unat_of_nat)
qed

lemma byte_char_byte [simp]: "byte_of_char (char_of_byte b) = b"
  using unat_byte_less [of b] by (simp add: char_of_byte_def byte_of_char_def)

lemma map_c_str [simp]: "map (c_str m s) [0..<length s] = map byte_of_char s"
  by (rule nth_equalityI) (simp_all add: c_str_def)

lemma c_int_small: "n < 2 ^ 31 \<Longrightarrow> c_int n = int n"
  by (simp add: c_int_def)

lemma mask_id_small [simp]: "i < 2 ^ 31 \<Longrightarrow> mask_id i = i"
  by (simp add: mask_id_def)

section \<open>The abstract store\<close>

definition str_of :: "byte list \<Rightarrow> string" where
  "str_of bs = map char_of_byte bs"

definition ext_fs :: "inode_manager \<Rightarrow> nat \<Rightarrow> (nat \<times> string) option" where
  "ext_fs im i = map_option (map_prod (\<lambda>t. t) str_of) (abs_fs im i)"

lemma length_str_of [simp]: "length (str_of bs) = length bs"
  by (simp add: str_of_def)

lemma str_of_map [simp]: "str_of (map byte_of_char s) = s"
  by (simp add: str_of_def comp_def)

lemma length_file_bytes [simp]: "length (file_bytes im ino) = i_size ino"
  by (simp add: file_bytes_def)

lemma ext_fs_inode: "inode_at im i = Some ino \<Longrightarrow> ext_fs im i = Some (i_type ino, str_of (file_bytes im ino))"
  by (simp add: ext_fs_def abs_fs_def)

lemma ext_fs_None_iff: "ext_fs im i = None \<longleftrightarrow> inode_at im i = None"
  by (simp add: ext_fs_def abs_fs_def)

lemma ext_fs_SomeE:
  assumes "ext_fs im i = Some (t, c)"
  obtains ino where "inode_at im i = Some ino" "i_type ino = t" "str_of (file_bytes im ino) = c"
    "i_size ino = length c"
  using assms by (cases "inode_at im i") (auto simp: ext_fs_inode ext_fs_None_iff [symmetric])

lemma ext_fs_written: "written im i t bs im' \<Longrightarrow> ext_fs im' = (ext_fs im)(i \<mapsto> (t, str_of bs))"
  by (auto simp: written_def ext_fs_def fun_eq_iff)

text \<open>
  \<open>room\<close>: how many data blocks are free. An operation that exchanges the blocks of one file
  changes it by exactly the number of blocks the file gained or lost.
\<close>

definition room :: "inode_manager \<Rightarrow> nat" where
  "room im = card (bm_free im)"

lemma finite_data_range [simp]: "finite data_range"
  by (rule finite_subset [of _ "{..<BLOCK_NUM}"]) (auto simp: data_range_def)

lemma room_bits_for:
  assumes inv: "fs_inv im" and inv': "fs_inv im'" and bits: "bits_for im i (set (own im' i)) im'"
    and sub: "set (own im' i) \<subseteq> set (own im i) \<union> bm_free im"
  shows "room im' + length (own im' i) = room im + length (own im i)"
proof -
  let ?F = "bm_free im" and ?F' = "bm_free im'" and ?O = "set (own im i)" and ?O' = "set (own im' i)"
  have dr: "?O \<subseteq> data_range" "?O' \<subseteq> data_range"
    using fs_inv_own(2) [OF inv, of _ i] fs_inv_own(2) [OF inv', of _ i] by blast+
  have u: "bm_used im' b = (b \<in> ?O' \<or> bm_used im b \<and> b \<notin> ?O)" if "b \<in> data_range" for b
    using bits_forD [OF bits that] .
  have "?F' \<union> ?O' = ?F \<union> ?O" "?F' \<inter> ?O' = {}" "?F \<inter> ?O = {}"
    using u dr sub own_not_free [OF inv, of i] own_not_free [OF inv', of i] unfolding bm_free_data_range by auto
  then have "card ?F' + card ?O' = card ?F + card ?O"
    using card_Un_disjoint [of ?F' ?O'] card_Un_disjoint [of ?F ?O] by simp
  then show ?thesis
    using distinct_card [OF fs_inv_own(1) [OF inv, of i]] distinct_card [OF fs_inv_own(1) [OF inv', of i]]
    by (simp add: room_def)
qed

lemma room_written: "fs_inv im \<Longrightarrow> written im i t bs im' \<Longrightarrow> room im' + length (own im' i) = room im + length (own im i)"
  by (rule room_bits_for) (simp_all add: written_def)

lemma room_same: "(\<And>b. b \<in> data_range \<Longrightarrow> bm_used im' b = bm_used im b) \<Longrightarrow> room im' = room im"
  by (simp add: room_def bm_free_data_range cong: conj_cong)

text \<open>How many blocks a file with contents \<open>c\<close> owns.\<close>

definition blocks_of :: "nat \<Rightarrow> nat" where
  "blocks_of n = (if block_count n \<le> NDIRECT then block_count n else block_count n + 1)"

lemma length_own: "inode_at im i = Some ino \<Longrightarrow> length (own im i) = blocks_of (i_size ino)"
  using inode_at_blocks [of im i ino] length_data_blocks [of ino im]
  by (simp add: own_def own_blocks_def blocks_of_def)

lemma length_own_fs: "ext_fs im i = Some (t, c) \<Longrightarrow> length (own im i) = blocks_of (length c)"
  by (auto elim!: ext_fs_SomeE simp: length_own)

lemma size_bound: "fs_inv im \<Longrightarrow> inode_at im i = Some ino \<Longrightarrow> i_size ino < 2 ^ 31"
  using fs_inv_count [of im i ino] by (simp add: block_count_le_iff NDIRECT_facts BLOCK_SIZE_eq)

section \<open>What the handlers do\<close>

lemma es_get_ok:
  assumes inv: "fs_inv im"
  shows "\<exists>im'. es_get eid e im = Some (im', ext_OK, case ext_fs im (mask_id eid) of None \<Rightarrow> [] | Some (t, c) \<Rightarrow> c)
    \<and> fs_inv im' \<and> ext_fs im' = ext_fs im \<and> room im' = room im"
proof (cases "inode_at im (mask_id eid)")
  case None
  then show ?thesis
    using inv read_file_none [OF fs_inv_ok [OF inv] None] by (simp add: es_get_def ext_fs_None_iff [symmetric])
next
  case (Some ino)
  obtain im' buf where r: "read_file e im (mask_id eid) = Some (im', Some (buf, i_size ino))"
    "map buf [0..<i_size ino] = file_bytes im ino" "fs_inv im'" "abs_fs im' = abs_fs im"
    "\<forall>b \<in> data_range. bm_used im' b = bm_used im b"
    using read_file_ok [OF inv Some, of e] by blast
  have "string_of buf (i_size ino) = str_of (file_bytes im ino)"
    by (simp add: r(2) [symmetric] str_of_def string_of_def)
  moreover have "ext_fs im' = ext_fs im" using r(4) by (simp add: ext_fs_def fun_eq_iff)
  moreover have "room im' = room im" using r(5) by (intro room_same) simp
  ultimately show ?thesis
    using r(1,3) ext_fs_inode [OF Some] c_int_small [OF size_bound [OF inv Some]]
    by (auto simp: es_get_def Let_def str_of_def file_bytes_def)
qed

lemma es_getattr_ok:
  assumes inv: "fs_inv im"
  shows "\<exists>a. es_getattr eid e im = Some (im, ext_OK, a)
    \<and> (case ext_fs im (mask_id eid) of None \<Rightarrow> a_type a = 0 \<and> a_size a = 0
       | Some (t, c) \<Rightarrow> a_type a = u32_of_short t \<and> a_size a = length c)"
proof (cases "inode_at im (mask_id eid)")
  case None
  then have "ext_fs im (mask_id eid) = None" by (simp add: ext_fs_None_iff)
  with None show ?thesis
    by (simp add: es_getattr_def im_getattr_def get_inode_eq [OF fs_inv_ok [OF inv]])
next
  case (Some ino)
  then show ?thesis
    using im_getattr_at [OF fs_inv_ok [OF inv] Some, of e] ext_fs_inode [OF Some] by (simp add: es_getattr_def)
qed

lemma es_put_ok:
  assumes inv: "fs_inv im" and at: "ext_fs im (mask_id eid) = Some (t, old)"
    and fits: "length c \<le> NDIRECT * BLOCK_SIZE" "block_count (length c) - block_count (length old) \<le> room im"
  shows "\<exists>im'. es_put eid c e im = Some (im', ext_OK, ()) \<and> fs_inv im'
    \<and> ext_fs im' = (ext_fs im)(mask_id eid \<mapsto> (t, c))
    \<and> room im' + blocks_of (length c) = room im + blocks_of (length old)"
proof -
  let ?i = "mask_id eid"
  obtain ino where ino: "inode_at im ?i = Some ino" "i_type ino = t" "i_size ino = length old"
    using at by (auto elim!: ext_fs_SomeE)
  have "length c < 2 ^ 31" using fits(1) by (simp add: NDIRECT_facts BLOCK_SIZE_eq)
  then have ci: "c_int (length c) = int (length c)" by (rule c_int_small)
  have n: "block_count (nat (int (length c))) \<le> NDIRECT" using fits(1) by (simp add: block_count_le_iff)
  have fr: "block_count (nat (int (length c))) - block_count (i_size ino) \<le> card (bm_free im)"
    using fits(2) ino(3) by (simp add: room_def)
  obtain im' where w: "write_file e im ?i (c_str (junk e 5) c) (int (length c)) = Some im'"
    "written im ?i t (map (c_str (junk e 5) c) [0..<length c]) im'"
    using write_file_small [OF inv ino(1) _ n fr, of e "c_str (junk e 5) c"] ino(2) by auto
  have fs: "ext_fs im' = (ext_fs im)(?i \<mapsto> (t, c))" using ext_fs_written [OF w(2)] by simp
  then have "length (own im' ?i) = blocks_of (length c)" by (intro length_own_fs) simp
  then show ?thesis
    using w room_written [OF inv w(2)] length_own_fs [OF at] fs ci by (simp add: es_put_def written_def)
qed

lemma es_put_absent:
  assumes "fs_inv im" and "ext_fs im (mask_id eid) = None"
  shows "es_put eid c e im = Some (im, ext_OK, ())"
  using assms fs_inv_ok [of im]
  by (simp add: es_put_def write_file_def get_inode_eq ext_fs_None_iff)

lemma es_create_ok:
  assumes inv: "fs_inv im" and ty: "0 < ty" "ty < 2 ^ 16"
  shows "(\<exists>j im'. es_create ty e im = Some (im', ext_OK, j) \<and> 1 \<le> j \<and> j < INODE_NUM \<and> ext_fs im j = None
      \<and> (\<forall>k. 1 \<le> k \<and> k < j \<longrightarrow> ext_fs im k \<noteq> None)
      \<and> fs_inv im' \<and> ext_fs im' = (ext_fs im)(j \<mapsto> (ty, [])) \<and> room im' = room im)
    \<or> (\<forall>k. 1 \<le> k \<and> k < INODE_NUM \<longrightarrow> ext_fs im k \<noteq> None) \<and> es_create ty e im = Some (im, ext_OK, 0)"
  using alloc_inode_ok [OF inv ty, of e]
proof (elim disjE exE conjE)
  fix j im'
  assume a: "alloc_inode e im ty = (im', j)" "1 \<le> j" "j < INODE_NUM" "inode_at im j = None"
    "\<forall>k. 1 \<le> k \<and> k < j \<longrightarrow> inode_at im k \<noteq> None" "written im j ty [] im'"
    "\<forall>b \<in> data_range. bm_used im' b = bm_used im b"
  have "ext_fs im' = (ext_fs im)(j \<mapsto> (ty, []))" using ext_fs_written [OF a(6)] by (simp add: str_of_def)
  moreover have "room im' = room im" using a(7) by (intro room_same) simp
  moreover have "fs_inv im'" using a(6) by (simp add: written_def)
  ultimately show ?thesis
    using a(1-5) by (intro disjI1 exI [of _ j] exI [of _ im']) (simp add: es_create_def ext_fs_None_iff)
qed (simp add: es_create_def ext_fs_None_iff)

lemma es_remove_ok:
  assumes inv: "fs_inv im" and at: "ext_fs im (mask_id eid) = Some (t, c)"
    and r: "length c mod BLOCK_SIZE \<noteq> 0"
  shows "\<exists>im'. es_remove eid e im = Some (im', ext_OK, ()) \<and> fs_inv im'
    \<and> ext_fs im' = (ext_fs im)(mask_id eid := None)"
proof -
  obtain ino where ino: "inode_at im (mask_id eid) = Some ino" "i_size ino = length c"
    using at by (auto elim!: ext_fs_SomeE)
  obtain im' where "remove_file e im (mask_id eid) = Some im'" "fs_inv im'"
    "abs_fs im' = (abs_fs im)(mask_id eid := None)"
    using remove_file_leak [OF inv ino(1), of e] r ino(2) by auto
  then show ?thesis by (auto simp: es_remove_def ext_fs_def fun_eq_iff)
qed

lemma es_remove_absent:
  "fs_inv im \<Longrightarrow> ext_fs im (mask_id eid) = None \<Longrightarrow> es_remove eid e im = Some (im, ext_OK, ())"
  using fs_inv_ok [of im] by (simp add: es_remove_def remove_file_def get_inode_eq ext_fs_None_iff)

end
