(* ===== verification/Extent_Client.thy ===== *)
theory Extent_Client
  imports Extent_Server
begin

text \<open>
  The RPC stubs of \<open>src/yfs/extent_client.cc\<close>. The transport (\<open>rpcc::call1\<close>) is a library
  that is not part of the sources, so what becomes of the \<open>k\<close>-th call is a parameter
  \<open>net\<close>: it is delivered and answered, it is not executed, or it is executed and its reply is
  lost; the two failures return a negative code. At-most-once execution is what that library
  documents. \<open>envs k\<close> is the environment the server runs call \<open>k\<close> in.
\<close>

datatype rpc_outcome = Delivered | Not_executed nat | Reply_lost nat

definition rpc_failure :: "nat \<Rightarrow> status" where
  "rpc_failure n = - int (n + 1)"

record extent_sys =
  x_im :: inode_manager
  x_calls :: nat

type_synonym 'r handler = "env \<Rightarrow> inode_manager \<Rightarrow> (inode_manager \<times> status \<times> 'r) option"

text \<open>
  \<open>rpcc::call_m\<close>: the reply is unmarshalled into the caller's variable unless the status is
  negative. The server side runs the handler and marshalls its reply (\<open>rpcs::reg\<close>).
\<close>

definition rpc_call :: "(nat \<Rightarrow> rpc_outcome) \<Rightarrow> (nat \<Rightarrow> env) \<Rightarrow> 'r handler \<Rightarrow> 'r \<Rightarrow> extent_sys \<Rightarrow>
    (extent_sys \<times> status \<times> 'r) option" where
  "rpc_call net envs h r s =
     (let k = x_calls s; s1 = s\<lparr>x_calls := k + 1\<rparr>
      in case net k of
           Not_executed n \<Rightarrow> Some (s1, rpc_failure n, r)
         | Reply_lost n \<Rightarrow> do {
             (im', ret, r') \<leftarrow> h (envs k) (x_im s);
             Some (s1\<lparr>x_im := im'\<rparr>, rpc_failure n, r) }
         | Delivered \<Rightarrow> do {
             (im', ret, r') \<leftarrow> h (envs k) (x_im s);
             Some (s1\<lparr>x_im := im'\<rparr>, ret, if ret < 0 then r else r') })"

definition cl_create where
  "cl_create net envs ty eid = rpc_call net envs (es_create ty) eid"

definition cl_get where
  "cl_get net envs eid buf = rpc_call net envs (es_get eid) buf"

definition cl_getattr where
  "cl_getattr net envs eid a = rpc_call net envs (es_getattr eid) a"

text \<open>\<open>put\<close> and \<open>remove\<close> abort the process (\<open>VERIFY\<close>) unless the status is \<open>OK\<close>.\<close>

definition cl_put :: "(nat \<Rightarrow> rpc_outcome) \<Rightarrow> (nat \<Rightarrow> env) \<Rightarrow> nat \<Rightarrow> string \<Rightarrow> extent_sys \<Rightarrow> (extent_sys \<times> status) option" where
  "cl_put net envs eid buf s =
     do { (s', ret, r) \<leftarrow> rpc_call net envs (es_put eid buf) () s;
          (if ret = ext_OK then Some (s', ret) else None) }"

definition cl_remove :: "(nat \<Rightarrow> rpc_outcome) \<Rightarrow> (nat \<Rightarrow> env) \<Rightarrow> nat \<Rightarrow> extent_sys \<Rightarrow> (extent_sys \<times> status) option" where
  "cl_remove net envs eid s =
     do { (s', ret, r) \<leftarrow> rpc_call net envs (es_remove eid) () s;
          (if ret = ext_OK then Some (s', ret) else None) }"

definition cl_get_block_ids where
  "cl_get_block_ids net envs eid block_ids = rpc_call net envs (es_get_block_ids eid) block_ids"

definition cl_read_block where
  "cl_read_block net envs bid buf = rpc_call net envs (es_read_block bid) buf"

definition cl_write_block :: "(nat \<Rightarrow> rpc_outcome) \<Rightarrow> (nat \<Rightarrow> env) \<Rightarrow> nat \<Rightarrow> string \<Rightarrow> extent_sys \<Rightarrow> (extent_sys \<times> status) option" where
  "cl_write_block net envs bid buf s =
     map_option (\<lambda>(s', ret, r). (s', ret)) (rpc_call net envs (es_write_block bid buf) () s)"

definition cl_append_block where
  "cl_append_block net envs eid bid = rpc_call net envs (es_append_block eid) bid"

definition cl_complete :: "(nat \<Rightarrow> rpc_outcome) \<Rightarrow> (nat \<Rightarrow> env) \<Rightarrow> nat \<Rightarrow> nat \<Rightarrow> extent_sys \<Rightarrow> (extent_sys \<times> status) option" where
  "cl_complete net envs eid sz s =
     map_option (\<lambda>(s', ret, r). (s', ret)) (rpc_call net envs (es_complete eid sz) () s)"

section \<open>A network that delivers\<close>

definition reliable :: "(nat \<Rightarrow> rpc_outcome) \<Rightarrow> bool" where
  "reliable net \<longleftrightarrow> (\<forall>k. net k = Delivered)"

lemma rpc_call_reliable:
  assumes "reliable net" and "h (envs (x_calls s)) (x_im s) = Some (im', ret, r')" and "0 \<le> ret"
  shows "rpc_call net envs h r s = Some (s\<lparr>x_calls := x_calls s + 1, x_im := im'\<rparr>, ret, r')"
  using assms by (simp add: rpc_call_def reliable_def)

text \<open>A request that is not executed leaves the server's files alone and reports a negative status.\<close>

lemma rpc_call_not_executed:
  "net (x_calls s) = Not_executed n \<Longrightarrow>
     rpc_call net envs h r s = Some (s\<lparr>x_calls := x_calls s + 1\<rparr>, rpc_failure n, r) \<and> rpc_failure n < 0"
  by (simp add: rpc_call_def rpc_failure_def)

lemma cl_put_unreliable: "net (x_calls s) \<noteq> Delivered \<Longrightarrow> cl_put net envs eid buf s = None"
  by (cases "net (x_calls s)")
    (auto simp: cl_put_def rpc_call_def rpc_failure_def ext_OK_def Let_def Option.bind_eq_None_conv)

end
