(* ===== verification/Lock_Server.thy ===== *)
theory Lock_Server
  imports Extent_Client
begin

text \<open>
  The plain lock service: \<open>src/yfs/lock_server.cc\<close> and the stubs of
  \<open>src/yfs/lock_client.cc\<close>. A handler runs under the server's mutex, so its body is one step;
  \<open>acquire\<close> can be split at \<open>pthread_cond_wait\<close>, where the mutex is given up. The step
  relation \<open>lock_step\<close> lets any number of handler threads interleave at these points, with
  wake-ups by \<open>pthread_cond_signal\<close> and the spurious ones POSIX permits.
\<close>

section \<open>The server\<close>

definition lck_OK :: status where "lck_OK = 0"
definition lck_RETRY :: status where "lck_RETRY = 1"
definition lck_RPCERR :: status where "lck_RPCERR = 2"
definition lck_NOENT :: status where "lck_NOENT = 3"
definition lck_IOERR :: status where "lck_IOERR = 4"

record lock_config =
  lock_status :: bool
  lock_owner :: int

record lock_server =
  nacquire :: int
  lock_map :: "nat \<rightharpoonup> lock_config"

definition new_lock_server :: lock_server where
  "new_lock_server = \<lparr>nacquire = 0, lock_map = Map.empty\<rparr>"

definition ls_stat :: "int \<Rightarrow> nat \<Rightarrow> lock_server \<Rightarrow> status \<times> int" where
  "ls_stat clt lid s = (lck_OK, nacquire s)"

text \<open>The condition of the wait loop, false also for a lock that does not exist yet.\<close>

definition ls_must_wait :: "nat \<Rightarrow> lock_server \<Rightarrow> bool" where
  "ls_must_wait lid s = (case lock_map s lid of None \<Rightarrow> False | Some c \<Rightarrow> lock_status c)"

text \<open>What both branches do once the lock is free, or new.\<close>

definition ls_grant :: "int \<Rightarrow> nat \<Rightarrow> lock_server \<Rightarrow> lock_server" where
  "ls_grant clt lid s =
     s\<lparr>lock_map := (lock_map s)(lid \<mapsto> \<lparr>lock_status = True, lock_owner = clt\<rparr>), nacquire := nacquire s + 1\<rparr>"

text \<open>
  \<open>acquire\<close> and \<open>release\<close> as calls. \<open>None\<close> is a call that blocks in the wait loop. The
  third component is the reply, \<open>None\<close> where the code does not assign it.
\<close>

definition ls_acquire :: "int \<Rightarrow> nat \<Rightarrow> lock_server \<Rightarrow> (lock_server \<times> status \<times> int option) option" where
  "ls_acquire clt lid s =
     (if clt < 0 then Some (s, lck_RPCERR, None)
      else if ls_must_wait lid s then None
      else Some (ls_grant clt lid s, lck_OK, Some (c_int lid)))"

definition ls_release :: "int \<Rightarrow> nat \<Rightarrow> lock_server \<Rightarrow> lock_server \<times> status \<times> int option" where
  "ls_release clt lid s =
     (if clt < 0 then (s, lck_RPCERR, None)
      else case lock_map s lid of
             None \<Rightarrow> (s, lck_NOENT, Some (c_int lid))
           | Some c \<Rightarrow>
               (if lock_status c
                then (s\<lparr>lock_map := (lock_map s)(lid \<mapsto> c\<lparr>lock_status := False\<rparr>), nacquire := nacquire s - 1\<rparr>,
                      lck_OK, Some (c_int lid))
                else (s, lck_RETRY, Some (c_int lid))))"

section \<open>The client stubs\<close>

record lock_sys =
  l_srv :: lock_server
  l_calls :: nat

text \<open>
  \<open>VERIFY (ret == lock_protocol::OK)\<close> aborts on every other status, in particular when the
  call is not delivered. The stubs return the reply \<open>r\<close>, not the status.
\<close>

definition lc_acquire :: "(nat \<Rightarrow> rpc_outcome) \<Rightarrow> int \<Rightarrow> nat \<Rightarrow> lock_sys \<Rightarrow> (lock_sys \<times> int option) option" where
  "lc_acquire net clt lid s =
     (case net (l_calls s) of
        Delivered \<Rightarrow> do {
          (srv', ret, r) \<leftarrow> ls_acquire clt lid (l_srv s);
          (if ret = lck_OK then Some (s\<lparr>l_srv := srv', l_calls := l_calls s + 1\<rparr>, r) else None) }
      | _ \<Rightarrow> None)"

definition lc_release :: "(nat \<Rightarrow> rpc_outcome) \<Rightarrow> int \<Rightarrow> nat \<Rightarrow> lock_sys \<Rightarrow> (lock_sys \<times> int option) option" where
  "lc_release net clt lid s =
     (case net (l_calls s) of
        Delivered \<Rightarrow>
          (let (srv', ret, r) = ls_release clt lid (l_srv s)
           in if ret = lck_OK then Some (s\<lparr>l_srv := srv', l_calls := l_calls s + 1\<rparr>, r) else None)
      | _ \<Rightarrow> None)"

definition lc_stat :: "(nat \<Rightarrow> rpc_outcome) \<Rightarrow> int \<Rightarrow> nat \<Rightarrow> lock_sys \<Rightarrow> (lock_sys \<times> int) option" where
  "lc_stat net clt lid s =
     (case net (l_calls s) of
        Delivered \<Rightarrow>
          (let (ret, r) = ls_stat clt lid (l_srv s)
           in if ret = lck_OK then Some (s\<lparr>l_calls := l_calls s + 1\<rparr>, r) else None)
      | _ \<Rightarrow> None)"

definition held_locks :: "lock_server \<Rightarrow> nat set" where
  "held_locks s = {lid. ls_must_wait lid s}"

lemma held_grant [simp]: "held_locks (ls_grant clt lid s) = insert lid (held_locks s)"
  by (auto simp: held_locks_def ls_must_wait_def ls_grant_def)

lemma held_new [simp]: "held_locks new_lock_server = {}"
  by (simp add: held_locks_def ls_must_wait_def new_lock_server_def)

lemma ls_release_held:
  "0 \<le> clt \<Longrightarrow> lid \<in> held_locks s \<Longrightarrow>
     \<exists>s'. ls_release clt lid s = (s', lck_OK, Some (c_int lid)) \<and> held_locks s' = held_locks s - {lid}"
  by (auto simp: ls_release_def held_locks_def ls_must_wait_def split: option.splits)

lemma ls_release_free:
  "lid \<notin> held_locks s \<Longrightarrow> fst (ls_release clt lid s) = s \<and> fst (snd (ls_release clt lid s)) \<noteq> lck_OK"
  by (auto simp: ls_release_def held_locks_def ls_must_wait_def lck_OK_def lck_RPCERR_def lck_NOENT_def
      lck_RETRY_def split: option.splits)

lemma must_wait_held [simp]: "ls_must_wait lid s \<longleftrightarrow> lid \<in> held_locks s"
  by (simp add: held_locks_def)

section \<open>Threads\<close>

text \<open>
  A handler thread that called \<open>pthread_cond_wait\<close> is asleep until it is woken; a woken
  thread tests the loop condition again once it has the mutex.
\<close>

record lock_threads =
  lt_srv :: lock_server
  asleep :: "nat \<rightharpoonup> int \<times> nat"
  awake :: "nat \<rightharpoonup> int \<times> nat"

datatype lock_event = Granted int nat | Released int nat

inductive lock_step :: "lock_threads \<Rightarrow> lock_event list \<Rightarrow> lock_threads \<Rightarrow> bool" where
  refuse: "(clt :: int) < 0 \<Longrightarrow> lock_step s [] s"
| acquire_now: "0 \<le> clt \<Longrightarrow> \<not> ls_must_wait lid (lt_srv s) \<Longrightarrow>
    lock_step s [Granted clt lid] (s\<lparr>lt_srv := ls_grant clt lid (lt_srv s)\<rparr>)"
| acquire_sleep: "0 \<le> clt \<Longrightarrow> ls_must_wait lid (lt_srv s) \<Longrightarrow> asleep s t = None \<Longrightarrow> awake s t = None \<Longrightarrow>
    lock_step s [] (s\<lparr>asleep := (asleep s)(t \<mapsto> (clt, lid))\<rparr>)"
| sleep_again: "awake s t = Some (clt, lid) \<Longrightarrow> ls_must_wait lid (lt_srv s) \<Longrightarrow>
    lock_step s [] (s\<lparr>awake := (awake s)(t := None), asleep := (asleep s)(t \<mapsto> (clt, lid))\<rparr>)"
| wake_grant: "awake s t = Some (clt, lid) \<Longrightarrow> \<not> ls_must_wait lid (lt_srv s) \<Longrightarrow>
    lock_step s [Granted clt lid]
      (s\<lparr>awake := (awake s)(t := None), lt_srv := ls_grant clt lid (lt_srv s)\<rparr>)"
| spurious: "asleep s t = Some w \<Longrightarrow>
    lock_step s [] (s\<lparr>asleep := (asleep s)(t := None), awake := (awake s)(t \<mapsto> w)\<rparr>)"
| release_none: "0 \<le> clt \<Longrightarrow> ls_release clt lid (lt_srv s) = (srv', ret, r) \<Longrightarrow> asleep s = Map.empty \<Longrightarrow>
    lock_step s (if ret = lck_OK then [Released clt lid] else []) (s\<lparr>lt_srv := srv'\<rparr>)"
| release_signal: "0 \<le> clt \<Longrightarrow> ls_release clt lid (lt_srv s) = (srv', ret, r) \<Longrightarrow> asleep s t = Some w \<Longrightarrow>
    lock_step s (if ret = lck_OK then [Released clt lid] else [])
      (s\<lparr>lt_srv := srv', asleep := (asleep s)(t := None), awake := (awake s)(t \<mapsto> w)\<rparr>)"

definition no_threads :: lock_threads where
  "no_threads = \<lparr>lt_srv = new_lock_server, asleep = Map.empty, awake = Map.empty\<rparr>"

inductive lock_run :: "lock_event list \<Rightarrow> lock_threads \<Rightarrow> bool" where
  start: "lock_run [] no_threads"
| step: "lock_run evs s \<Longrightarrow> lock_step s ev s' \<Longrightarrow> lock_run (evs @ ev) s'"

inductive_cases lock_stepE: "lock_step s ev s'"

text \<open>
  \<open>holder_after lid evs\<close> follows the grants and releases of one lock: \<open>None\<close> when a lock is
  granted while it is held, or released while it is free; else whether it is held at the end.
\<close>

fun holder_step :: "nat \<Rightarrow> bool option \<Rightarrow> lock_event \<Rightarrow> bool option" where
  "holder_step lid None ev = None"
| "holder_step lid (Some h) (Granted c l) = (if l = lid then (if h then None else Some True) else Some h)"
| "holder_step lid (Some h) (Released c l) = (if l = lid then (if h then Some False else None) else Some h)"

definition holder_after :: "nat \<Rightarrow> lock_event list \<Rightarrow> bool option" where
  "holder_after lid evs = foldl (holder_step lid) (Some False) evs"

lemma holder_after_snoc: "holder_after lid (evs @ [ev]) = holder_step lid (holder_after lid evs) ev"
  by (simp add: holder_after_def)

lemma ls_release_event:
  assumes "ls_release clt lid srv = (srv', ret, r)"
  shows "if ret = lck_OK then lid \<in> held_locks srv \<and> held_locks srv' = held_locks srv - {lid} else srv' = srv"
proof (cases "lid \<in> held_locks srv \<and> 0 \<le> clt")
  case True
  then show ?thesis using assms ls_release_held [of clt lid srv] by auto
next
  case False
  then show ?thesis
    using assms ls_release_free [of lid srv clt] by (auto simp: ls_release_def lck_OK_def lck_RPCERR_def split: if_splits)
qed

lemma lock_step_holder:
  assumes "lock_step s ev s'" and "holder_after lid evs = Some (lid \<in> held_locks (lt_srv s))"
  shows "holder_after lid (evs @ ev) = Some (lid \<in> held_locks (lt_srv s'))"
  using assms
proof cases
  case (release_none clt l srv' ret r)
  then show ?thesis
    using assms(2) ls_release_event [OF release_none(4)] by (auto simp: holder_after_snoc split: if_splits)
next
  case (release_signal clt l srv' ret r t w)
  then show ?thesis
    using assms(2) ls_release_event [OF release_signal(4)] by (auto simp: holder_after_snoc split: if_splits)
qed (auto simp: holder_after_snoc)

lemma lock_run_holder: "lock_run evs s \<Longrightarrow> holder_after lid evs = Some (lid \<in> held_locks (lt_srv s))"
proof (induction rule: lock_run.induct)
  case start
  then show ?case by (simp add: holder_after_def no_threads_def)
next
  case (step evs s ev s')
  then show ?case using lock_step_holder by blast
qed

text \<open>The counter of \<open>stat\<close> counts the locks that are held, not the acquires.\<close>

lemma finite_held_step:
  assumes "lock_step s ev s'" and "finite (held_locks (lt_srv s))"
    and "nacquire (lt_srv s) = int (card (held_locks (lt_srv s)))"
  shows "finite (held_locks (lt_srv s')) \<and> nacquire (lt_srv s') = int (card (held_locks (lt_srv s')))"
proof -
  have grant: "nacquire (ls_grant c l srv) = int (card (insert l (held_locks srv)))"
    if "l \<notin> held_locks srv" "finite (held_locks srv)" "nacquire srv = int (card (held_locks srv))" for c l srv
    using that by (simp add: ls_grant_def)
  have rel: "finite (held_locks srv') \<and> nacquire srv' = int (card (held_locks srv'))"
    if r: "ls_release c l srv = (srv', ret, x)" and "finite (held_locks srv)"
      "nacquire srv = int (card (held_locks srv))" for c l srv srv' ret x
  proof (cases "ret = lck_OK")
    case True
    then have "nacquire srv' = nacquire srv - 1"
      using r by (auto simp: ls_release_def lck_OK_def lck_RPCERR_def lck_NOENT_def lck_RETRY_def
          split: if_splits option.splits)
    moreover have "l \<in> held_locks srv" "held_locks srv' = held_locks srv - {l}"
      using ls_release_event [OF r] True by simp_all
    ultimately show ?thesis
      using that(2,3) card_Suc_Diff1 [of "held_locks srv" l] by simp
  next
    case False
    then show ?thesis using ls_release_event [OF r] that by simp
  qed
  show ?thesis
    using assms(1)
  proof cases
    case (release_none clt lid srv' ret r)
    then show ?thesis using rel [OF release_none(4) assms(2,3)] by simp
  next
    case (release_signal clt lid srv' ret r t w)
    then show ?thesis using rel [OF release_signal(4) assms(2,3)] by simp
  next
    case (acquire_now clt lid)
    then show ?thesis using assms(2,3) grant [OF _ assms(2,3), of lid clt] by simp
  next
    case (wake_grant t clt lid)
    then show ?thesis using assms(2,3) grant [OF _ assms(2,3), of lid clt] by simp
  next
    case refuse
    then show ?thesis using assms(2,3) by simp
  next
    case acquire_sleep
    then show ?thesis using assms(2,3) by simp
  next
    case sleep_again
    then show ?thesis using assms(2,3) by simp
  next
    case spurious
    then show ?thesis using assms(2,3) by simp
  qed
qed

lemma lock_run_nacquire:
  "lock_run evs s \<Longrightarrow> finite (held_locks (lt_srv s)) \<and> nacquire (lt_srv s) = int (card (held_locks (lt_srv s)))"
proof (induction rule: lock_run.induct)
  case start
  then show ?case by (simp add: no_threads_def) (simp add: new_lock_server_def)
next
  case (step evs s ev s')
  then show ?case using finite_held_step by blast
qed

section \<open>Theorems\<close>

lemma holder_step_None: "foldl (holder_step lid) None evs = None"
  by (induction evs) simp_all

lemma holder_kept:
  "(\<And>c. Released c lid \<notin> set evs) \<Longrightarrow> foldl (holder_step lid) (Some True) evs \<noteq> Some False"
proof (induction evs)
  case (Cons e evs)
  then show ?case by (cases e) (auto simp: holder_step_None)
qed simp

text \<open>
  C5. Mutual exclusion: in every interleaving of handler threads, with signals and spurious wake-ups, a lock that was granted is
  not granted again before it has been released.
\<close>

theorem lock_mutual_exclusion:
  assumes "lock_run (as @ Granted c lid # bs @ Granted d lid # cs) s"
  shows "\<exists>c'. Released c' lid \<in> set bs"
proof (rule ccontr)
  assume none: "\<nexists>c'. Released c' lid \<in> set bs"
  let ?f = "foldl (holder_step lid)"
  have "?f (holder_step lid (?f (holder_step lid (?f (Some False) as) (Granted c lid)) bs) (Granted d lid)) cs \<noteq> None"
    using lock_run_holder [OF assms, of lid] by (simp add: holder_after_def)
  then have 2: "holder_step lid (?f (holder_step lid (?f (Some False) as) (Granted c lid)) bs) (Granted d lid) \<noteq> None"
    by (metis holder_step_None)
  then have 1: "holder_step lid (?f (Some False) as) (Granted c lid) \<noteq> None"
    by (metis holder_step_None holder_step.simps(1))
  then have "holder_step lid (?f (Some False) as) (Granted c lid) = Some True"
    by (cases "?f (Some False) as") (auto split: if_splits)
  then show False
    using 2 none holder_kept [of lid bs] by (cases "?f (Some True) bs") (auto split: if_splits)
qed

lemma lock_run_snoc: "lock_run evs s \<Longrightarrow> lock_step s ev s' \<Longrightarrow> evs' = evs @ ev \<Longrightarrow> lock_run evs' s'"
  by (simp add: lock_run.step)

text \<open>The server after client 1 has been granted lock \<open>lid\<close>, and after it has released it again.\<close>

definition held_by_1 :: "nat \<Rightarrow> lock_threads" where
  "held_by_1 lid = no_threads\<lparr>lt_srv := ls_grant 1 lid new_lock_server\<rparr>"

lemma run_held_by_1: "lock_run [Granted 1 lid] (held_by_1 lid)"
proof (rule lock_run_snoc [OF lock_run.start])
  show "lock_step no_threads [Granted 1 lid] (held_by_1 lid)"
    using lock_step.acquire_now [of 1 lid no_threads] by (simp add: no_threads_def held_by_1_def)
qed simp

theorem lock_mutual_exclusion_witness:
  "\<exists>s. lock_run [Granted 1 5, Released 1 5, Granted 2 5] s \<and> (\<exists>c. Released c 5 \<in> set [Released 1 5])"
proof -
  let ?s = "held_by_1 5"
  obtain srv r where rel: "ls_release 1 5 (lt_srv ?s) = (srv, lck_OK, r)" "held_locks srv = {}"
    using ls_release_held [of 1 5 "lt_srv ?s"] by (auto simp: held_by_1_def)
  have "lock_step ?s [Released 1 5] (?s\<lparr>lt_srv := srv\<rparr>)"
    using lock_step.release_none [OF _ rel(1)] by (simp add: held_by_1_def no_threads_def)
  then have "lock_run ([Granted 1 5] @ [Released 1 5]) (?s\<lparr>lt_srv := srv\<rparr>)"
    by (rule lock_run.step [OF run_held_by_1])
  moreover have "lock_step (?s\<lparr>lt_srv := srv\<rparr>) [Granted 2 5] (?s\<lparr>lt_srv := ls_grant 2 5 srv\<rparr>)"
    using lock_step.acquire_now [of 2 5 "?s\<lparr>lt_srv := srv\<rparr>"] rel(2) by simp
  ultimately have "lock_run (([Granted 1 5] @ [Released 1 5]) @ [Granted 2 5]) (?s\<lparr>lt_srv := ls_grant 2 5 srv\<rparr>)"
    by (rule lock_run.step)
  then have run: "lock_run ([] @ Granted 1 5 # [Released 1 5] @ Granted 2 5 # []) (?s\<lparr>lt_srv := ls_grant 2 5 srv\<rparr>)"
    by simp
  from lock_mutual_exclusion [OF this] show ?thesis using run by auto
qed

text \<open>
  The number \<open>stat\<close> returns is the number of locks that are held at that moment.
\<close>

lemma stat_counts_held_locks:
  assumes "lock_run evs s"
  shows "ls_stat clt lid (lt_srv s) = (lck_OK, int (card (held_locks (lt_srv s)))) \<and> finite (held_locks (lt_srv s))"
  using lock_run_nacquire [OF assms] by (simp add: ls_stat_def)

lemma stat_counts_held_locks_witness: "ls_stat 1 5 (lt_srv (held_by_1 5)) = (lck_OK, 1)"
  using stat_counts_held_locks [OF run_held_by_1, of 1 5 5] by (simp add: held_by_1_def)

text \<open>
  C38. A wake-up can be lost. All waiting threads share one condition variable, and \<open>release\<close> wakes just one of them: there is a run
  after which a lock is free, a thread sleeps waiting for that very lock, and no thread is awake. The run: clients 1 and 2 hold the
  locks 1 and 2, a thread waits for each of them, lock 1 is released, and the signal goes to the thread that waits for lock 2.
\<close>

theorem lost_wakeup:
  "\<exists>evs s t clt lid. lock_run evs s \<and> asleep s t = Some (clt, lid) \<and> \<not> ls_must_wait lid (lt_srv s) \<and> awake s = Map.empty"
proof -
  let ?v = "ls_grant 2 2 (ls_grant 1 1 new_lock_server)"
  let ?s2 = "no_threads\<lparr>lt_srv := ?v\<rparr>"
  have "lock_step (held_by_1 1) [Granted 2 2] ?s2"
    using lock_step.acquire_now [of 2 2 "held_by_1 1"] by (simp add: held_by_1_def no_threads_def)
  then have r2: "lock_run ([Granted 1 1] @ [Granted 2 2]) ?s2" by (rule lock_run.step [OF run_held_by_1])
  let ?s3 = "?s2\<lparr>asleep := [1 \<mapsto> (3, 1)]\<rparr>"
  have "lock_step ?s2 [] ?s3"
    using lock_step.acquire_sleep [of 3 1 ?s2 1] by (simp add: no_threads_def)
  then have r3: "lock_run (([Granted 1 1] @ [Granted 2 2]) @ []) ?s3" by (rule lock_run.step [OF r2])
  let ?s4 = "?s2\<lparr>asleep := [1 \<mapsto> (3, 1), 2 \<mapsto> (4, 2)]\<rparr>"
  have "lock_step ?s3 [] ?s4"
    using lock_step.acquire_sleep [of 4 2 ?s3 2] by (simp add: no_threads_def)
  then have r4: "lock_run ((([Granted 1 1] @ [Granted 2 2]) @ []) @ []) ?s4" by (rule lock_run.step [OF r3])
  obtain w r where rel: "ls_release 1 1 ?v = (w, lck_OK, r)" "held_locks w = {2}"
    using ls_release_held [of 1 1 ?v] by (auto simp: insert_Diff_if)
  let ?s5 = "?s2\<lparr>lt_srv := w, asleep := [1 \<mapsto> (3, 1)], awake := [2 \<mapsto> (4, 2)]\<rparr>"
  have upd: "[1 \<mapsto> (3, 1)](2 := None) = [1 :: nat \<mapsto> (3 :: int, 1 :: nat)]" by (rule ext) simp
  have "lock_step ?s4 [Released 1 1] ?s5"
    using lock_step.release_signal [of 1 1 ?s4 w lck_OK r 2 "(4, 2)"] rel(1) upd by (simp add: no_threads_def)
  then have r5: "lock_run (((([Granted 1 1] @ [Granted 2 2]) @ []) @ []) @ [Released 1 1]) ?s5" by (rule lock_run.step [OF r4])
  let ?s6 = "?s2\<lparr>lt_srv := w, asleep := [1 \<mapsto> (3, 1), 2 \<mapsto> (4, 2)], awake := Map.empty\<rparr>"
  have "lock_step ?s5 [] ?s6"
    using lock_step.sleep_again [of ?s5 2 4 2] rel(2) by (simp add: no_threads_def)
  then have "lock_run ((((([Granted 1 1] @ [Granted 2 2]) @ []) @ []) @ [Released 1 1]) @ []) ?s6" by (rule lock_run.step [OF r5])
  moreover have "asleep ?s6 1 = Some (3, 1)" "\<not> ls_must_wait 1 (lt_srv ?s6)" "awake ?s6 = Map.empty" using rel(2) by simp_all
  ultimately show ?thesis by blast
qed

end
