(* ===== verification/Lock_Cache.thy ===== *)
theory Lock_Cache
  imports Lock_Server "HOL-Library.List_Lexorder" "HOL-Library.Char_ord"
begin

text \<open>
  The caching lock service: \<open>src/yfs/lock_server_cache.cc\<close> and
  \<open>src/yfs/lock_client_cache.cc\<close>. A client keeps a released lock until the server revokes it,
  and a client that finds the lock taken waits for the server's retry call. Both sides call each
  other, so a thread of control passes from process to process; it is a stack of \<open>frame\<close>s,
  and one step runs the top frame from one point where it holds no client mutex to the next.

  Every access to a lock of a client is made under the lock's mutex, which is never held during a
  call. The server's mutex of a lock is held during the calls \<open>release\<close> makes, and is therefore
  part of the state. The threads that sleep on a condition variable may wake up at any time, as
  POSIX permits, so the broadcasts do not appear. A call may be lost, or its reply.
\<close>

section \<open>State\<close>

text \<open>\<open>wait_list\<close> is a \<open>std::set\<close>: a sorted list without repetitions.\<close>

record server_lock =
  sl_state :: bool
  sl_owner :: string
  sl_wait :: "string list"
  sl_revoke :: bool

datatype client_state = NONE | FREE | LOCKED | ACQUIRING | RELEASING

record client_lock =
  cl_state :: client_state
  cl_revoke :: bool
  cl_retry :: bool

text \<open>
  The frames. Those of a client name the client and the lock, those of the server the lock and
  the client that called. A frame \<open>.._call\<close> waits for the reply to a call it made, \<open>.._got\<close> has
  the reply. \<open>C_hold\<close> is the code of the client's user between \<open>acquire\<close> and \<open>release\<close>.
\<close>

datatype frame =
    C_acq string nat | C_loop string nat | C_wait string nat
  | C_acq_call string nat | C_acq_got string nat status | C_retry_wait string nat
  | C_hold string nat
  | C_rel string nat | C_rel_call string nat | C_rel_got string nat status
  | C_revoke string nat | C_revoke_call string nat | C_revoke_got string nat status
  | C_retry string nat
  | S_acq nat string | S_acq_lock nat string | S_acq_owner nat string
  | S_acq_call nat string | S_acq_got nat string status
  | S_rel nat string | S_rel_lock nat string
  | S_retry_call nat string string | S_retry_got nat string string status
  | S_revoke_call nat string | S_revoke_got nat string status

record cache_sys =
  lsc_nacquire :: int
  lsc_map :: "nat \<rightharpoonup> server_lock"
  lsc_mutex :: "nat \<Rightarrow> nat option"
  lcc_map :: "string \<Rightarrow> nat \<rightharpoonup> client_lock"
  stack :: "nat \<Rightarrow> frame list"

text \<open>
  What a step of a frame comes to: it may have to wait, it may run into \<open>VERIFY(0)\<close>, or it
  changes the state and goes on at another frame, calls a handler, or returns a status.
\<close>

datatype cont = Goto frame | Call frame frame | Return status

datatype outcome = Blocked | Abort | Do cache_sys cont

definition set_client :: "string \<Rightarrow> nat \<Rightarrow> client_lock \<Rightarrow> cache_sys \<Rightarrow> cache_sys" where
  "set_client c l p s = s\<lparr>lcc_map := (lcc_map s)(c := (lcc_map s c)(l \<mapsto> p))\<rparr>"

definition set_server :: "nat \<Rightarrow> server_lock \<Rightarrow> cache_sys \<Rightarrow> cache_sys" where
  "set_server l p s = s\<lparr>lsc_map := (lsc_map s)(l \<mapsto> p)\<rparr>"

definition set_mutex :: "nat \<Rightarrow> nat option \<Rightarrow> cache_sys \<Rightarrow> cache_sys" where
  "set_mutex l m s = s\<lparr>lsc_mutex := (lsc_mutex s)(l := m)\<rparr>"

section \<open>The server\<close>

text \<open>
  \<open>acquire\<close>: the entry of a new lock is made under the mutex of the map; the rest runs under the
  mutex of the lock, up to the revoke call. The owner is read after the mutex is given up.
  \<open>up d\<close> tells whether a connection to the address \<open>d\<close> can be bound.
\<close>

definition lsc_acquire_new :: "nat \<Rightarrow> string \<Rightarrow> cache_sys \<Rightarrow> outcome" where
  "lsc_acquire_new l c s =
     (let s' = (case lsc_map s l of
                  None \<Rightarrow> set_server l \<lparr>sl_state = False, sl_owner = '''', sl_wait = [], sl_revoke = False\<rparr> s
                | Some _ \<Rightarrow> s)
      in Do (s'\<lparr>lsc_nacquire := lsc_nacquire s + 1\<rparr>) (Goto (S_acq_lock l c)))"

definition lsc_acquire_lock :: "nat \<Rightarrow> string \<Rightarrow> cache_sys \<Rightarrow> outcome" where
  "lsc_acquire_lock l c s =
     (case lsc_map s l of None \<Rightarrow> Abort | Some p \<Rightarrow>
      if lsc_mutex s l \<noteq> None then Blocked
      else if \<not> sl_state p then
        Do (set_server l \<lparr>sl_state = True, sl_owner = c, sl_wait = remove1 c (sl_wait p), sl_revoke = False\<rparr> s)
           (Return lck_OK)
      else let p = p\<lparr>sl_wait := insort_insert c (sl_wait p)\<rparr> in
        if sl_revoke p then Do (set_server l p s) (Return lck_RETRY)
        else Do (set_server l (p\<lparr>sl_revoke := True\<rparr>) s) (Goto (S_acq_owner l c)))"

definition lsc_acquire_owner :: "(string \<Rightarrow> bool) \<Rightarrow> nat \<Rightarrow> string \<Rightarrow> cache_sys \<Rightarrow> outcome" where
  "lsc_acquire_owner up l c s =
     (case lsc_map s l of None \<Rightarrow> Abort | Some p \<Rightarrow>
      if up (sl_owner p) then Do s (Call (S_acq_call l c) (C_revoke (sl_owner p) l)) else Abort)"

definition lsc_acquire_revoked :: "nat \<Rightarrow> string \<Rightarrow> status \<Rightarrow> cache_sys \<Rightarrow> outcome" where
  "lsc_acquire_revoked l c st s = (if st \<noteq> lck_OK then Abort else Do s (Return lck_RETRY))"

text \<open>\<open>release\<close>: the mutex of the lock is held by thread \<open>t\<close> during both calls.\<close>

definition lsc_release_find :: "nat \<Rightarrow> string \<Rightarrow> cache_sys \<Rightarrow> outcome" where
  "lsc_release_find l c s =
     (if lsc_map s l = None then Abort else Do s (Goto (S_rel_lock l c)))"

definition lsc_release_lock :: "(string \<Rightarrow> bool) \<Rightarrow> nat \<Rightarrow> nat \<Rightarrow> string \<Rightarrow> cache_sys \<Rightarrow> outcome" where
  "lsc_release_lock up t l c s =
     (case lsc_map s l of None \<Rightarrow> Abort | Some p \<Rightarrow>
      if lsc_mutex s l \<noteq> None then Blocked
      else let s' = set_server l (p\<lparr>sl_state := False, sl_owner := '''', sl_revoke := False\<rparr>) s in
        case sl_wait p of
          [] \<Rightarrow> Do s' (Return lck_OK)
        | d # _ \<Rightarrow>
            if up d then Do (set_mutex l (Some t) s') (Call (S_retry_call l c d) (C_retry d l)) else Abort)"

definition lsc_release_retried :: "nat \<Rightarrow> string \<Rightarrow> string \<Rightarrow> status \<Rightarrow> cache_sys \<Rightarrow> outcome" where
  "lsc_release_retried l c d st s =
     (case lsc_map s l of None \<Rightarrow> Abort | Some p \<Rightarrow>
      if st \<noteq> lck_OK then Abort
      else if length (sl_wait p) > 1 then Do s (Call (S_revoke_call l c) (C_revoke d l))
      else Do (set_mutex l None s) (Return lck_OK))"

definition lsc_release_revoked :: "nat \<Rightarrow> string \<Rightarrow> status \<Rightarrow> cache_sys \<Rightarrow> outcome" where
  "lsc_release_revoked l c st s = Do (set_mutex l None s) (Return st)"

definition lsc_stat :: "nat \<Rightarrow> cache_sys \<Rightarrow> status \<times> int" where
  "lsc_stat l s = (lck_OK, lsc_nacquire s)"

section \<open>The client\<close>

definition lcc_acquire_new :: "string \<Rightarrow> nat \<Rightarrow> cache_sys \<Rightarrow> outcome" where
  "lcc_acquire_new c l s =
     Do (case lcc_map s c l of
           None \<Rightarrow> set_client c l \<lparr>cl_state = NONE, cl_revoke = False, cl_retry = False\<rparr> s
         | Some _ \<Rightarrow> s) (Goto (C_loop c l))"

text \<open>One round of the loop on the state of the lock.\<close>

definition lcc_loop :: "string \<Rightarrow> nat \<Rightarrow> cache_sys \<Rightarrow> outcome" where
  "lcc_loop c l s =
     (case lcc_map s c l of None \<Rightarrow> Abort | Some p \<Rightarrow>
      case cl_state p of
        NONE \<Rightarrow> Do (set_client c l (p\<lparr>cl_state := ACQUIRING\<rparr>) s) (Call (C_acq_call c l) (S_acq l c))
      | FREE \<Rightarrow> Do (set_client c l (p\<lparr>cl_state := LOCKED\<rparr>) s) (Goto (C_hold c l))
      | _ \<Rightarrow> Do s (Goto (C_wait c l)))"

text \<open>After the acquire call: another status than \<open>OK\<close> and \<open>RETRY\<close> leaves the state as it is.\<close>

definition lcc_acquire_got :: "string \<Rightarrow> nat \<Rightarrow> status \<Rightarrow> cache_sys \<Rightarrow> outcome" where
  "lcc_acquire_got c l st s =
     (case lcc_map s c l of None \<Rightarrow> Abort | Some p \<Rightarrow>
      if st = lck_OK then Do (set_client c l (p\<lparr>cl_state := LOCKED\<rparr>) s) (Goto (C_hold c l))
      else if st = lck_RETRY then Do s (Goto (C_retry_wait c l))
      else lcc_loop c l s)"

definition lcc_retry_wait :: "string \<Rightarrow> nat \<Rightarrow> cache_sys \<Rightarrow> outcome" where
  "lcc_retry_wait c l s =
     (case lcc_map s c l of None \<Rightarrow> Abort | Some p \<Rightarrow>
      if cl_retry p then lcc_loop c l (set_client c l (p\<lparr>cl_state := NONE, cl_retry := False\<rparr>) s)
      else Blocked)"

definition lcc_release :: "string \<Rightarrow> nat \<Rightarrow> cache_sys \<Rightarrow> outcome" where
  "lcc_release c l s =
     (case lcc_map s c l of None \<Rightarrow> Abort | Some p \<Rightarrow>
      if cl_state p \<noteq> LOCKED then Abort
      else if \<not> cl_revoke p then Do (set_client c l (p\<lparr>cl_state := FREE\<rparr>) s) (Return lck_OK)
      else Do (set_client c l (p\<lparr>cl_state := RELEASING, cl_revoke := False\<rparr>) s)
              (Call (C_rel_call c l) (S_rel l c)))"

text \<open>Both the end of \<open>release\<close> and the end of \<open>revoke_handler\<close> after the release call.\<close>

definition lcc_released :: "string \<Rightarrow> nat \<Rightarrow> status \<Rightarrow> cache_sys \<Rightarrow> outcome" where
  "lcc_released c l st s =
     (case lcc_map s c l of None \<Rightarrow> Abort | Some p \<Rightarrow>
      if st \<noteq> lck_OK then Abort
      else Do (set_client c l (p\<lparr>cl_state := NONE\<rparr>) s) (Return lck_OK))"

definition lcc_revoke_handler :: "string \<Rightarrow> nat \<Rightarrow> cache_sys \<Rightarrow> outcome" where
  "lcc_revoke_handler c l s =
     (case lcc_map s c l of None \<Rightarrow> Abort | Some p \<Rightarrow>
      if cl_state p = FREE then
        Do (set_client c l (p\<lparr>cl_state := RELEASING\<rparr>) s) (Call (C_revoke_call c l) (S_rel l c))
      else Do (set_client c l (p\<lparr>cl_revoke := True\<rparr>) s) (Return lck_OK))"

definition lcc_retry_handler :: "string \<Rightarrow> nat \<Rightarrow> cache_sys \<Rightarrow> outcome" where
  "lcc_retry_handler c l s =
     (case lcc_map s c l of None \<Rightarrow> Abort | Some p \<Rightarrow>
      Do (set_client c l (p\<lparr>cl_retry := True\<rparr>) s) (Return lck_OK))"

section \<open>The steps of the system\<close>

text \<open>A frame that made a call, once it has the reply.\<close>

fun resume :: "frame \<Rightarrow> status \<Rightarrow> frame" where
  "resume (C_acq_call c l) st = C_acq_got c l st"
| "resume (C_rel_call c l) st = C_rel_got c l st"
| "resume (C_revoke_call c l) st = C_revoke_got c l st"
| "resume (S_acq_call l c) st = S_acq_got l c st"
| "resume (S_retry_call l c d) st = S_retry_got l c d st"
| "resume (S_revoke_call l c) st = S_revoke_got l c st"
| "resume f st = f"

fun frame_step :: "(string \<Rightarrow> bool) \<Rightarrow> nat \<Rightarrow> frame \<Rightarrow> cache_sys \<Rightarrow> outcome" where
  "frame_step up t (C_acq c l) s = lcc_acquire_new c l s"
| "frame_step up t (C_loop c l) s = lcc_loop c l s"
| "frame_step up t (C_wait c l) s = lcc_loop c l s"
| "frame_step up t (C_acq_got c l st) s = lcc_acquire_got c l st s"
| "frame_step up t (C_retry_wait c l) s = lcc_retry_wait c l s"
| "frame_step up t (C_hold c l) s = Do s (Goto (C_rel c l))"
| "frame_step up t (C_rel c l) s = lcc_release c l s"
| "frame_step up t (C_rel_got c l st) s = lcc_released c l st s"
| "frame_step up t (C_revoke c l) s = lcc_revoke_handler c l s"
| "frame_step up t (C_revoke_got c l st) s = lcc_released c l st s"
| "frame_step up t (C_retry c l) s = lcc_retry_handler c l s"
| "frame_step up t (S_acq l c) s = lsc_acquire_new l c s"
| "frame_step up t (S_acq_lock l c) s = lsc_acquire_lock l c s"
| "frame_step up t (S_acq_owner l c) s = lsc_acquire_owner up l c s"
| "frame_step up t (S_acq_got l c st) s = lsc_acquire_revoked l c st s"
| "frame_step up t (S_rel l c) s = lsc_release_find l c s"
| "frame_step up t (S_rel_lock l c) s = lsc_release_lock up t l c s"
| "frame_step up t (S_retry_got l c d st) s = lsc_release_retried l c d st s"
| "frame_step up t (S_revoke_got l c st) s = lsc_release_revoked l c st s"
| "frame_step up t _ s = Blocked"

text \<open>
  The stack after a step. With \<open>lost\<close>, a call does not reach its handler, or the reply does not
  reach the caller; the caller then sees a negative status.
\<close>

fun next_stack :: "bool \<Rightarrow> cont \<Rightarrow> frame list \<Rightarrow> frame list" where
  "next_stack lost (Goto f) fs = f # fs"
| "next_stack lost (Call f g) fs = (if lost then resume f (-1) # fs else g # f # fs)"
| "next_stack lost (Return st) [] = []"
| "next_stack lost (Return st) (f # fs) = resume f (if lost then -1 else st) # fs"

fun thread_step :: "(string \<Rightarrow> bool) \<Rightarrow> nat \<Rightarrow> bool \<Rightarrow> cache_sys \<Rightarrow> cache_sys option" where
  "thread_step up t lost s =
     (case stack s t of [] \<Rightarrow> None | f # fs \<Rightarrow>
      case frame_step up t f s of
        Do s' k \<Rightarrow> Some (s'\<lparr>stack := (stack s')(t := next_stack lost k fs)\<rparr>)
      | _ \<Rightarrow> None)"

definition start_acquire :: "nat \<Rightarrow> string \<Rightarrow> nat \<Rightarrow> cache_sys \<Rightarrow> cache_sys" where
  "start_acquire t c l s = s\<lparr>stack := (stack s)(t := [C_acq c l])\<rparr>"

text \<open>\<open>nacquire\<close> of the server is not initialised by its constructor.\<close>

definition cache_init :: "int \<Rightarrow> cache_sys" where
  "cache_init n = \<lparr>lsc_nacquire = n, lsc_map = Map.empty, lsc_mutex = (\<lambda>_. None),
                   lcc_map = (\<lambda>_. Map.empty), stack = (\<lambda>_. [])\<rparr>"

inductive cache_reach :: "(string \<Rightarrow> bool) \<Rightarrow> cache_sys \<Rightarrow> bool" for up where
  init: "cache_reach up (cache_init n)"
| start: "cache_reach up s \<Longrightarrow> stack s t = [] \<Longrightarrow> cache_reach up (start_acquire t c l s)"
| step: "cache_reach up s \<Longrightarrow> thread_step up t lost s = Some s' \<Longrightarrow> cache_reach up s'"

section \<open>Invariants\<close>

text \<open>
  A frame that is in charge of a lock of its client: no other frame of the client changes the
  state of this lock meanwhile, and the state is the one given.
\<close>

fun busy :: "frame \<Rightarrow> ((string \<times> nat) \<times> client_state) option" where
  "busy (C_acq_call c l) = Some ((c, l), ACQUIRING)"
| "busy (C_acq_got c l st) = Some ((c, l), ACQUIRING)"
| "busy (C_retry_wait c l) = Some ((c, l), ACQUIRING)"
| "busy (C_hold c l) = Some ((c, l), LOCKED)"
| "busy (C_rel c l) = Some ((c, l), LOCKED)"
| "busy (C_rel_call c l) = Some ((c, l), RELEASING)"
| "busy (C_rel_got c l st) = Some ((c, l), RELEASING)"
| "busy (C_revoke_call c l) = Some ((c, l), RELEASING)"
| "busy (C_revoke_got c l st) = Some ((c, l), RELEASING)"
| "busy _ = None"

text \<open>A frame that carries the server's grant of a lock to a client.\<close>

fun token :: "frame \<Rightarrow> (string \<times> nat) option" where
  "token (C_acq_got c l st) = (if st = lck_OK then Some (c, l) else None)"
| "token (C_hold c l) = Some (c, l)"
| "token (C_rel c l) = Some (c, l)"
| "token (S_rel l c) = Some (c, l)"
| "token (S_rel_lock l c) = Some (c, l)"
| "token _ = None"

text \<open>\<open>called g f\<close>: frame \<open>g\<close> may stand on \<open>f\<close>, having been called by it.\<close>

fun called :: "frame \<Rightarrow> frame \<Rightarrow> bool" where
  "called (S_acq l c) f = (f = C_acq_call c l)"
| "called (S_acq_lock l c) f = (f = C_acq_call c l)"
| "called (S_acq_owner l c) f = (f = C_acq_call c l)"
| "called (S_acq_call l c) f = (f = C_acq_call c l)"
| "called (S_acq_got l c st) f = (f = C_acq_call c l)"
| "called (S_rel l c) f = (f = C_rel_call c l \<or> f = C_revoke_call c l)"
| "called (S_rel_lock l c) f = (f = C_rel_call c l \<or> f = C_revoke_call c l)"
| "called (S_retry_call l c d) f = (f = C_rel_call c l \<or> f = C_revoke_call c l)"
| "called (S_retry_got l c d st) f = (f = C_rel_call c l \<or> f = C_revoke_call c l)"
| "called (S_revoke_call l c) f = (f = C_rel_call c l \<or> f = C_revoke_call c l)"
| "called (S_revoke_got l c st) f = (f = C_rel_call c l \<or> f = C_revoke_call c l)"
| "called (C_revoke d l) f = ((\<exists>c. f = S_acq_call l c) \<or> (\<exists>c. f = S_revoke_call l c))"
| "called (C_revoke_call d l) f = ((\<exists>c. f = S_acq_call l c) \<or> (\<exists>c. f = S_revoke_call l c))"
| "called (C_revoke_got d l st) f = ((\<exists>c. f = S_acq_call l c) \<or> (\<exists>c. f = S_revoke_call l c))"
| "called (C_retry d l) f = (\<exists>c. f = S_retry_call l c d)"
| "called _ f = False"

fun user_frame :: "frame \<Rightarrow> bool" where
  "user_frame (C_acq c l) = True"
| "user_frame (C_loop c l) = True"
| "user_frame (C_wait c l) = True"
| "user_frame (C_acq_call c l) = True"
| "user_frame (C_acq_got c l st) = True"
| "user_frame (C_retry_wait c l) = True"
| "user_frame (C_hold c l) = True"
| "user_frame (C_rel c l) = True"
| "user_frame (C_rel_call c l) = True"
| "user_frame (C_rel_got c l st) = True"
| "user_frame _ = False"

fun stack_ok :: "frame list \<Rightarrow> bool" where
  "stack_ok [] = True"
| "stack_ok [f] = user_frame f"
| "stack_ok (g # f # fs) = (called g f \<and> stack_ok (f # fs))"

definition keys :: "frame list \<Rightarrow> (string \<times> nat) list" where
  "keys fs = map fst (List.map_filter busy fs)"

definition granted :: "cache_sys \<Rightarrow> string \<times> nat \<Rightarrow> bool" where
  "granted s k = (\<exists>p. lsc_map s (snd k) = Some p \<and> sl_state p \<and> sl_owner p = fst k)"

definition client_at :: "cache_sys \<Rightarrow> string \<times> nat \<Rightarrow> client_state option" where
  "client_at s k = map_option cl_state (lcc_map s (fst k) (snd k))"

text \<open>
  The invariant: stacks are call chains; at most one frame is in charge of a lock of a client,
  and the state agrees with it; and whoever carries a grant, or has the lock cached, is the owner
  the server knows.
\<close>

definition cache_inv :: "cache_sys \<Rightarrow> bool" where
  "cache_inv s \<longleftrightarrow>
     (\<forall>t. stack_ok (stack s t) \<and> distinct (keys (stack s t))) \<and>
     (\<forall>t t' k. k \<in> set (keys (stack s t)) \<and> k \<in> set (keys (stack s t')) \<longrightarrow> t = t') \<and>
     (\<forall>t f k K. f \<in> set (stack s t) \<and> busy f = Some (k, K) \<longrightarrow> client_at s k = Some K) \<and>
     (\<forall>t f k. f \<in> set (stack s t) \<and> token f = Some k \<longrightarrow> granted s k) \<and>
     (\<forall>k. client_at s k = Some FREE \<longrightarrow> granted s k)"

lemma keys_simps [simp]:
  "keys [] = []"
  "keys (f # fs) = (case busy f of None \<Rightarrow> keys fs | Some (k, K) \<Rightarrow> k # keys fs)"
  "keys (xs @ ys) = keys xs @ keys ys"
  by (auto simp: keys_def List.map_filter_def split: option.splits)

lemma keys_iff: "k \<in> set (keys fs) \<longleftrightarrow> (\<exists>f \<in> set fs. \<exists>K. busy f = Some (k, K))"
  by (induction fs) (auto split: option.splits)

lemma busy_not_idle: "busy f = Some (k, K) \<Longrightarrow> K \<noteq> NONE \<and> K \<noteq> FREE"
  by (cases f) auto

lemma stack_ok_tail: "stack_ok (f # fs) \<Longrightarrow> stack_ok fs"
  by (cases fs) auto

lemma stack_ok_suffix: "stack_ok (xs @ fs) \<Longrightarrow> stack_ok fs"
  by (induction xs) (auto dest: stack_ok_tail)

text \<open>A grant on its way belongs to a lock that some frame of the same stack is in charge of.\<close>

lemma token_key: "stack_ok fs \<Longrightarrow> f \<in> set fs \<Longrightarrow> token f = Some k \<Longrightarrow> k \<in> set (keys fs)"
proof (induction fs rule: stack_ok.induct)
  case (2 g)
  then show ?case by (cases g) (auto split: if_splits)
next
  case (3 g h fs)
  show ?case
  proof (cases "f = g")
    case True
    then show ?thesis using 3 by (cases g) (auto split: if_splits option.splits)
  next
    case False
    then have "k \<in> set (keys (h # fs))" using 3 by auto
    then show ?thesis unfolding keys_simps(2) [of g "h # fs"] by (cases "busy g") auto
  qed
qed simp

lemma cache_invD:
  assumes "cache_inv s"
  shows "stack_ok (stack s t)" "distinct (keys (stack s t))"
    "k \<in> set (keys (stack s t)) \<Longrightarrow> k \<in> set (keys (stack s t')) \<Longrightarrow> t = t'"
    "f \<in> set (stack s t) \<Longrightarrow> busy f = Some (k, K) \<Longrightarrow> client_at s k = Some K"
    "f \<in> set (stack s t) \<Longrightarrow> token f = Some k \<Longrightarrow> granted s k"
    "client_at s k = Some FREE \<Longrightarrow> granted s k"
  using assms unfolding cache_inv_def by blast+

text \<open>A lock that a step is in charge of, or that is idle, has no frame in charge elsewhere.\<close>

definition idle :: "cache_sys \<Rightarrow> string \<times> nat \<Rightarrow> bool" where
  "idle s k \<longleftrightarrow> client_at s k \<in> {None, Some NONE, Some FREE}"

lemma idle_no_key: "cache_inv s \<Longrightarrow> idle s k \<Longrightarrow> k \<notin> set (keys (stack s t))"
proof
  assume inv: "cache_inv s" and "idle s k" and "k \<in> set (keys (stack s t))"
  then obtain f K where "f \<in> set (stack s t)" "busy f = Some (k, K)"
    by (auto simp: keys_iff)
  with cache_invD(4) [OF inv this] busy_not_idle [of f k K] \<open>idle s k\<close> show False
    by (auto simp: idle_def)
qed

lemma not_elsewhere:
  assumes inv: "cache_inv s" and st: "stack s t = old @ fs"
    and own: "k \<in> set (keys old) \<or> idle s k"
  shows "k \<notin> set (keys fs)" "t' \<noteq> t \<Longrightarrow> k \<notin> set (keys (stack s t'))"
proof -
  have d: "distinct (keys old @ keys fs)" using cache_invD(2) [OF inv, of t] st by simp
  show "k \<notin> set (keys fs)"
    using own d idle_no_key [OF inv, of k t] st by auto
  show "k \<notin> set (keys (stack s t'))" if "t' \<noteq> t"
    using own idle_no_key [OF inv, of k t'] cache_invD(3) [OF inv, of k t t'] st that by auto
qed

text \<open>
  Two ways for a step to keep the invariant. Either it is in charge of the lock \<open>k\<close> of a client,
  and changes at most the state of \<open>k\<close> and the grant of \<open>k\<close>; or it changes no client's state and
  takes no grant back, and its frames stay in charge of what they were in charge of.
\<close>

lemma owner_effect:
  assumes inv: "cache_inv s" and st: "stack s t = old @ fs"
    and st': "stack s' = (stack s)(t := new @ fs)"
    and own: "k \<in> set (keys old) \<or> idle s k"
    and cl: "client_at s' = (client_at s)(k := X)"
    and gr: "\<And>k'. k' \<noteq> k \<Longrightarrow> granted s k' \<Longrightarrow> granted s' k'"
    and ok: "stack_ok (new @ fs)"
    and new: "keys new = [] \<or> keys new = [k]"
      "\<And>f k' K. f \<in> set new \<Longrightarrow> busy f = Some (k', K) \<Longrightarrow> X = Some K"
      "\<And>f k'. f \<in> set new \<Longrightarrow> token f = Some k' \<Longrightarrow> granted s' k'"
      "X = Some FREE \<Longrightarrow> granted s' k"
  shows "cache_inv s'"
proof -
  note no = not_elsewhere [OF inv st own]
  have okfs: "stack_ok fs" using ok by (rule stack_ok_suffix)
  have key: "k' = k" if "f \<in> set new" "busy f = Some (k', K)" for f k' K
    using new(1) keys_iff [of k' new] that by auto
  have fsst: "f \<in> set (stack s t)" if "f \<in> set fs" for f using st that by simp
  have "client_at s' k' = Some K" if "f \<in> set (stack s' t')" "busy f = Some (k', K)" for t' f k' K
  proof (cases "t' = t \<and> f \<in> set new")
    case True
    then show ?thesis using key [OF _ that(2)] new(2) [OF _ that(2)] cl by simp
  next
    case False
    then have f: "(t' = t \<and> f \<in> set fs) \<or> (t' \<noteq> t \<and> f \<in> set (stack s t'))"
      using that st' by (auto split: if_splits)
    then have "k' \<noteq> k" using no that(2) by (auto simp: keys_iff)
    then show ?thesis using f fsst cache_invD(4) [OF inv _ that(2)] cl by auto
  qed
  moreover have "granted s' k'" if "f \<in> set (stack s' t')" "token f = Some k'" for t' f k'
  proof (cases "t' = t \<and> f \<in> set new")
    case True
    then show ?thesis using new(3) that by blast
  next
    case False
    then have f: "(t' = t \<and> f \<in> set fs) \<or> (t' \<noteq> t \<and> f \<in> set (stack s t'))"
      using that st' by (auto split: if_splits)
    then have "k' \<noteq> k"
      using no token_key [OF okfs _ that(2)] token_key [OF cache_invD(1) [OF inv, of t'] _ that(2)] by auto
    then show ?thesis using f fsst cache_invD(5) [OF inv _ that(2)] gr [of k'] by blast
  qed
  moreover have "granted s' k'" if "client_at s' k' = Some FREE" for k'
    using that cl gr [of k'] new(4) cache_invD(6) [OF inv, of k'] by (cases "k' = k") auto
  moreover have "stack_ok (stack s' t')" for t'
    using cache_invD(1) [OF inv, of t'] st' ok by simp
  moreover have "distinct (keys (stack s' t'))" for t'
    using cache_invD(2) [OF inv, of t'] st st' new(1) no(1) by auto
  moreover have "t1 = t2" if "k' \<in> set (keys (stack s' t1))" "k' \<in> set (keys (stack s' t2))" for t1 t2 k'
  proof (cases "k' = k")
    case True
    then show ?thesis using that st' no(2) by (auto split: if_splits)
  next
    case False
    then have "k' \<in> set (keys (stack s t1))" "k' \<in> set (keys (stack s t2))"
      using that st st' new(1) by (auto split: if_splits)
    then show ?thesis by (rule cache_invD(3) [OF inv])
  qed
  ultimately show ?thesis unfolding cache_inv_def by blast
qed

lemma neutral_effect:
  assumes inv: "cache_inv s" and st: "stack s t = old @ fs"
    and st': "stack s' = (stack s)(t := new @ fs)"
    and cl: "client_at s' = client_at s"
    and gr: "\<And>k. granted s k \<Longrightarrow> granted s' k"
    and ok: "stack_ok (new @ fs)"
    and new: "keys new = [] \<or> keys new = keys old"
      "\<And>f k K. f \<in> set new \<Longrightarrow> busy f = Some (k, K) \<Longrightarrow> client_at s k = Some K"
      "\<And>f k. f \<in> set new \<Longrightarrow> token f = Some k \<Longrightarrow> granted s' k"
  shows "cache_inv s'"
proof -
  have sub: "set (keys (stack s' t')) \<subseteq> set (keys (stack s t'))" for t'
    using st st' new(1) by auto
  have old: "f \<in> set (stack s' t') \<Longrightarrow> f \<in> set (stack s t') \<or> f \<in> set new" for f t'
    using st st' by (auto split: if_splits)
  have "client_at s' k = Some K" if "f \<in> set (stack s' t')" "busy f = Some (k, K)" for t' f k K
    using old [OF that(1)] new(2) [OF _ that(2)] cache_invD(4) [OF inv _ that(2)] cl by auto
  moreover have "granted s' k" if "f \<in> set (stack s' t')" "token f = Some k" for t' f k
    using old [OF that(1)] new(3) [OF _ that(2)] cache_invD(5) [OF inv _ that(2)] gr [of k] by blast
  moreover have "granted s' k" if "client_at s' k = Some FREE" for k
    using that cl gr [of k] cache_invD(6) [OF inv, of k] by simp
  moreover have "stack_ok (stack s' t')" for t'
    using cache_invD(1) [OF inv, of t'] st' ok by simp
  moreover have "distinct (keys (stack s' t'))" for t'
    using cache_invD(2) [OF inv, of t'] st st' new(1) by auto
  moreover have "t1 = t2" if "k \<in> set (keys (stack s' t1))" "k \<in> set (keys (stack s' t2))" for t1 t2 k
    using that sub by (blast intro: cache_invD(3) [OF inv])
  ultimately show ?thesis unfolding cache_inv_def by blast
qed

lemma lookup_simps [simp]:
  "client_at (set_client c l p s) = (client_at s)((c, l) := Some (cl_state p))"
  "client_at (set_server l q s) = client_at s"
  "client_at (set_mutex l m s) = client_at s"
  "client_at (s\<lparr>stack := st\<rparr>) = client_at s"
  "client_at (s\<lparr>lsc_nacquire := n\<rparr>) = client_at s"
  "granted (set_client c l p s) = granted s"
  "granted (set_mutex l m s) = granted s"
  "granted (s\<lparr>stack := st\<rparr>) = granted s"
  "granted (s\<lparr>lsc_nacquire := n\<rparr>) = granted s"
  "stack (set_client c l p s) = stack s"
  "stack (set_server l q s) = stack s"
  "stack (set_mutex l m s) = stack s"
  "lcc_map s c l = Some p \<Longrightarrow> client_at s (c, l) = Some (cl_state p)"
  "lcc_map (set_client c l p s) c l = Some p"
  "set_client c l p (set_client c l p' s) = set_client c l p s"
  by (auto simp: client_at_def granted_def set_client_def set_server_def set_mutex_def fun_eq_iff)

lemma granted_set_server:
  "granted (set_server l q s) k = (if snd k = l then sl_state q \<and> sl_owner q = fst k else granted s k)"
  by (simp add: granted_def set_server_def)

lemma granted_same:
  "lsc_map s l = Some p \<Longrightarrow> sl_state q = sl_state p \<Longrightarrow> sl_owner q = sl_owner p \<Longrightarrow>
     granted (set_server l q s) = granted s"
  by (auto simp: granted_def set_server_def fun_eq_iff)

text \<open>The client's steps: the frame on top of thread \<open>t\<close> is in charge of the lock, or takes it.\<close>

abbreviation continue :: "nat \<Rightarrow> bool \<Rightarrow> cont \<Rightarrow> frame list \<Rightarrow> cache_sys \<Rightarrow> cache_sys" where
  "continue t lost k fs s \<equiv> s\<lparr>stack := (stack s)(t := next_stack lost k fs)\<rparr>"

lemma user_alone: "stack_ok (f # fs) \<Longrightarrow> user_frame f \<Longrightarrow> fs = []"
  by (cases f; cases fs) auto

lemma loop_inv:
  assumes inv: "cache_inv s" and st: "stack s t = [f]"
    and f: "f = C_loop c l \<or> f = C_wait c l"
    and run: "lcc_loop c l s = Do s1 k"
  shows "cache_inv (continue t lost k [] s1)"
proof -
  obtain p where p: "lcc_map s c l = Some p" using run by (auto simp: lcc_loop_def split: option.splits)
  consider
      "cl_state p = NONE" "s1 = set_client c l (p\<lparr>cl_state := ACQUIRING\<rparr>) s" "k = Call (C_acq_call c l) (S_acq l c)"
    | "cl_state p = FREE" "s1 = set_client c l (p\<lparr>cl_state := LOCKED\<rparr>) s" "k = Goto (C_hold c l)"
    | "s1 = s" "k = Goto (C_wait c l)"
    using run p by (auto simp: lcc_loop_def split: client_state.splits)
  then show ?thesis
  proof cases
    case 1
    show ?thesis
      by (rule owner_effect [OF inv, where t = t and old = "[f]" and fs = "[]" and k = "(c, l)"
            and X = "Some ACQUIRING" and new = "next_stack lost k []"])
        (use 1 p st f in \<open>auto simp: idle_def lck_OK_def split: if_splits\<close>)
  next
    case 2
    then have "granted s (c, l)" using cache_invD(6) [OF inv, of "(c, l)"] p by simp
    then show ?thesis
      by (intro owner_effect [OF inv, where t = t and old = "[f]" and fs = "[]" and k = "(c, l)"
            and X = "Some LOCKED" and new = "[C_hold c l]"])
        (use 2 p st f in \<open>auto simp: idle_def\<close>)
  next
    case 3
    show ?thesis
      by (rule neutral_effect [OF inv, where t = t and old = "[f]" and fs = "[]" and new = "[C_wait c l]"])
        (use 3 st in auto)
  qed
qed

lemma acquire_new_inv:
  assumes inv: "cache_inv s" and st: "stack s t = [C_acq c l]"
    and run: "lcc_acquire_new c l s = Do s1 k"
  shows "cache_inv (continue t lost k [] s1)"
proof (cases "lcc_map s c l")
  case None
  then have "idle s (c, l)" by (simp add: idle_def client_at_def)
  then show ?thesis
    by (intro owner_effect [OF inv, where t = t and old = "[C_acq c l]" and fs = "[]" and k = "(c, l)"
          and X = "Some NONE" and new = "[C_loop c l]"])
      (use run st None in \<open>auto simp: lcc_acquire_new_def\<close>)
next
  case (Some p)
  then show ?thesis
    by (intro neutral_effect [OF inv, where t = t and old = "[C_acq c l]" and fs = "[]" and new = "[C_loop c l]"])
      (use run st in \<open>auto simp: lcc_acquire_new_def\<close>)
qed

lemma acquire_got_inv:
  assumes inv: "cache_inv s" and st: "stack s t = [C_acq_got c l r]"
    and run: "lcc_acquire_got c l r s = Do s1 k"
  shows "cache_inv (continue t lost k [] s1)"
proof -
  have acq: "client_at s (c, l) = Some ACQUIRING"
    using cache_invD(4) [OF inv, of "C_acq_got c l r" t] st by simp
  then obtain p where p: "lcc_map s c l = Some p" "cl_state p = ACQUIRING"
    by (auto simp: client_at_def)
  show ?thesis
  proof (cases "r = lck_OK")
    case True
    have "granted s (c, l)" using cache_invD(5) [OF inv, of "C_acq_got c l r" t] st True by simp
    then show ?thesis
      by (intro owner_effect [OF inv, where t = t and old = "[C_acq_got c l r]" and fs = "[]" and k = "(c, l)"
            and X = "Some LOCKED" and new = "[C_hold c l]"])
        (use run st p True in \<open>auto simp: lcc_acquire_got_def\<close>)
  next
    case False
    show ?thesis
      by (rule neutral_effect [OF inv, where t = t and old = "[C_acq_got c l r]" and fs = "[]"
            and new = "[if r = lck_RETRY then C_retry_wait c l else C_wait c l]"])
        (use run st p acq False in \<open>auto simp: lcc_acquire_got_def lcc_loop_def split: if_splits\<close>)
  qed
qed

lemma retry_wait_inv:
  assumes inv: "cache_inv s" and st: "stack s t = [C_retry_wait c l]"
    and run: "lcc_retry_wait c l s = Do s1 k"
  shows "cache_inv (continue t lost k [] s1)"
  by (rule owner_effect [OF inv, where t = t and old = "[C_retry_wait c l]" and fs = "[]" and k = "(c, l)"
        and X = "Some ACQUIRING" and new = "next_stack lost (Call (C_acq_call c l) (S_acq l c)) []"])
    (use run st in \<open>auto simp: lcc_retry_wait_def lcc_loop_def lck_OK_def split: option.splits if_splits\<close>)

lemma hold_inv:
  assumes inv: "cache_inv s" and st: "stack s t = [C_hold c l]"
  shows "cache_inv (s\<lparr>stack := (stack s)(t := [C_rel c l])\<rparr>)"
  by (rule neutral_effect [OF inv, where t = t and old = "[C_hold c l]" and fs = "[]" and new = "[C_rel c l]"])
    (use st cache_invD(4,5) [OF inv, of "C_hold c l" t] in auto)

lemma release_inv:
  assumes inv: "cache_inv s" and st: "stack s t = [C_rel c l]"
    and run: "lcc_release c l s = Do s1 k"
  shows "cache_inv (continue t lost k [] s1)"
proof -
  have "granted s (c, l)" using cache_invD(5) [OF inv, of "C_rel c l" t] st by simp
  then show ?thesis
    by (intro owner_effect [OF inv, where t = t and old = "[C_rel c l]" and fs = "[]" and k = "(c, l)"
          and X = "client_at s1 (c, l)" and new = "next_stack lost k []"])
      (use run st in \<open>auto simp: lcc_release_def split: option.splits if_splits\<close>)
qed

lemma released_inv:
  assumes inv: "cache_inv s" and st: "stack s t = f # fs"
    and f: "f = C_rel_got c l r \<or> f = C_revoke_got c l r"
    and run: "lcc_released c l r s = Do s1 k"
  shows "cache_inv (continue t lost k fs s1)"
proof -
  have ok: "stack_ok (f # fs)" using cache_invD(1) [OF inv, of t] st by simp
  show ?thesis
  proof (cases fs)
    case Nil
    then show ?thesis
      by (intro owner_effect [OF inv, where t = t and old = "[f]" and fs = "[]" and k = "(c, l)"
            and X = "Some NONE" and new = "[]"])
        (use run st f in \<open>auto simp: lcc_released_def split: option.splits if_splits\<close>)
  next
    case (Cons w ws)
    then show ?thesis
      by (intro owner_effect [OF inv, where t = t and old = "[f, w]" and fs = ws and k = "(c, l)"
            and X = "Some NONE" and new = "[resume w (if lost then -1 else lck_OK)]"])
        (use run st f ok in \<open>cases ws; auto simp: lcc_released_def split: option.splits if_splits\<close>)+
  qed
qed

lemma stack_ok_resume:
  "stack_ok (f # fs) \<Longrightarrow> stack_ok (resume f st # fs)"
  by (cases f; cases fs) auto

lemma revoke_handler_inv:
  assumes inv: "cache_inv s" and st: "stack s t = C_revoke c l # w # ws"
    and run: "lcc_revoke_handler c l s = Do s1 k"
  shows "cache_inv (continue t lost k (w # ws) s1)"
proof -
  have ok: "called (C_revoke c l) w" "stack_ok (w # ws)" using cache_invD(1) [OF inv, of t] st by auto
  obtain p where p: "lcc_map s c l = Some p"
    using run by (auto simp: lcc_revoke_handler_def split: option.splits)
  show ?thesis
  proof (cases "cl_state p = FREE")
    case True
    then have "granted s (c, l)" using cache_invD(6) [OF inv, of "(c, l)"] p by simp
    then show ?thesis
      by (intro owner_effect [OF inv, where t = t and old = "[C_revoke c l]" and fs = "w # ws" and k = "(c, l)"
            and X = "Some RELEASING"
            and new = "if lost then [C_revoke_got c l (-1)] else [S_rel l c, C_revoke_call c l]"])
        (use run st p True ok in \<open>auto simp: lcc_revoke_handler_def idle_def split: if_splits\<close>)
  next
    case False
    show ?thesis
      by (rule neutral_effect [OF inv, where t = t and old = "[C_revoke c l, w]" and fs = ws
            and new = "[resume w (if lost then -1 else lck_OK)]"])
        (use run st p False ok stack_ok_resume [OF ok(2)] in
          \<open>auto simp: lcc_revoke_handler_def split: if_splits\<close>)
  qed
qed

lemma retry_handler_inv:
  assumes inv: "cache_inv s" and st: "stack s t = C_retry c l # w # ws"
    and run: "lcc_retry_handler c l s = Do s1 k"
  shows "cache_inv (continue t lost k (w # ws) s1)"
proof -
  have ok: "called (C_retry c l) w" "stack_ok (w # ws)" using cache_invD(1) [OF inv, of t] st by auto
  show ?thesis
    by (rule neutral_effect [OF inv, where t = t and old = "[C_retry c l, w]" and fs = ws
          and new = "[resume w (if lost then -1 else lck_OK)]"])
      (use run st ok stack_ok_resume [OF ok(2)] in
        \<open>auto simp: lcc_retry_handler_def split: option.splits\<close>)
qed

text \<open>The server's steps: a grant is made only when nobody has the lock, and taken back from its owner.\<close>

lemma server_acquire_inv:
  assumes inv: "cache_inv s" and st: "stack s t = f # fs"
    and f: "f = S_acq l c \<and> lsc_acquire_new l c s = Do s1 k \<or>
            f = S_acq_owner l c \<and> lsc_acquire_owner up l c s = Do s1 k \<or>
            f = S_acq_got l c r \<and> lsc_acquire_revoked l c r s = Do s1 k"
  shows "cache_inv (continue t lost k fs s1)"
proof -
  have ok: "stack_ok (f # fs)" using cache_invD(1) [OF inv, of t] st by simp
  then obtain ws where fs: "fs = C_acq_call c l # ws" using f by (cases fs) auto
  then have ws: "ws = []" using ok user_alone by auto
  have acq: "client_at s (c, l) = Some ACQUIRING"
    using cache_invD(4) [OF inv, of "C_acq_call c l" t] st fs by simp
  show ?thesis
    by (rule neutral_effect [OF inv, where t = t and old = "[f, C_acq_call c l]" and fs = "[]"
          and new = "next_stack lost k [C_acq_call c l]"])
      (use f st fs ws acq in \<open>auto simp: lsc_acquire_new_def lsc_acquire_owner_def lsc_acquire_revoked_def
         Let_def set_server_def lck_OK_def lck_RETRY_def granted_def client_at_def split: option.splits if_splits\<close>)
qed

lemma server_acquire_lock_inv:
  assumes inv: "cache_inv s" and st: "stack s t = S_acq_lock l c # fs"
    and run: "lsc_acquire_lock l c s = Do s1 k"
  shows "cache_inv (continue t lost k fs s1)"
proof -
  have ok: "stack_ok (S_acq_lock l c # fs)" using cache_invD(1) [OF inv, of t] st by simp
  then obtain ws where fs: "fs = C_acq_call c l # ws" by (cases fs) auto
  then have ws: "ws = []" using ok user_alone by auto
  have acq: "client_at s (c, l) = Some ACQUIRING"
    using cache_invD(4) [OF inv, of "C_acq_call c l" t] st fs by simp
  obtain p where p: "lsc_map s l = Some p" using run by (auto simp: lsc_acquire_lock_def split: option.splits)
  show ?thesis
  proof (cases "sl_state p")
    case True
    have s1: "granted s1 = granted s" "client_at s1 = client_at s" "stack s1 = stack s"
      using run p True by (auto simp: lsc_acquire_lock_def Let_def granted_same split: if_splits)
    have k: "k = Return lck_RETRY \<or> k = Goto (S_acq_owner l c)"
      using run p True by (auto simp: lsc_acquire_lock_def Let_def split: if_splits)
    show ?thesis
      by (rule neutral_effect [OF inv, where t = t and old = "[S_acq_lock l c, C_acq_call c l]" and fs = "[]"
            and new = "next_stack lost k [C_acq_call c l]"])
        (use k s1 st fs ws acq in \<open>auto simp: lck_OK_def lck_RETRY_def split: if_splits\<close>)
  next
    case False
    have s1: "client_at s1 = client_at s" "stack s1 = stack s" "granted s1 (c, l)" "k = Return lck_OK"
      using run p False by (auto simp: lsc_acquire_lock_def granted_set_server split: if_splits)
    have gr: "granted s1 k'" if "granted s k'" for k'
      using run p False that by (cases k') (auto simp: lsc_acquire_lock_def granted_def set_server_def
          split: if_splits)
    have "client_at s1 = (client_at s)((c, l) := Some ACQUIRING)" using s1 acq by auto
    then show ?thesis
      by (intro owner_effect [OF inv, where t = t and old = "[S_acq_lock l c, C_acq_call c l]" and fs = "[]"
            and k = "(c, l)" and X = "Some ACQUIRING" and new = "[C_acq_got c l (if lost then -1 else lck_OK)]"])
        (use s1 gr st fs ws in \<open>auto split: if_splits\<close>)
  qed
qed

lemma server_release_inv:
  assumes inv: "cache_inv s" and st: "stack s t = f # fs"
    and f: "f = S_rel l c \<and> lsc_release_find l c s = Do s1 k \<or>
            f = S_retry_got l c d r \<and> lsc_release_retried l c d r s = Do s1 k \<or>
            f = S_revoke_got l c r \<and> lsc_release_revoked l c r s = Do s1 k"
  shows "cache_inv (continue t lost k fs s1)"
proof -
  have ok: "stack_ok (f # fs)" using cache_invD(1) [OF inv, of t] st by simp
  then obtain w ws where fs: "fs = w # ws" and w: "w = C_rel_call c l \<or> w = C_revoke_call c l"
    using f by (cases fs) auto
  have rel: "client_at s (c, l) = Some RELEASING" "f = S_rel l c \<Longrightarrow> granted s (c, l)"
    using cache_invD(4) [OF inv, of w t] cache_invD(5) [OF inv, of f t] st fs w by auto
  define new where "new = next_stack lost k [w]"
  have new: "next_stack lost k fs = new @ ws"
    "new \<in> {[S_rel_lock l c, w], [C_revoke d l, S_revoke_call l c, w], [S_revoke_got l c (-1), w]} \<or>
     (\<exists>r'. new = [resume w r'])"
    "new = [S_rel_lock l c, w] \<longrightarrow> f = S_rel l c"
    using f fs w unfolding new_def by (cases lost; auto simp: lsc_release_find_def lsc_release_retried_def
        lsc_release_revoked_def split: option.splits if_splits)+
  have s1: "client_at s1 = client_at s" "granted s1 = granted s" "stack s1 = stack s"
    using f by (auto simp: lsc_release_find_def lsc_release_retried_def lsc_release_revoked_def
        split: option.splits if_splits)
  have "stack_ok (w # ws)" using ok fs by (simp add: stack_ok_tail)
  then show ?thesis
    by (intro neutral_effect [OF inv, where t = t and old = "[f, w]" and fs = ws and new = new])
      (use st fs w rel new s1 f stack_ok_resume [of w ws] in auto)
qed

lemma server_release_lock_inv:
  assumes inv: "cache_inv s" and st: "stack s t = S_rel_lock l c # fs"
    and run: "lsc_release_lock up t l c s = Do s1 k"
  shows "cache_inv (continue t lost k fs s1)"
proof -
  have ok: "stack_ok (S_rel_lock l c # fs)" using cache_invD(1) [OF inv, of t] st by simp
  then obtain w ws where fs: "fs = w # ws" and w: "w = C_rel_call c l \<or> w = C_revoke_call c l"
    by (cases fs) auto
  have rel: "client_at s (c, l) = Some RELEASING" "granted s (c, l)"
    using cache_invD(4) [OF inv, of w t] cache_invD(5) [OF inv, of "S_rel_lock l c" t] st fs w by auto
  have gr: "granted s1 k'" if "granted s k'" "k' \<noteq> (c, l)" for k'
    using that rel(2) run by (cases k') (auto simp: lsc_release_lock_def granted_set_server Let_def
        granted_def set_server_def set_mutex_def split: option.splits if_splits list.splits)
  define new where "new = next_stack lost k [w]"
  have new: "next_stack lost k fs = new @ ws"
    "(\<exists>d. new \<in> {[C_retry d l, S_retry_call l c d, w], [S_retry_got l c d (-1), w]}) \<or> (\<exists>r'. new = [resume w r'])"
    using run fs w unfolding new_def by (cases lost; auto simp: lsc_release_lock_def Let_def
        split: option.splits if_splits list.splits)+
  have s1: "client_at s1 = client_at s" "stack s1 = stack s"
    using run by (auto simp: lsc_release_lock_def Let_def split: option.splits if_splits list.splits)
  have "stack_ok (w # ws)" using ok fs by (simp add: stack_ok_tail)
  then show ?thesis
    by (intro owner_effect [OF inv, where t = t and old = "[S_rel_lock l c, w]" and fs = ws and k = "(c, l)"
          and X = "Some RELEASING" and new = new])
      (use st fs w rel new s1 gr stack_ok_resume [of w ws] in auto)
qed

lemma thread_step_inv:
  assumes inv: "cache_inv s" and run: "thread_step up t lost s = Some s'"
  shows "cache_inv s'"
proof -
  obtain f fs s1 k where st: "stack s t = f # fs" and f: "frame_step up t f s = Do s1 k"
    and s': "s' = continue t lost k fs s1"
    using run by (auto split: list.splits outcome.splits)
  have ok: "stack_ok (f # fs)" using cache_invD(1) [OF inv, of t] st by simp
  have user: "user_frame f \<Longrightarrow> fs = []" using ok by (rule user_alone)
  have handler: "\<not> user_frame f \<Longrightarrow> \<exists>w ws. fs = w # ws" using ok by (cases fs) auto
  show ?thesis unfolding s'
    using f st user handler inv
    by (cases f) (auto intro: acquire_new_inv [OF inv] loop_inv [OF inv] acquire_got_inv [OF inv]
        retry_wait_inv [OF inv] hold_inv release_inv [OF inv] released_inv [OF inv]
        revoke_handler_inv [OF inv] retry_handler_inv [OF inv] server_acquire_inv [OF inv]
        server_acquire_lock_inv [OF inv] server_release_inv [OF inv] server_release_lock_inv [OF inv])
qed

lemma cache_reach_inv: "cache_reach up s \<Longrightarrow> cache_inv s"
proof (induction rule: cache_reach.induct)
  case (init n)
  then show ?case by (simp add: cache_inv_def cache_init_def client_at_def)
next
  case (start s t c l)
  show ?case
    by (rule neutral_effect [OF start.IH, where t = t and old = "[]" and fs = "[]" and new = "[C_acq c l]"])
      (use start.hyps in \<open>auto simp: start_acquire_def\<close>)
next
  case (step s t lost s')
  then show ?case by (blast intro: thread_step_inv)
qed


section \<open>Schedules\<close>

datatype event = Begin nat string nat | Run nat

fun run_events :: "(string \<Rightarrow> bool) \<Rightarrow> event list \<Rightarrow> cache_sys \<Rightarrow> cache_sys option" where
  "run_events up [] s = Some s"
| "run_events up (Begin t c l # es) s =
     (if stack s t = [] then run_events up es (start_acquire t c l s) else None)"
| "run_events up (Run t # es) s =
     (case thread_step up t False s of None \<Rightarrow> None | Some s' \<Rightarrow> run_events up es s')"

lemma run_events_reach: "run_events up es s = Some s' \<Longrightarrow> cache_reach up s \<Longrightarrow> cache_reach up s'"
proof (induction es arbitrary: s rule: list.induct)
  case (Cons e es)
  show ?case
  proof (cases e)
    case (Begin t c l)
    then show ?thesis using Cons cache_reach.start [of up s t c l] by (auto split: if_splits)
  next
    case (Run t)
    then obtain s1 where s1: "thread_step up t False s = Some s1" "run_events up es s1 = Some s'"
      using Cons.prems(1) by (auto simp del: thread_step.simps split: option.splits)
    then show ?thesis using Cons.IH [OF s1(2)] cache_reach.step [OF Cons.prems(2) s1(1)] by blast
  qed
qed simp

text \<open>Client \<open>a\<close> takes the lock; \<open>b\<close> and \<open>c\<close> ask for it and are told to wait.\<close>

definition sched_hold :: "event list" where
  "sched_hold = Begin 1 ''a'' 1 # replicate 5 (Run 1)"

definition sched_wait :: "event list" where
  "sched_wait = sched_hold @ Begin 2 ''b'' 1 # replicate 8 (Run 2) @ Begin 3 ''c'' 1 # replicate 5 (Run 3)"

text \<open>
  \<open>a\<close> gives the lock back, and the server, \<open>c\<close> still waiting, sends \<open>b\<close> both retry and revoke.
  \<open>b\<close> takes the lock; \<open>d\<close> asks for it, and before the server looks at the owner, \<open>b\<close> gives it back.
\<close>

definition sched_race :: "event list" where
  "sched_race = sched_wait @ replicate 9 (Run 1) @ replicate 4 (Run 2) @
     Begin 4 ''d'' 1 # replicate 4 (Run 4) @ replicate 4 (Run 2)"

abbreviation named :: "string \<Rightarrow> bool" where
  "named d \<equiv> d \<noteq> []"

lemma run_race:
  "case run_events named sched_race (cache_init 0) of None \<Rightarrow> False
   | Some s \<Rightarrow> (case stack s 4 of [] \<Rightarrow> False | f # fs \<Rightarrow> f = S_acq_owner 1 ''d'') \<and>
       (case frame_step named 4 (S_acq_owner 1 ''d'') s of Abort \<Rightarrow> True | _ \<Rightarrow> False)"
  by code_simp

text \<open>States in which \<open>a\<close> holds the lock, or is about to release it.\<close>

definition s_hold :: cache_sys where
  "s_hold = the (run_events named sched_hold (cache_init 0))"

definition s_rel :: cache_sys where
  "s_rel = the (run_events named (sched_hold @ [Run 1]) (cache_init 0))"

lemma sample_locks:
  "cache_reach named s_hold" "stack s_hold 1 = [C_hold ''a'' 1]"
  "cache_reach named s_rel" "stack s_rel 1 = [C_rel ''a'' 1]"
proof -
  have "case run_events named sched_hold (cache_init 0) of None \<Rightarrow> False | Some s \<Rightarrow> stack s 1 = [C_hold ''a'' 1]"
    by code_simp
  then obtain s where "run_events named sched_hold (cache_init 0) = Some s" "stack s 1 = [C_hold ''a'' 1]"
    by (auto split: option.splits)
  then show "cache_reach named s_hold" "stack s_hold 1 = [C_hold ''a'' 1]"
    using run_events_reach cache_reach.init by (auto simp: s_hold_def)
next
  have "case run_events named (sched_hold @ [Run 1]) (cache_init 0) of None \<Rightarrow> False | Some s \<Rightarrow> stack s 1 = [C_rel ''a'' 1]"
    by code_simp
  then obtain s where "run_events named (sched_hold @ [Run 1]) (cache_init 0) = Some s" "stack s 1 = [C_rel ''a'' 1]"
    by (auto split: option.splits)
  then show "cache_reach named s_rel" "stack s_rel 1 = [C_rel ''a'' 1]"
    using run_events_reach cache_reach.init by (auto simp: s_rel_def)
qed

section \<open>Properties\<close>

text \<open>
  C4. Mutual exclusion of the caching lock service: with any number of clients and threads, any
  interleaving, and calls and replies that get lost, at most one thread of one client is between
  \<open>acquire\<close> and \<open>release\<close> of a lock; and then the server has the client as the owner of the lock,
  and no client has the lock cached as free.
\<close>

theorem cache_mutual_exclusion:
  assumes "cache_reach up s" and "C_hold c l \<in> set (stack s t)"
  shows "(\<forall>c' t'. C_hold c' l \<in> set (stack s t') \<longrightarrow> t = t' \<and> c = c') \<and>
    (\<exists>p. lsc_map s l = Some p \<and> sl_state p \<and> sl_owner p = c) \<and>
    (\<forall>c' q. lcc_map s c' l = Some q \<longrightarrow> cl_state q \<noteq> FREE)"
proof (intro conjI allI impI)
  note inv = cache_reach_inv [OF assms(1)]
  have own: "granted s (c, l)" using cache_invD(5) [OF inv assms(2)] by simp
  then show "\<exists>p. lsc_map s l = Some p \<and> sl_state p \<and> sl_owner p = c" by (simp add: granted_def)
  show "t = t'" "c = c'" if c': "C_hold c' l \<in> set (stack s t')" for c' t'
  proof -
    have "granted s (c', l)" using cache_invD(5) [OF inv c'] by simp
    then have "c = c'" using own by (auto simp: granted_def)
    moreover have "(c, l) \<in> set (keys (stack s t))" "(c', l) \<in> set (keys (stack s t'))"
      using assms(2) c' by (auto simp: keys_iff intro!: bexI [rotated])
    ultimately show "t = t'" "c = c'" using cache_invD(3) [OF inv] by blast+
  qed
  show "cl_state q \<noteq> FREE" if "lcc_map s c' l = Some q" for c' q
  proof
    assume "cl_state q = FREE"
    then have free: "client_at s (c', l) = Some FREE" using that by simp
    then have "granted s (c', l)" using cache_invD(6) [OF inv] by simp
    then have "c = c'" using own by (auto simp: granted_def)
    then show False using free cache_invD(4) [OF inv assms(2), of "(c, l)" LOCKED] by simp
  qed
qed

theorem cache_mutual_exclusion_witness:
  "\<exists>p. lsc_map s_hold 1 = Some p \<and> sl_state p \<and> sl_owner p = ''a''"
  using cache_mutual_exclusion [of named s_hold "''a''" 1 1] sample_locks(1,2) by simp



text \<open>
  The server can abort in normal operation: \<open>acquire\<close> reads the owner after it has given up the
  mutex, and finds the empty string when the owner has released the lock in between, which a
  client does that got a revoke together with its retry. No connection to the empty address can
  be bound, so the code runs into \<open>VERIFY(0)\<close>.
\<close>

lemma cache_owner_race:
  "\<exists>s fs. cache_reach named s \<and> stack s 4 = S_acq_owner 1 ''d'' # fs \<and>
     frame_step named 4 (S_acq_owner 1 ''d'') s = Abort"
proof -
  obtain s where s: "run_events named sched_race (cache_init 0) = Some s"
    "case stack s 4 of [] \<Rightarrow> False | f # fs \<Rightarrow> f = S_acq_owner 1 ''d''"
    "case frame_step named 4 (S_acq_owner 1 ''d'') s of Abort \<Rightarrow> True | _ \<Rightarrow> False"
    using run_race by (auto split: option.splits)
  have "cache_reach named s" using run_events_reach [OF s(1) cache_reach.init] .
  then show ?thesis using s(2,3) by (auto split: list.splits outcome.splits)
qed

end
