(* ===== verification/Dir_Format.thy ===== *)
theory Dir_Format
  imports Lock_Server
begin

text \<open>
  The text format of directories in \<open>src/yfs/yfs_client.cc\<close>: entries \<open>name;inum\<close> separated
  by semicolons. The scanners of \<open>nlock_lookup\<close> and \<open>nlock_readdir\<close>, the conversions
  \<open>n2i\<close> and \<open>filename\<close>, and the string surgery of \<open>unlink\<close>. The lemmas show that scanning
  gives back the entries that were written.
\<close>

section \<open>Numbers\<close>

definition digit_char :: "nat \<Rightarrow> char" where
  "digit_char k = char_of (48 + k)"

definition digit_val :: "char \<Rightarrow> nat" where
  "digit_val c = of_char c - 48"

definition is_digit :: "char \<Rightarrow> bool" where
  "is_digit c \<longleftrightarrow> 48 \<le> (of_char c :: nat) \<and> (of_char c :: nat) \<le> 57"

definition is_space :: "char \<Rightarrow> bool" where
  "is_space c \<longleftrightarrow> (of_char c :: nat) = 32 \<or> 9 \<le> (of_char c :: nat) \<and> (of_char c :: nat) \<le> 13"

text \<open>\<open>filename\<close>: the decimal digits that \<open>ost << inum\<close> prints.\<close>

fun filename :: "nat \<Rightarrow> string" where
  "filename n = (if n < 10 then [digit_char n] else filename (n div 10) @ [digit_char (n mod 10)])"

declare filename.simps [simp del]

definition digits_val :: "string \<Rightarrow> nat" where
  "digits_val ds = foldl (\<lambda>v c. 10 * v + digit_val c) 0 ds"

text \<open>
  \<open>n2i\<close>: extraction of an \<open>unsigned long long\<close> from a stream. Leading white space is
  skipped, a sign is accepted, the longest run of digits is converted; without digits the
  result is 0, and a value that is too large gives the largest one. On an empty stream
  nothing is extracted and the variable stays uninitialised, which is \<open>None\<close> here.
\<close>

definition n2i :: "string \<Rightarrow> nat option" where
  "n2i s =
     (case dropWhile is_space s of
        [] \<Rightarrow> None
      | c # cs \<Rightarrow>
          (let neg = (c = CHR ''-'');
               ds = takeWhile is_digit (if neg \<or> c = CHR ''+'' then cs else c # cs);
               v = digits_val ds
           in Some (if 2 ^ 64 \<le> v then 2 ^ 64 - 1 else if neg then (2 ^ 64 - v) mod 2 ^ 64 else v)))"

lemma of_char_digit: "k < 10 \<Longrightarrow> (of_char (digit_char k) :: nat) = 48 + k"
  by (simp add: digit_char_def)

lemma is_digit_char [simp]: "k < 10 \<Longrightarrow> is_digit (digit_char k)"
  by (simp add: is_digit_def of_char_digit)

lemma digit_val_char [simp]: "k < 10 \<Longrightarrow> digit_val (digit_char k) = k"
  by (simp add: digit_val_def of_char_digit)

lemma filename_digits: "\<forall>c \<in> set (filename n). is_digit c"
  by (induction n rule: filename.induct) (subst filename.simps, auto)

lemma filename_ne [simp]: "filename n \<noteq> []"
  by (subst filename.simps) simp

lemma digits_val_snoc: "digits_val (ds @ [c]) = 10 * digits_val ds + digit_val c"
  by (simp add: digits_val_def)

lemma digits_val_filename [simp]: "digits_val (filename n) = n"
proof (induction n rule: filename.induct)
  case (1 n)
  then show ?case
    by (cases "n < 10") (simp_all add: filename.simps [of n] digits_val_snoc, simp add: digits_val_def)
qed

lemma digit_not_special:
  assumes "is_digit c"
  shows "\<not> is_space c" and "c \<noteq> CHR '';''" and "c \<noteq> CHR ''-''" and "c \<noteq> CHR ''+''"
  using assms by (auto simp: is_digit_def is_space_def)

text \<open>Printing and reading an inode number is the identity.\<close>

lemma n2i_filename:
  assumes "n < 2 ^ 64"
  shows "n2i (filename n) = Some n"
proof -
  obtain c cs where f: "filename n = c # cs" by (cases "filename n") simp_all
  have d: "\<forall>c \<in> set (c # cs). is_digit c" using filename_digits [of n] by (simp add: f)
  then have c: "\<not> is_space c" "c \<noteq> CHR ''-''" "c \<noteq> CHR ''+''" using digit_not_special by simp_all
  have t: "takeWhile is_digit (c # cs) = c # cs" using d by (simp only: takeWhile_eq_all_conv)
  show ?thesis
    using c t digits_val_filename [of n] assms unfolding n2i_def f by (simp add: Let_def)
qed

section \<open>Scanning a directory\<close>

datatype readstate = FILENAME | INODENUM | CHECK

text \<open>Indexing a string at its length gives the zero character.\<close>

definition ch_at :: "string \<Rightarrow> nat \<Rightarrow> char" where
  "ch_at s pos = (if pos < length s then s ! pos else CHR 0x00)"

text \<open>
  The first two of the three \<open>if\<close>s in the loop body, which the loops of \<open>nlock_lookup\<close> and
  \<open>nlock_readdir\<close> share. The third, for the state \<open>CHECK\<close> (called \<open>STORE\<close> in
  \<open>nlock_readdir\<close>), is in the loops below; it leaves the state \<open>FILENAME\<close> and empty strings.
\<close>

definition scan_name :: "string \<Rightarrow> nat \<times> readstate \<times> string \<times> string \<Rightarrow> nat \<times> readstate \<times> string \<times> string" where
  "scan_name dir = (\<lambda>(pos, st, fname, inum).
     if st = FILENAME
     then if ch_at dir pos = CHR '';'' then (pos + 1, INODENUM, fname, inum)
          else (pos, FILENAME, fname @ [ch_at dir pos], inum)
     else (pos, st, fname, inum))"

definition scan_inum :: "string \<Rightarrow> nat \<times> readstate \<times> string \<times> string \<Rightarrow> nat \<times> readstate \<times> string \<times> string" where
  "scan_inum dir = (\<lambda>(pos, st, fname, inum).
     if st = INODENUM
     then if ch_at dir pos = CHR '';'' then (pos, CHECK, fname, inum)
          else if pos = length dir - 1 then (pos, CHECK, fname, inum @ [ch_at dir pos])
          else (pos, INODENUM, fname, inum @ [ch_at dir pos])
     else (pos, st, fname, inum))"

lemma scan_pos: "scan_inum dir (scan_name dir (pos, st, f, i)) = (pos', st', f', i') \<Longrightarrow> pos \<le> pos'"
  by (auto simp: scan_inum_def scan_name_def split: if_splits)

function lookup_scan :: "string \<Rightarrow> string \<Rightarrow> nat \<Rightarrow> readstate \<Rightarrow> string \<Rightarrow> string \<Rightarrow> nat option option" where
  "lookup_scan dir name pos st fname inum =
     (if pos < length dir
      then (case scan_inum dir (scan_name dir (pos, st, fname, inum)) of
              (pos', st', fname', inum') \<Rightarrow>
                (if st' = CHECK
                 then if fname' = name then do { ino \<leftarrow> n2i inum'; Some (Some ino) }
                      else lookup_scan dir name (pos' + 1) FILENAME [] []
                 else lookup_scan dir name (pos' + 1) st' fname' inum'))
      else Some None)"
  by pat_completeness auto
termination
  by (relation "measure (\<lambda>(dir, name, pos, st, fname, inum). length dir - pos)")
    (auto dest!: sym [THEN scan_pos])

function readdir_scan :: "string \<Rightarrow> nat \<Rightarrow> readstate \<Rightarrow> string \<Rightarrow> string \<Rightarrow> (string \<times> nat) list \<Rightarrow>
    (string \<times> nat) list option" where
  "readdir_scan dir pos st fname inum l =
     (if pos < length dir
      then (case scan_inum dir (scan_name dir (pos, st, fname, inum)) of
              (pos', st', fname', inum') \<Rightarrow>
                (if st' = CHECK
                 then do { ino \<leftarrow> n2i inum'; readdir_scan dir (pos' + 1) FILENAME [] [] (l @ [(fname', ino)]) }
                 else readdir_scan dir (pos' + 1) st' fname' inum' l))
      else Some l)"
  by pat_completeness auto
termination
  by (relation "measure (\<lambda>(dir, pos, st, fname, inum, l). length dir - pos)")
    (auto dest!: sym [THEN scan_pos])

declare lookup_scan.simps [simp del] readdir_scan.simps [simp del]

section \<open>What the scanners see\<close>

text \<open>The pairs of strings the loop has in hand each time it reaches the state \<open>CHECK\<close>.\<close>

function tokens :: "string \<Rightarrow> nat \<Rightarrow> readstate \<Rightarrow> string \<Rightarrow> string \<Rightarrow> (string \<times> string) list" where
  "tokens dir pos st fname inum =
     (if pos < length dir
      then (case scan_inum dir (scan_name dir (pos, st, fname, inum)) of
              (pos', st', fname', inum') \<Rightarrow>
                (if st' = CHECK then (fname', inum') # tokens dir (pos' + 1) FILENAME [] []
                 else tokens dir (pos' + 1) st' fname' inum'))
      else [])"
  by pat_completeness auto
termination
  by (relation "measure (\<lambda>(dir, pos, st, fname, inum). length dir - pos)")
    (auto dest!: sym [THEN scan_pos])

declare tokens.simps [simp del]

lemma lookup_scan_tokens:
  "lookup_scan dir name pos st f i =
     (case List.find (\<lambda>t. fst t = name) (tokens dir pos st f i) of
        None \<Rightarrow> Some None
      | Some t \<Rightarrow> map_option Some (n2i (snd t)))"
proof (induction dir name pos st f i rule: lookup_scan.induct)
  case (1 dir name pos st f i)
  obtain pos' st' f' i' where step: "scan_inum dir (scan_name dir (pos, st, f, i)) = (pos', st', f', i')"
    by (metis prod_cases4)
  show ?case
    using "1.IH" [OF _ step [symmetric]]
    by (simp add: lookup_scan.simps [of dir name pos] tokens.simps [of dir pos] step map_option_case
        Option.bind_def split: option.split)
qed

fun collect :: "(string \<times> string) list \<Rightarrow> (string \<times> nat) list option" where
  "collect [] = Some []"
| "collect ((f, i) # ts) = do { ino \<leftarrow> n2i i; es \<leftarrow> collect ts; Some ((f, ino) # es) }"

lemma readdir_scan_tokens:
  "readdir_scan dir pos st f i l = map_option (\<lambda>es. l @ es) (collect (tokens dir pos st f i))"
proof (induction dir pos st f i l rule: readdir_scan.induct)
  case (1 dir pos st f i l)
  obtain pos' st' f' i' where step: "scan_inum dir (scan_name dir (pos, st, f, i)) = (pos', st', f', i')"
    by (metis prod_cases4)
  show ?case
    using "1.IH" [OF _ step [symmetric]]
    by (simp add: readdir_scan.simps [of dir pos] tokens.simps [of dir pos] step)
      (cases "n2i i'"; cases "collect (tokens dir (Suc pos') FILENAME [] [])"; simp)
qed

section \<open>Well-formed directories\<close>

fun dir_string :: "(string \<times> nat) list \<Rightarrow> string" where
  "dir_string [] = []"
| "dir_string [(n, i)] = n @ CHR '';'' # filename i"
| "dir_string ((n, i) # e # es) = n @ CHR '';'' # filename i @ CHR '';'' # dir_string (e # es)"

text \<open>Names are C strings without a separator, inode numbers have 64 bits.\<close>

definition name_ok :: "string \<Rightarrow> bool" where
  "name_ok n \<longleftrightarrow> CHR '';'' \<notin> set n \<and> CHR 0x00 \<notin> set n"

definition dir_ok :: "(string \<times> nat) list \<Rightarrow> bool" where
  "dir_ok es \<longleftrightarrow> (\<forall>(n, i) \<in> set es. name_ok n \<and> i < 2 ^ 64)"

lemma tokens_end: "length dir \<le> pos \<Longrightarrow> tokens dir pos st f i = []"
  by (simp add: tokens.simps)

lemma ch_at_append [simp]:
  "ch_at (pre @ c # r) (length pre) = c" "ch_at (pre @ x @ c # r) (length pre + length x) = c"
  by (simp_all add: ch_at_def nth_append)

lemma tokens_name:
  "CHR '';'' \<notin> set n \<Longrightarrow>
     tokens (pre @ n @ r) (length pre) FILENAME f i = tokens (pre @ n @ r) (length pre + length n) FILENAME (f @ n) i"
proof (induction n arbitrary: pre f)
  case (Cons c n)
  have "tokens (pre @ (c # n) @ r) (length pre) FILENAME f i
      = tokens ((pre @ [c]) @ n @ r) (length (pre @ [c])) FILENAME (f @ [c]) i"
    using Cons.prems by (auto simp: tokens.simps [of _ "length pre"] scan_name_def scan_inum_def)
  also have "\<dots> = tokens ((pre @ [c]) @ n @ r) (length (pre @ [c]) + length n) FILENAME ((f @ [c]) @ n) i"
    using Cons.prems by (intro Cons.IH) simp
  finally show ?case by simp
qed simp

lemma tokens_sep:
  assumes "r \<noteq> []"
  shows "tokens (pre @ CHR '';'' # r) (length pre) FILENAME f i
    = tokens (pre @ CHR '';'' # r) (length pre + 1) INODENUM f i"
  using assms
  by (simp add: tokens.simps [of _ "length pre"] tokens.simps [of _ "Suc (length pre)"] scan_name_def scan_inum_def)

lemma tokens_digits_sep:
  "CHR '';'' \<notin> set d \<Longrightarrow>
     tokens (pre @ d @ CHR '';'' # r) (length pre) INODENUM f i
       = (f, i @ d) # tokens (pre @ d @ CHR '';'' # r) (length pre + length d + 1) FILENAME [] []"
proof (induction d arbitrary: pre i)
  case Nil
  then show ?case by (simp add: tokens.simps [of _ "length pre"] scan_name_def scan_inum_def)
next
  case (Cons c d)
  have "tokens (pre @ (c # d) @ CHR '';'' # r) (length pre) INODENUM f i
      = tokens ((pre @ [c]) @ d @ CHR '';'' # r) (length (pre @ [c])) INODENUM f (i @ [c])"
    using Cons.prems by (auto simp: tokens.simps [of _ "length pre"] scan_name_def scan_inum_def)
  also have "\<dots> = (f, (i @ [c]) @ d) #
      tokens ((pre @ [c]) @ d @ CHR '';'' # r) (length (pre @ [c]) + length d + 1) FILENAME [] []"
    using Cons.prems by (intro Cons.IH) simp
  finally show ?case by simp
qed

lemma tokens_digits_end:
  "CHR '';'' \<notin> set d \<Longrightarrow> d \<noteq> [] \<Longrightarrow> tokens (pre @ d) (length pre) INODENUM f i = [(f, i @ d)]"
proof (induction d arbitrary: pre i)
  case (Cons c d)
  have c: "ch_at (pre @ c # d) (length pre) = c" by simp
  show ?case
  proof (cases "d = []")
    case True
    with Cons.prems c show ?thesis
      by (simp add: tokens.simps [of _ "length pre"] scan_name_def scan_inum_def tokens_end)
  next
    case False
    have "tokens (pre @ c # d) (length pre) INODENUM f i
        = tokens ((pre @ [c]) @ d) (length (pre @ [c])) INODENUM f (i @ [c])"
      using Cons.prems False by (auto simp: tokens.simps [of _ "length pre"] scan_name_def scan_inum_def)
    also have "\<dots> = [(f, (i @ [c]) @ d)]" using Cons.prems False by (intro Cons.IH) simp_all
    finally show ?thesis by simp
  qed
qed simp

lemma filename_no_sep: "CHR '';'' \<notin> set (filename n)"
  using filename_digits [of n] digit_not_special(2) by blast

lemma tokens_dir_string:
  "dir_ok es \<Longrightarrow> tokens (pre @ dir_string es) (length pre) FILENAME [] [] = map (\<lambda>(n, i). (n, filename i)) es"
proof (induction es arbitrary: pre rule: dir_string.induct)
  case 1
  then show ?case by (simp add: tokens_end)
next
  case (2 n i)
  then have n: "CHR '';'' \<notin> set n" by (simp add: dir_ok_def name_ok_def)
  have "tokens (pre @ dir_string [(n, i)]) (length pre) FILENAME [] []
      = tokens ((pre @ n) @ CHR '';'' # filename i) (length (pre @ n)) FILENAME n []"
    using tokens_name [OF n, of pre "CHR '';'' # filename i" "[]" "[]"] by simp
  also have "\<dots> = tokens (((pre @ n) @ [CHR '';'']) @ filename i) (length ((pre @ n) @ [CHR '';''])) INODENUM n []"
    using tokens_sep [of "filename i" "pre @ n" n "[]"] by simp
  also have "\<dots> = [(n, filename i)]" 
    using tokens_digits_end [OF filename_no_sep filename_ne, of "(pre @ n) @ [CHR '';'']" i n "[]"] by simp
  finally show ?case by simp
next
  case (3 n i e es)
  let ?r = "dir_string (e # es)"
  let ?pre = "((pre @ n) @ [CHR '';'']) @ filename i @ [CHR '';'']"
  from 3 have n: "CHR '';'' \<notin> set n" and ok: "dir_ok (e # es)" by (simp_all add: dir_ok_def name_ok_def)
  have "tokens (pre @ dir_string ((n, i) # e # es)) (length pre) FILENAME [] []
      = tokens ((pre @ n) @ CHR '';'' # filename i @ CHR '';'' # ?r) (length (pre @ n)) FILENAME n []"
    using tokens_name [OF n, of pre "CHR '';'' # filename i @ CHR '';'' # ?r" "[]" "[]"] by simp
  also have "\<dots> = tokens (((pre @ n) @ [CHR '';'']) @ filename i @ CHR '';'' # ?r)
      (length ((pre @ n) @ [CHR '';''])) INODENUM n []"
    using tokens_sep [of "filename i @ CHR '';'' # ?r" "pre @ n" n "[]"] by simp
  also have "\<dots> = (n, filename i) # tokens (?pre @ ?r) (length ?pre) FILENAME [] []"
    using tokens_digits_sep [OF filename_no_sep, of "(pre @ n) @ [CHR '';'']" i ?r n "[]"]
    by (simp add: add.assoc)
  also have "tokens (?pre @ ?r) (length ?pre) FILENAME [] [] = map (\<lambda>(n, i). (n, filename i)) (e # es)"
    by (rule "3.IH" [OF ok])
  finally show ?case by simp
qed

lemma find_map_filename:
  "dir_ok es \<Longrightarrow>
     (case List.find (\<lambda>t. fst t = name) (map (\<lambda>(n, i). (n, filename i)) es) of
        None \<Rightarrow> Some None
      | Some t \<Rightarrow> map_option Some (n2i (snd t))) = Some (map_of es name)"
proof (induction es)
  case (Cons e es)
  obtain n i where e: "e = (n, i)" by (cases e)
  have i: "i < 2 ^ 64" and ok: "dir_ok es" using Cons.prems by (auto simp: dir_ok_def e)
  show ?case
  proof (cases "n = name")
    case True
    then show ?thesis using n2i_filename [OF i] by (simp add: e)
  next
    case False
    then show ?thesis using Cons.IH [OF ok] by (simp add: e)
  qed
qed simp

text \<open>Looking a name up gives the inode number of its first entry.\<close>

lemma lookup_dir_string:
  "dir_ok es \<Longrightarrow> lookup_scan (dir_string es) name 0 FILENAME [] [] = Some (map_of es name)"
  using tokens_dir_string [of es "[]"] find_map_filename [of es name] by (simp add: lookup_scan_tokens)

lemma collect_map_filename: "dir_ok es \<Longrightarrow> collect (map (\<lambda>(n, i). (n, filename i)) es) = Some es"
proof (induction es)
  case (Cons e es)
  obtain n i where e: "e = (n, i)" by (cases e)
  have i: "i < 2 ^ 64" and ok: "dir_ok es" using Cons.prems by (auto simp: dir_ok_def e)
  show ?case using n2i_filename [OF i] Cons.IH [OF ok] by (simp add: e)
qed simp

text \<open>Listing a directory gives all its entries in order.\<close>

lemma readdir_dir_string:
  "dir_ok es \<Longrightarrow> readdir_scan (dir_string es) 0 FILENAME [] [] l = Some (l @ es)"
  using tokens_dir_string [of es "[]"] collect_map_filename [of es] by (simp add: readdir_scan_tokens)

section \<open>Adding and removing an entry\<close>

text \<open>The text \<open>nlock_create\<close>, \<open>mkdir\<close> and \<open>createlink\<close> write for a new entry.\<close>

definition add_entry :: "string \<Rightarrow> string \<Rightarrow> nat \<Rightarrow> string" where
  "add_entry dir_list file_name ino =
     (if length dir_list = 0 then dir_list @ (file_name @ '';'' @ filename ino)
      else dir_list @ ('';'' @ file_name @ '';'' @ filename ino))"

text \<open>\<open>string::find\<close> of a C string, \<open>string::erase\<close>, which throws behind the end.\<close>

fun find_str :: "string \<Rightarrow> string \<Rightarrow> nat option" where
  "find_str pat s =
     (if take (length pat) s = pat then Some 0
      else case s of [] \<Rightarrow> None | c # cs \<Rightarrow> map_option Suc (find_str pat cs))"

declare find_str.simps [simp del]

definition erase :: "string \<Rightarrow> nat \<Rightarrow> nat \<Rightarrow> string option" where
  "erase s pos n = (if length s < pos then None else Some (take pos s @ drop (pos + n) s))"

text \<open>
  The surgery \<open>unlink\<close> and \<open>nlock_unlink\<close> do: from the first occurrence of the name anywhere
  in the text, as many characters as the entry has, and one separator. \<open>None\<close> is the
  exception that \<open>erase\<close> throws when the name does not occur.
\<close>

definition cut_entry :: "string \<Rightarrow> string \<Rightarrow> nat \<Rightarrow> string option" where
  "cut_entry dir_list name target_inode =
     do {
       begin_pos \<leftarrow> find_str name dir_list;
       let target_len = length name + 1 + length (filename target_inode);
       d \<leftarrow> (if begin_pos = 0 \<and> length dir_list = begin_pos + target_len
             then erase dir_list begin_pos target_len
             else if length dir_list = begin_pos + target_len
             then erase dir_list (begin_pos - 1) (target_len + 1)
             else erase dir_list begin_pos (target_len + 1));
       Some (if ch_at d 0 = CHR 0x00 then [] else d)
     }"

lemma dir_string_eq_Nil [simp]: "dir_string es = [] \<longleftrightarrow> es = []"
  by (cases es rule: dir_string.cases) simp_all

lemma dir_string_append:
  "es \<noteq> [] \<Longrightarrow> fs \<noteq> [] \<Longrightarrow> dir_string (es @ fs) = dir_string es @ CHR '';'' # dir_string fs"
proof (induction es rule: dir_string.induct)
  case (2 n i)
  then show ?case by (cases fs) simp_all
qed simp_all

lemma add_entry_dir_string: "add_entry (dir_string es) n i = dir_string (es @ [(n, i)])"
  by (cases "es = []") (simp_all add: add_entry_def dir_string_append)

lemma dir_ok_snoc: "dir_ok (es @ [(n, i)]) \<longleftrightarrow> dir_ok es \<and> name_ok n \<and> i < 2 ^ 64"
  by (auto simp: dir_ok_def)

text \<open>Where the entry behind the entries \<open>pre\<close> starts.\<close>

definition entry_pos :: "(string \<times> nat) list \<Rightarrow> nat" where
  "entry_pos pre = (if pre = [] then 0 else length (dir_string pre) + 1)"

lemma ch_at_dir_string: "dir_ok es \<Longrightarrow> ch_at (dir_string es) 0 = CHR 0x00 \<longleftrightarrow> es = []"
proof (cases es rule: dir_string.cases)
  case (2 n i)
  assume "dir_ok es"
  then have "CHR 0x00 \<notin> set n" by (simp add: 2 dir_ok_def name_ok_def)
  then show ?thesis by (cases n) (auto simp: 2 ch_at_def)
next
  case (3 n i e es')
  assume "dir_ok es"
  then have "CHR 0x00 \<notin> set n" by (simp add: 3 dir_ok_def name_ok_def)
  then show ?thesis by (cases n) (auto simp: 3 ch_at_def)
qed (simp add: ch_at_def)

text \<open>The surgery is right when the name does not occur before its own entry.\<close>

lemma cut_entry_dir_string:
  assumes ok: "dir_ok (pre @ (n, i) # post)"
    and first: "find_str n (dir_string (pre @ (n, i) # post)) = Some (entry_pos pre)"
  shows "cut_entry (dir_string (pre @ (n, i) # post)) n i = Some (dir_string (pre @ post))"
proof -
  have ok': "dir_ok (pre @ post)" using ok by (simp add: dir_ok_def)
  note fix_up = ch_at_dir_string [OF ok']
  consider "pre = []" "post = []" | "pre \<noteq> []" "post = []" | "pre = []" "post \<noteq> []" | "pre \<noteq> []" "post \<noteq> []"
    by blast
  then show ?thesis
  proof cases
    case 1
    then show ?thesis using first by (simp add: cut_entry_def erase_def entry_pos_def ch_at_def)
  next
    case 2
    then show ?thesis
      using first fix_up by (simp add: cut_entry_def erase_def entry_pos_def dir_string_append)
  next
    case 3
    then obtain e es where "post = e # es" by (cases post) simp_all
    with 3 show ?thesis using first fix_up by (simp add: cut_entry_def erase_def entry_pos_def)
  next
    case 4
    then obtain e es where post: "post = e # es" by (cases post) simp_all
    from 4 show ?thesis
      using first fix_up by (simp add: cut_entry_def erase_def entry_pos_def dir_string_append post numeral_3_eq_3)
  qed
qed

section \<open>Theorems\<close>

lemma fold_add_entry: "fold (\<lambda>(n, i) d. add_entry d n i) es (dir_string xs) = dir_string (xs @ es)"
proof (induction es arbitrary: xs)
  case (Cons e es)
  obtain n i where e: "e = (n, i)" by (cases e)
  show ?case using Cons.IH [of "xs @ [(n, i)]"] by (simp add: e add_entry_dir_string)
qed simp

text \<open>
  C10. What the operations that add entries write, the scanners read: for entries whose names contain neither the separator nor a zero
  character and whose inode numbers have 64 bits, adding them one by one to an empty directory and listing it gives the same entries in the same order, and
  looking up a name gives the inode number of the first entry with that name, or nothing.
\<close>

theorem directory_roundtrip:
  assumes "dir_ok es"
  shows "readdir_scan (fold (\<lambda>(n, i) d. add_entry d n i) es []) 0 FILENAME [] [] [] = Some es
    \<and> lookup_scan (fold (\<lambda>(n, i) d. add_entry d n i) es []) name 0 FILENAME [] [] = Some (map_of es name)"
proof -
  have "fold (\<lambda>(n, i) d. add_entry d n i) es [] = dir_string es" using fold_add_entry [of es "[]"] by simp
  then show ?thesis using readdir_dir_string [OF assms, of "[]"] lookup_dir_string [OF assms, of name] by simp
qed

theorem directory_roundtrip_witness:
  "readdir_scan (fold (\<lambda>(n, i) d. add_entry d n i) [(''a b'', 2), (''c'', 2 ^ 64 - 1)] []) 0 FILENAME [] [] []
     = Some [(''a b'', 2), (''c'', 2 ^ 64 - 1)]
   \<and> lookup_scan (fold (\<lambda>(n, i) d. add_entry d n i) [(''a b'', 2), (''c'', 2 ^ 64 - 1)] []) ''c'' 0 FILENAME [] []
     = Some (Some (2 ^ 64 - 1))"
proof -
  have "dir_ok [(''a b'', 2), (''c'', 2 ^ 64 - 1)]" by (simp add: dir_ok_def name_ok_def)
  moreover have "map_of [(''a b'', 2), (''c'', 2 ^ 64 - 1)] ''c'' = Some (2 ^ 64 - 1 :: nat)" by simp
  ultimately show ?thesis using directory_roundtrip [of "[(''a b'', 2), (''c'', 2 ^ 64 - 1)]" "''c''"] by (simp only:)
qed

end
