(* ===== verification/Yfs_Client.thy ===== *)
theory Yfs_Client
  imports Dir_Format
begin

text \<open>
  The file system operations, \<open>src/yfs/yfs_client.cc\<close>. A \<open>yfs_client\<close> holds pointers to an
  extent client \<open>ec\<close> and a lock client \<open>lc\<close>, whose class is not fixed (\<open>lock_client\<close> or
  \<open>lock_client_cache\<close>, with virtual methods); here the record \<open>fs_ops\<close> of their operations
  on a state \<open>'s\<close>. An operation returns the new state, its status, and the values of its
  reference parameters; \<open>None\<close> is an aborted process or a call that never returns.
  Names are the characters of a C string.
\<close>

record 's fs_ops =
  ec_create :: "nat \<Rightarrow> nat \<Rightarrow> 's \<Rightarrow> ('s \<times> status \<times> nat) option"
  ec_get :: "nat \<Rightarrow> string \<Rightarrow> 's \<Rightarrow> ('s \<times> status \<times> string) option"
  ec_getattr :: "nat \<Rightarrow> attr \<Rightarrow> 's \<Rightarrow> ('s \<times> status \<times> attr) option"
  ec_put :: "nat \<Rightarrow> string \<Rightarrow> 's \<Rightarrow> ('s \<times> status) option"
  ec_remove :: "nat \<Rightarrow> 's \<Rightarrow> ('s \<times> status) option"
  lc_acq :: "nat \<Rightarrow> 's \<Rightarrow> 's option"
  lc_rel :: "nat \<Rightarrow> 's \<Rightarrow> 's option"

definition yfs_OK :: status where "yfs_OK = 0"
definition yfs_RPCERR :: status where "yfs_RPCERR = 1"
definition yfs_NOENT :: status where "yfs_NOENT = 2"
definition yfs_IOERR :: status where "yfs_IOERR = 3"
definition yfs_EXIST :: status where "yfs_EXIST = 4"

record fileinfo =
  fi_size :: nat
  fi_atime :: nat
  fi_mtime :: nat
  fi_ctime :: nat

record dirinfo =
  di_atime :: nat
  di_mtime :: nat
  di_ctime :: nat

text \<open>The local variable \<open>a\<close>, which is only read after a successful \<open>getattr\<close> has set it.\<close>

definition attr0 :: attr where
  "attr0 = \<lparr>a_type = 0, a_atime = 0, a_mtime = 0, a_ctime = 0, a_size = 0\<rparr>"

section \<open>Types and attributes\<close>

definition nlock_isfile :: "'s fs_ops \<Rightarrow> nat \<Rightarrow> 's \<Rightarrow> ('s \<times> bool) option" where
  "nlock_isfile ops inum s =
     do {
       (s, ret, a) \<leftarrow> ec_getattr ops inum attr0 s;
       (if ret \<noteq> ext_OK then Some (s, False) else Some (s, a_type a = T_FILE))
     }"

definition isfile :: "'s fs_ops \<Rightarrow> nat \<Rightarrow> 's \<Rightarrow> ('s \<times> bool) option" where
  "isfile ops inum s =
     do { s \<leftarrow> lc_acq ops inum s; (s, r) \<leftarrow> nlock_isfile ops inum s; s \<leftarrow> lc_rel ops inum s; Some (s, r) }"

definition nlock_isdir :: "'s fs_ops \<Rightarrow> nat \<Rightarrow> 's \<Rightarrow> ('s \<times> bool) option" where
  "nlock_isdir ops inum s =
     do {
       (s, ret, a) \<leftarrow> ec_getattr ops inum attr0 s;
       (if ret \<noteq> ext_OK then Some (s, False) else Some (s, a_type a = T_DIR))
     }"

definition isdir :: "'s fs_ops \<Rightarrow> nat \<Rightarrow> 's \<Rightarrow> ('s \<times> bool) option" where
  "isdir ops inum s =
     do { s \<leftarrow> lc_acq ops inum s; (s, r) \<leftarrow> nlock_isdir ops inum s; s \<leftarrow> lc_rel ops inum s; Some (s, r) }"

definition nlock_islink :: "'s fs_ops \<Rightarrow> nat \<Rightarrow> 's \<Rightarrow> ('s \<times> bool) option" where
  "nlock_islink ops inum s =
     do {
       (s, ret, a) \<leftarrow> ec_getattr ops inum attr0 s;
       (if ret \<noteq> ext_OK then Some (s, False) else Some (s, a_type a = T_SYMLINK))
     }"

definition islink :: "'s fs_ops \<Rightarrow> nat \<Rightarrow> 's \<Rightarrow> ('s \<times> bool) option" where
  "islink ops inum s =
     do { s \<leftarrow> lc_acq ops inum s; (s, r) \<leftarrow> nlock_islink ops inum s; s \<leftarrow> lc_rel ops inum s; Some (s, r) }"

definition getfile :: "'s fs_ops \<Rightarrow> nat \<Rightarrow> fileinfo \<Rightarrow> 's \<Rightarrow> ('s \<times> status \<times> fileinfo) option" where
  "getfile ops inum fin s =
     do {
       s \<leftarrow> lc_acq ops inum s;
       (s, ret, a) \<leftarrow> ec_getattr ops inum attr0 s;
       let (r, fin) = (if ret \<noteq> ext_OK then (yfs_IOERR, fin)
                       else (yfs_OK, \<lparr>fi_size = a_size a, fi_atime = a_atime a, fi_mtime = a_mtime a,
                                      fi_ctime = a_ctime a\<rparr>));
       s \<leftarrow> lc_rel ops inum s;
       Some (s, r, fin)
     }"

definition getdir :: "'s fs_ops \<Rightarrow> nat \<Rightarrow> dirinfo \<Rightarrow> 's \<Rightarrow> ('s \<times> status \<times> dirinfo) option" where
  "getdir ops inum din s =
     do {
       s \<leftarrow> lc_acq ops inum s;
       (s, ret, a) \<leftarrow> ec_getattr ops inum attr0 s;
       let (r, din) = (if ret \<noteq> ext_OK then (yfs_IOERR, din)
                       else (yfs_OK, \<lparr>di_atime = a_atime a, di_mtime = a_mtime a, di_ctime = a_ctime a\<rparr>));
       s \<leftarrow> lc_rel ops inum s;
       Some (s, r, din)
     }"

text \<open>\<open>string::resize\<close>\<close>

definition resize :: "string \<Rightarrow> nat \<Rightarrow> string" where
  "resize s n = take n s @ replicate (n - length s) (CHR 0x00)"

definition setattr :: "'s fs_ops \<Rightarrow> nat \<Rightarrow> nat \<Rightarrow> 's \<Rightarrow> ('s \<times> status) option" where
  "setattr ops ino sz s =
     do {
       s \<leftarrow> lc_acq ops ino s;
       (s, ret, inode_content) \<leftarrow> ec_get ops ino [] s;
       (s, r) \<leftarrow> (if ret = ext_OK
                  then do { (s, _) \<leftarrow> ec_put ops ino (resize inode_content sz) s; Some (s, yfs_OK) }
                  else Some (s, yfs_IOERR));
       s \<leftarrow> lc_rel ops ino s;
       Some (s, r)
     }"

section \<open>Directories\<close>

text \<open>\<open>found\<close> and \<open>ino_out\<close> are passed in and out; an \<open>IOERR\<close> leaves both alone.\<close>

definition nlock_lookup :: "'s fs_ops \<Rightarrow> nat \<Rightarrow> string \<Rightarrow> bool \<Rightarrow> nat \<Rightarrow> 's \<Rightarrow> ('s \<times> status \<times> bool \<times> nat) option" where
  "nlock_lookup ops parent name found ino_out s =
     do {
       (s, dir) \<leftarrow> nlock_isdir ops parent s;
       (if \<not> dir then Some (s, yfs_OK, False, ino_out)
        else do {
          (s, ret, dir_list) \<leftarrow> ec_get ops parent [] s;
          (if ret = ext_OK
           then do {
             res \<leftarrow> lookup_scan dir_list name 0 FILENAME [] [];
             (case res of
                Some ino \<Rightarrow> Some (s, yfs_OK, True, ino)
              | None \<Rightarrow> Some (s, yfs_NOENT, False, ino_out))
           }
           else Some (s, yfs_IOERR, found, ino_out))
        })
     }"

definition lookup :: "'s fs_ops \<Rightarrow> nat \<Rightarrow> string \<Rightarrow> bool \<Rightarrow> nat \<Rightarrow> 's \<Rightarrow> ('s \<times> status \<times> bool \<times> nat) option" where
  "lookup ops parent name found ino_out s = nlock_lookup ops parent name found ino_out s"

definition nlock_create :: "'s fs_ops \<Rightarrow> nat \<Rightarrow> string \<Rightarrow> nat \<Rightarrow> 's \<Rightarrow> ('s \<times> status \<times> nat) option" where
  "nlock_create ops parent name ino_out s =
     do {
       (s, _, found, ino_out) \<leftarrow> nlock_lookup ops parent name False ino_out s;
       (if found then Some (s, yfs_EXIST, ino_out)
        else do {
          (s, _, ino_out) \<leftarrow> ec_create ops T_FILE ino_out s;
          (s, ret, dir_list) \<leftarrow> ec_get ops parent [] s;
          s \<leftarrow> (if ret = ext_OK
                then do { (s, _) \<leftarrow> ec_put ops parent (add_entry dir_list name ino_out) s; Some s }
                else Some s);
          Some (s, yfs_OK, ino_out)
        })
     }"

definition create :: "'s fs_ops \<Rightarrow> nat \<Rightarrow> string \<Rightarrow> nat \<Rightarrow> 's \<Rightarrow> ('s \<times> status \<times> nat) option" where
  "create ops parent name ino_out s =
     do {
       s \<leftarrow> lc_acq ops parent s;
       (s, r, ino_out) \<leftarrow> nlock_create ops parent name ino_out s;
       s \<leftarrow> lc_rel ops parent s;
       Some (s, r, ino_out)
     }"

definition mkdir :: "'s fs_ops \<Rightarrow> nat \<Rightarrow> string \<Rightarrow> nat \<Rightarrow> 's \<Rightarrow> ('s \<times> status \<times> nat) option" where
  "mkdir ops parent name ino_out s =
     do {
       s \<leftarrow> lc_acq ops parent s;
       (s, _, found, ino_out) \<leftarrow> nlock_lookup ops parent name False ino_out s;
       (s, r, ino_out) \<leftarrow>
         (if found then Some (s, yfs_EXIST, ino_out)
          else do {
            (s, _, ino_out) \<leftarrow> ec_create ops T_DIR ino_out s;
            (s, ret, dir_list) \<leftarrow> ec_get ops parent [] s;
            s \<leftarrow> (if ret = ext_OK
                  then do { (s, _) \<leftarrow> ec_put ops parent (add_entry dir_list name ino_out) s; Some s }
                  else Some s);
            Some (s, yfs_OK, ino_out)
          });
       s \<leftarrow> lc_rel ops parent s;
       Some (s, r, ino_out)
     }"

text \<open>
  On something that is not a directory \<open>nlock_readdir\<close> releases the lock although it is
  its caller that acquired it and releases it again.
\<close>

definition nlock_readdir :: "'s fs_ops \<Rightarrow> nat \<Rightarrow> (string \<times> nat) list \<Rightarrow> 's \<Rightarrow> ('s \<times> status \<times> (string \<times> nat) list) option" where
  "nlock_readdir ops dir l s =
     do {
       (s, isdir) \<leftarrow> nlock_isdir ops dir s;
       (if \<not> isdir then do { s \<leftarrow> lc_rel ops dir s; Some (s, yfs_OK, l) }
        else do {
          (s, ret, dir_list) \<leftarrow> ec_get ops dir [] s;
          (if ret = ext_OK then do { l \<leftarrow> readdir_scan dir_list 0 FILENAME [] [] l; Some (s, yfs_OK, l) }
           else Some (s, yfs_IOERR, l))
        })
     }"

definition readdir :: "'s fs_ops \<Rightarrow> nat \<Rightarrow> (string \<times> nat) list \<Rightarrow> 's \<Rightarrow> ('s \<times> status \<times> (string \<times> nat) list) option" where
  "readdir ops dir l s =
     do {
       s \<leftarrow> lc_acq ops dir s;
       (s, r, l) \<leftarrow> nlock_readdir ops dir l s;
       s \<leftarrow> lc_rel ops dir s;
       Some (s, r, l)
     }"

section \<open>Contents\<close>

text \<open>\<open>string::substr\<close> throws behind the end. \<open>off_t\<close> is a signed 64-bit integer.\<close>

definition substr :: "string \<Rightarrow> nat \<Rightarrow> string option" where
  "substr s pos = (if length s < pos then None else Some (drop pos s))"

definition size_of_off :: "int \<Rightarrow> nat" where
  "size_of_off off = nat (off mod 2 ^ 64)"

definition yfs_read :: "'s fs_ops \<Rightarrow> nat \<Rightarrow> nat \<Rightarrow> int \<Rightarrow> string \<Rightarrow> 's \<Rightarrow> ('s \<times> status \<times> string) option" where
  "yfs_read ops ino sz off data s =
     do {
       s \<leftarrow> lc_acq ops ino s;
       (s, ret, read_content) \<leftarrow> ec_get ops ino [] s;
       (r, data) \<leftarrow>
         (if ret = ext_OK
          then do {
            c \<leftarrow> (if length read_content mod 2 ^ 32 \<le> nat (off mod 2 ^ 32) then Some []
                  else substr read_content (size_of_off off));
            Some (yfs_OK, if sz < length c then resize c sz else c)
          }
          else Some (yfs_IOERR, data));
       s \<leftarrow> lc_rel ops ino s;
       Some (s, r, data)
     }"

text \<open>
  What \<open>write\<close> puts: the hole, if any, filled with zeroes, or the bytes from \<open>off\<close> on
  replaced. The copy loop counts with an \<open>int\<close>, and \<open>string::append\<close> throws for a length
  of \<open>2 ^ 63\<close> and more, which is what a negative offset asks for.
\<close>

definition patch :: "string \<Rightarrow> nat \<Rightarrow> string \<Rightarrow> string" where
  "patch content off new_content =
     (if length content < off
      then content @ replicate (off - length content) (CHR 0x00) @ new_content
      else take off content @ new_content @ drop (off + length new_content) content)"

definition yfs_write :: "'s fs_ops \<Rightarrow> nat \<Rightarrow> nat \<Rightarrow> int \<Rightarrow> (nat \<Rightarrow> char) \<Rightarrow> 's \<Rightarrow> ('s \<times> status \<times> nat) option" where
  "yfs_write ops ino sz off data s =
     do {
       s \<leftarrow> lc_acq ops ino s;
       (s, ret, read_content) \<leftarrow> ec_get ops ino [] s;
       (s, r, bytes_written) \<leftarrow>
         (if ret = ext_OK
          then if 2 ^ 31 \<le> sz \<or> 2 ^ 63 \<le> size_of_off off then None
               else do {
                 let new_content = map data [0..<sz];
                 let pos = size_of_off off;
                 let bytes_written = (if length read_content < pos then pos - length read_content else 0);
                 (s, _) \<leftarrow> ec_put ops ino (patch read_content pos new_content) s;
                 Some (s, yfs_OK, bytes_written + sz)
               }
          else Some (s, yfs_IOERR, 0));
       s \<leftarrow> lc_rel ops ino s;
       Some (s, r, bytes_written)
     }"

section \<open>Removing entries, symbolic links\<close>

definition nlock_unlink :: "'s fs_ops \<Rightarrow> nat \<Rightarrow> string \<Rightarrow> 's \<Rightarrow> ('s \<times> status) option" where
  "nlock_unlink ops parent name s =
     do {
       (s, _, found, target_inode) \<leftarrow> nlock_lookup ops parent name False 0 s;
       (if found
        then do {
          (s, ret, dir_list) \<leftarrow> ec_get ops parent [] s;
          (if ret = ext_OK
           then do {
             dir_list \<leftarrow> cut_entry dir_list name target_inode;
             (s, _) \<leftarrow> ec_put ops parent dir_list s;
             (s, _) \<leftarrow> ec_remove ops target_inode s;
             Some (s, yfs_OK)
           }
           else Some (s, yfs_IOERR))
        }
        else Some (s, yfs_NOENT))
     }"

definition unlink :: "'s fs_ops \<Rightarrow> nat \<Rightarrow> string \<Rightarrow> 's \<Rightarrow> ('s \<times> status) option" where
  "unlink ops parent name s =
     do {
       s \<leftarrow> lc_acq ops parent s;
       (s, _, found, target_inode) \<leftarrow> nlock_lookup ops parent name False 0 s;
       (s, r) \<leftarrow>
         (if found
          then do {
            (s, ret, dir_list) \<leftarrow> ec_get ops parent [] s;
            (if ret = ext_OK
             then do {
               dir_list \<leftarrow> cut_entry dir_list name target_inode;
               (s, _) \<leftarrow> ec_put ops parent dir_list s;
               s \<leftarrow> lc_acq ops target_inode s;
               (s, _) \<leftarrow> ec_remove ops target_inode s;
               s \<leftarrow> lc_rel ops target_inode s;
               Some (s, yfs_OK)
             }
             else Some (s, yfs_IOERR))
          }
          else Some (s, yfs_NOENT));
       s \<leftarrow> lc_rel ops parent s;
       Some (s, r)
     }"

text \<open>\<open>link_name.c_str()\<close> passed on as a C string ends at its first zero.\<close>

definition c_string :: "string \<Rightarrow> string" where
  "c_string s = takeWhile (\<lambda>c. c \<noteq> CHR 0x00) s"

definition createlink :: "'s fs_ops \<Rightarrow> nat \<Rightarrow> string \<Rightarrow> string \<Rightarrow> nat \<Rightarrow> 's \<Rightarrow> ('s \<times> status \<times> nat) option" where
  "createlink ops parent link_name target_name ino_out s =
     do {
       s \<leftarrow> lc_acq ops parent s;
       (s, _, found, ino_out) \<leftarrow> nlock_lookup ops parent (c_string link_name) False ino_out s;
       (s, r, ino_out) \<leftarrow>
         (if found then Some (s, yfs_EXIST, ino_out)
          else do {
            (s, _, ino_out) \<leftarrow> ec_create ops T_SYMLINK ino_out s;
            (s, ret, dir_list) \<leftarrow> ec_get ops parent [] s;
            s \<leftarrow> (if ret = ext_OK
                  then do { (s, _) \<leftarrow> ec_put ops parent (add_entry dir_list link_name ino_out) s; Some s }
                  else Some s);
            (s, _) \<leftarrow> ec_put ops ino_out target_name s;
            Some (s, yfs_OK, ino_out)
          });
       s \<leftarrow> lc_rel ops parent s;
       Some (s, r, ino_out)
     }"

definition yfs_readlink :: "'s fs_ops \<Rightarrow> nat \<Rightarrow> string \<Rightarrow> 's \<Rightarrow> ('s \<times> status \<times> string) option" where
  "yfs_readlink ops inum link_name s =
     do {
       s \<leftarrow> lc_acq ops inum s;
       (s, ret, link_name) \<leftarrow> ec_get ops inum link_name s;
       s \<leftarrow> lc_rel ops inum s;
       Some (s, if ret \<noteq> ext_OK then yfs_IOERR else yfs_OK, link_name)
     }"

section \<open>The system a client runs on\<close>

text \<open>
  The extent server behind its stubs and the lock server behind its own; both networks
  deliver every call. \<open>envs\<close> are the environments of the extent server's calls.
\<close>

record yfs_sys =
  ext :: extent_sys
  lks :: lock_sys

definition on_ext :: "(extent_sys \<Rightarrow> (extent_sys \<times> 'r) option) \<Rightarrow> yfs_sys \<Rightarrow> (yfs_sys \<times> 'r) option" where
  "on_ext f s = map_option (\<lambda>(x, r). (s\<lparr>ext := x\<rparr>, r)) (f (ext s))"

definition on_lks :: "(lock_sys \<Rightarrow> (lock_sys \<times> 'r) option) \<Rightarrow> yfs_sys \<Rightarrow> yfs_sys option" where
  "on_lks f s = map_option (\<lambda>(x, r). s\<lparr>lks := x\<rparr>) (f (lks s))"

definition yfs_ops :: "(nat \<Rightarrow> rpc_outcome) \<Rightarrow> (nat \<Rightarrow> env) \<Rightarrow> (nat \<Rightarrow> rpc_outcome) \<Rightarrow> int \<Rightarrow> yfs_sys fs_ops" where
  "yfs_ops net envs lnet clt =
     \<lparr>ec_create = (\<lambda>ty eid. on_ext (cl_create net envs ty eid)),
      ec_get = (\<lambda>eid buf. on_ext (cl_get net envs eid buf)),
      ec_getattr = (\<lambda>eid a. on_ext (cl_getattr net envs eid a)),
      ec_put = (\<lambda>eid buf. on_ext (cl_put net envs eid buf)),
      ec_remove = (\<lambda>eid. on_ext (cl_remove net envs eid)),
      lc_acq = (\<lambda>lid. on_lks (lc_acquire lnet clt lid)),
      lc_rel = (\<lambda>lid. on_lks (lc_release lnet clt lid))\<rparr>"

end
