(* ===== verification/Yfs_Spec.thy ===== *)
theory Yfs_Spec
  imports Yfs_Client
begin

text \<open>
  The contract between the file system operations and what they call, the locale
  \<open>extent_store\<close>, and what the operations do under it. The interpretation \<open>yfs\<close> discharges
  the contract for the extent server and the lock server of this development, behind a
  network that delivers every call.
\<close>

section \<open>The contract\<close>

definition content :: "(nat \<times> string) option \<Rightarrow> string" where
  "content f = (case f of None \<Rightarrow> [] | Some (t, c) \<Rightarrow> c)"

definition ftype :: "(nat \<times> string) option \<Rightarrow> nat" where
  "ftype f = (case f of None \<Rightarrow> 0 | Some (t, c) \<Rightarrow> t)"

lemma content_simps [simp]: "content None = []" "content (Some (t, c)) = c"
  by (simp_all add: content_def)

lemma ftype_simps [simp]: "ftype None = 0" "ftype (Some (t, c)) = t"
  by (simp_all add: ftype_def)

text \<open>
  \<open>fs s\<close> are the files, \<open>free s\<close> the number of free blocks, \<open>held s\<close> the locks that are held.
  Ids above 31 bits would alias smaller ones, so the laws are for smaller ids.
\<close>

locale extent_store =
  fixes ops :: "'s fs_ops"
    and inv :: "'s \<Rightarrow> bool"
    and fs :: "'s \<Rightarrow> nat \<Rightarrow> (nat \<times> string) option"
    and free :: "'s \<Rightarrow> nat"
    and held :: "'s \<Rightarrow> nat set"
  assumes get_law: "inv s \<Longrightarrow> i < 2 ^ 31 \<Longrightarrow> \<exists>s'. ec_get ops i buf s = Some (s', ext_OK, content (fs s i))
      \<and> inv s' \<and> fs s' = fs s \<and> free s' = free s \<and> held s' = held s"
    and getattr_law: "inv s \<Longrightarrow> i < 2 ^ 31 \<Longrightarrow> \<exists>s' a'. ec_getattr ops i a s = Some (s', ext_OK, a')
      \<and> inv s' \<and> fs s' = fs s \<and> free s' = free s \<and> held s' = held s
      \<and> (\<forall>k. k < 2 ^ 15 \<longrightarrow> (a_type a' = k) = (ftype (fs s i) = k)) \<and> a_size a' = length (content (fs s i))"
    and put_law: "inv s \<Longrightarrow> i < 2 ^ 31 \<Longrightarrow> fs s i = Some (t, old) \<Longrightarrow> length c \<le> NDIRECT * BLOCK_SIZE \<Longrightarrow>
      block_count (length c) - block_count (length old) \<le> free s \<Longrightarrow>
      \<exists>s'. ec_put ops i c s = Some (s', ext_OK) \<and> inv s' \<and> fs s' = (fs s)(i \<mapsto> (t, c))
        \<and> free s' + blocks_of (length c) = free s + blocks_of (length old) \<and> held s' = held s"
    and put_absent: "inv s \<Longrightarrow> i < 2 ^ 31 \<Longrightarrow> fs s i = None \<Longrightarrow>
      \<exists>s'. ec_put ops i c s = Some (s', ext_OK)
        \<and> inv s' \<and> fs s' = fs s \<and> free s' = free s \<and> held s' = held s"
    and create_law: "inv s \<Longrightarrow> 0 < ty \<Longrightarrow> ty < 2 ^ 16 \<Longrightarrow> 1 \<le> k \<Longrightarrow> k < INODE_NUM \<Longrightarrow> fs s k = None \<Longrightarrow>
      \<exists>s' j. ec_create ops ty i0 s = Some (s', ext_OK, j) \<and> 1 \<le> j \<and> j \<le> k \<and> fs s j = None
        \<and> inv s' \<and> fs s' = (fs s)(j \<mapsto> (ty, [])) \<and> free s' = free s \<and> held s' = held s"
    and create_full: "inv s \<Longrightarrow> 0 < ty \<Longrightarrow> ty < 2 ^ 16 \<Longrightarrow> (\<And>k. 1 \<le> k \<Longrightarrow> k < INODE_NUM \<Longrightarrow> fs s k \<noteq> None) \<Longrightarrow>
      \<exists>s'. ec_create ops ty i0 s = Some (s', ext_OK, 0)
        \<and> inv s' \<and> fs s' = fs s \<and> free s' = free s \<and> held s' = held s"
    and remove_law: "inv s \<Longrightarrow> i < 2 ^ 31 \<Longrightarrow> fs s i = Some (t, c) \<Longrightarrow> length c mod BLOCK_SIZE \<noteq> 0 \<Longrightarrow>
      \<exists>s'. ec_remove ops i s = Some (s', ext_OK) \<and> inv s' \<and> fs s' = (fs s)(i := None) \<and> held s' = held s"
    and acq_law: "inv s \<Longrightarrow> i \<notin> held s \<Longrightarrow> \<exists>s'. lc_acq ops i s = Some s'
        \<and> inv s' \<and> fs s' = fs s \<and> free s' = free s \<and> held s' = insert i (held s)"
    and acq_held: "i \<in> held s \<Longrightarrow> lc_acq ops i s = None"
    and rel_law: "inv s \<Longrightarrow> i \<in> held s \<Longrightarrow> \<exists>s'. lc_rel ops i s = Some s'
        \<and> inv s' \<and> fs s' = fs s \<and> free s' = free s \<and> held s' = held s - {i}"
    and rel_free: "i \<notin> held s \<Longrightarrow> lc_rel ops i s = None"

section \<open>The contract holds\<close>

definition sys_inv :: "yfs_sys \<Rightarrow> bool" where
  "sys_inv s = fs_inv (x_im (ext s))"

definition sys_fs :: "yfs_sys \<Rightarrow> nat \<Rightarrow> (nat \<times> string) option" where
  "sys_fs s = ext_fs (x_im (ext s))"

definition sys_free :: "yfs_sys \<Rightarrow> nat" where
  "sys_free s = room (x_im (ext s))"

definition sys_held :: "yfs_sys \<Rightarrow> nat set" where
  "sys_held s = held_locks (l_srv (lks s))"

text \<open>A client with the non-negative id \<open>clt\<close> on a network that delivers.\<close>

definition local_ops :: "(nat \<Rightarrow> env) \<Rightarrow> nat \<Rightarrow> yfs_sys fs_ops" where
  "local_ops envs clt = yfs_ops (\<lambda>_. Delivered) envs (\<lambda>_. Delivered) (int clt)"

lemmas sys_defs = sys_inv_def sys_fs_def sys_free_def sys_held_def

lemma reliable_Delivered [simp]: "reliable (\<lambda>_. Delivered)"
  by (simp add: reliable_def)

lemma on_ext_call:
  assumes "h (envs (x_calls (ext s))) (x_im (ext s)) = Some (im', ext_OK, r')"
  shows "on_ext (rpc_call (\<lambda>_. Delivered) envs h r) s
    = Some (s\<lparr>ext := (ext s)\<lparr>x_calls := x_calls (ext s) + 1, x_im := im'\<rparr>\<rparr>, ext_OK, r')"
  using rpc_call_reliable [OF reliable_Delivered, of h envs "ext s", OF assms, of r]
  by (simp add: on_ext_def ext_OK_def)

lemma u32_of_short_eq: "k < 2 ^ 15 \<Longrightarrow> (u32_of_short t = k) = (t = k)"
  by (auto simp: u32_of_short_def)

lemma local_get:
  assumes "sys_inv s" and "i < 2 ^ 31"
  shows "\<exists>s'. ec_get (local_ops envs clt) i buf s = Some (s', ext_OK, content (sys_fs s i))
    \<and> sys_inv s' \<and> sys_fs s' = sys_fs s \<and> sys_free s' = sys_free s \<and> sys_held s' = sys_held s"
proof -
  obtain im' where im': "es_get i (envs (x_calls (ext s))) (x_im (ext s)) = Some (im', ext_OK, content (sys_fs s i))"
    "fs_inv im'" "ext_fs im' = ext_fs (x_im (ext s))" "room im' = room (x_im (ext s))"
    using es_get_ok [of "x_im (ext s)" i "envs (x_calls (ext s))"] assms by (auto simp: sys_defs content_def)
  show ?thesis
    using on_ext_call [of "es_get i" envs s, OF im'(1), of buf] im'(2-4)
    by (simp add: local_ops_def yfs_ops_def cl_get_def sys_defs)
qed

lemma local_getattr:
  assumes "sys_inv s" and "i < 2 ^ 31"
  shows "\<exists>s' a'. ec_getattr (local_ops envs clt) i a s = Some (s', ext_OK, a')
    \<and> sys_inv s' \<and> sys_fs s' = sys_fs s \<and> sys_free s' = sys_free s \<and> sys_held s' = sys_held s
    \<and> (\<forall>k. k < 2 ^ 15 \<longrightarrow> (a_type a' = k) = (ftype (sys_fs s i) = k)) \<and> a_size a' = length (content (sys_fs s i))"
proof -
  obtain a' where a': "es_getattr i (envs (x_calls (ext s))) (x_im (ext s)) = Some (x_im (ext s), ext_OK, a')"
    "case ext_fs (x_im (ext s)) i of None \<Rightarrow> a_type a' = 0 \<and> a_size a' = 0
       | Some (t, c) \<Rightarrow> a_type a' = u32_of_short t \<and> a_size a' = length c"
    using es_getattr_ok [of "x_im (ext s)" i "envs (x_calls (ext s))"] assms by (auto simp: sys_defs)
  let ?s = "s\<lparr>ext := (ext s)\<lparr>x_calls := x_calls (ext s) + 1, x_im := x_im (ext s)\<rparr>\<rparr>"
  show ?thesis
  proof (intro exI conjI allI impI)
    show "ec_getattr (local_ops envs clt) i a s = Some (?s, ext_OK, a')"
      using on_ext_call [of "es_getattr i" envs s, OF a'(1), of a]
      by (simp add: local_ops_def yfs_ops_def cl_getattr_def)
    show "(a_type a' = k) = (ftype (sys_fs s i) = k)" if "k < 2 ^ 15" for k
      using a'(2) u32_of_short_eq [OF that] by (cases "sys_fs s i") (simp_all add: sys_fs_def split: prod.splits)
    show "a_size a' = length (content (sys_fs s i))"
      using a'(2) by (cases "sys_fs s i") (simp_all add: sys_fs_def split: prod.splits)
  qed (use assms(1) in \<open>simp_all add: sys_defs\<close>)
qed

lemma on_ext_put:
  assumes "es_put i c (envs (x_calls (ext s))) (x_im (ext s)) = Some (im', ext_OK, ())"
  shows "ec_put (local_ops envs clt) i c s = Some (s\<lparr>ext := (ext s)\<lparr>x_calls := x_calls (ext s) + 1, x_im := im'\<rparr>\<rparr>, ext_OK)"
  using rpc_call_reliable [OF reliable_Delivered, of "es_put i c" envs "ext s", OF assms, of "()"]
  by (simp add: local_ops_def yfs_ops_def cl_put_def on_ext_def ext_OK_def)

lemma local_put:
  assumes "sys_inv s" and "i < 2 ^ 31" and "sys_fs s i = Some (t, old)" and "length c \<le> NDIRECT * BLOCK_SIZE"
    and "block_count (length c) - block_count (length old) \<le> sys_free s"
  shows "\<exists>s'. ec_put (local_ops envs clt) i c s = Some (s', ext_OK) \<and> sys_inv s' \<and> sys_fs s' = (sys_fs s)(i \<mapsto> (t, c))
    \<and> sys_free s' + blocks_of (length c) = sys_free s + blocks_of (length old) \<and> sys_held s' = sys_held s"
proof -
  obtain im' where im': "es_put i c (envs (x_calls (ext s))) (x_im (ext s)) = Some (im', ext_OK, ())"
    "fs_inv im'" "ext_fs im' = (ext_fs (x_im (ext s)))(i \<mapsto> (t, c))"
    "room im' + blocks_of (length c) = room (x_im (ext s)) + blocks_of (length old)"
    using es_put_ok [of "x_im (ext s)" i t old c "envs (x_calls (ext s))"] assms by (auto simp: sys_defs)
  show ?thesis using on_ext_put [of i c envs s, OF im'(1)] im'(2-4) by (simp add: sys_defs)
qed

lemma local_put_absent:
  assumes "sys_inv s" and "i < 2 ^ 31" and "sys_fs s i = None"
  shows "\<exists>s'. ec_put (local_ops envs clt) i c s = Some (s', ext_OK)
    \<and> sys_inv s' \<and> sys_fs s' = sys_fs s \<and> sys_free s' = sys_free s \<and> sys_held s' = sys_held s"
proof -
  have "es_put i c (envs (x_calls (ext s))) (x_im (ext s)) = Some (x_im (ext s), ext_OK, ())"
    using es_put_absent [of "x_im (ext s)" i] assms by (simp add: sys_defs)
  from on_ext_put [of i c envs s, OF this] assms(1) show ?thesis by (simp add: sys_defs)
qed

lemma local_create:
  assumes inv: "sys_inv s" and ty: "0 < ty" "ty < 2 ^ 16" and k: "1 \<le> k" "k < INODE_NUM" "sys_fs s k = None"
  shows "\<exists>s' j. ec_create (local_ops envs clt) ty i0 s = Some (s', ext_OK, j) \<and> 1 \<le> j \<and> j \<le> k \<and> sys_fs s j = None
    \<and> sys_inv s' \<and> sys_fs s' = (sys_fs s)(j \<mapsto> (ty, [])) \<and> sys_free s' = sys_free s \<and> sys_held s' = sys_held s"
proof -
  let ?im = "x_im (ext s)"
  obtain j im' where c: "es_create ty (envs (x_calls (ext s))) ?im = Some (im', ext_OK, j)" "1 \<le> j" "ext_fs ?im j = None"
    "\<forall>k. 1 \<le> k \<and> k < j \<longrightarrow> ext_fs ?im k \<noteq> None" "fs_inv im'" "ext_fs im' = (ext_fs ?im)(j \<mapsto> (ty, []))"
    "room im' = room ?im"
    using es_create_ok [of ?im ty "envs (x_calls (ext s))"] assms unfolding sys_defs by blast
  have "j \<le> k" using c(4) k unfolding sys_defs by (meson not_le_imp_less)
  then show ?thesis
    using on_ext_call [of "es_create ty" envs s, OF c(1), of i0] c
    by (simp add: local_ops_def yfs_ops_def cl_create_def sys_defs)
qed

lemma local_create_full:
  assumes inv: "sys_inv s" and ty: "0 < ty" "ty < 2 ^ 16" and full: "\<And>k. 1 \<le> k \<Longrightarrow> k < INODE_NUM \<Longrightarrow> sys_fs s k \<noteq> None"
  shows "\<exists>s'. ec_create (local_ops envs clt) ty i0 s = Some (s', ext_OK, 0)
    \<and> sys_inv s' \<and> sys_fs s' = sys_fs s \<and> sys_free s' = sys_free s \<and> sys_held s' = sys_held s"
proof -
  have "es_create ty (envs (x_calls (ext s))) (x_im (ext s)) = Some (x_im (ext s), ext_OK, 0)"
    using es_create_ok [of "x_im (ext s)" ty "envs (x_calls (ext s))"] assms unfolding sys_defs by blast
  from on_ext_call [of "es_create ty" envs s, OF this, of i0] inv show ?thesis
    by (simp add: local_ops_def yfs_ops_def cl_create_def sys_defs)
qed

lemma local_remove:
  assumes "sys_inv s" and "i < 2 ^ 31" and "sys_fs s i = Some (t, c)" and "length c mod BLOCK_SIZE \<noteq> 0"
  shows "\<exists>s'. ec_remove (local_ops envs clt) i s = Some (s', ext_OK) \<and> sys_inv s'
    \<and> sys_fs s' = (sys_fs s)(i := None) \<and> sys_held s' = sys_held s"
proof -
  obtain im' where im': "es_remove i (envs (x_calls (ext s))) (x_im (ext s)) = Some (im', ext_OK, ())"
    "fs_inv im'" "ext_fs im' = (ext_fs (x_im (ext s)))(i := None)"
    using es_remove_ok [of "x_im (ext s)" i t c "envs (x_calls (ext s))"] assms by (auto simp: sys_defs)
  have "0 \<le> ext_OK" by (simp add: ext_OK_def)
  from rpc_call_reliable [OF reliable_Delivered, of "es_remove i" envs "ext s", OF im'(1) this, of "()"] im'(2,3)
  show ?thesis by (simp add: local_ops_def yfs_ops_def cl_remove_def on_ext_def sys_defs)
qed

lemma local_acq:
  assumes "sys_inv s"
  shows "i \<notin> sys_held s \<Longrightarrow> \<exists>s'. lc_acq (local_ops envs clt) i s = Some s'
      \<and> sys_inv s' \<and> sys_fs s' = sys_fs s \<and> sys_free s' = sys_free s \<and> sys_held s' = insert i (sys_held s)"
  using assms by (simp add: local_ops_def yfs_ops_def on_lks_def lc_acquire_def ls_acquire_def sys_defs)

lemma local_acq_held: "i \<in> sys_held s \<Longrightarrow> lc_acq (local_ops envs clt) i s = None"
  by (simp add: local_ops_def yfs_ops_def on_lks_def lc_acquire_def ls_acquire_def sys_defs)

lemma local_rel:
  assumes "sys_inv s" and "i \<in> sys_held s"
  shows "\<exists>s'. lc_rel (local_ops envs clt) i s = Some s'
      \<and> sys_inv s' \<and> sys_fs s' = sys_fs s \<and> sys_free s' = sys_free s \<and> sys_held s' = sys_held s - {i}"
  using assms ls_release_held [of "int clt" i "l_srv (lks s)"]
  by (auto simp: local_ops_def yfs_ops_def on_lks_def lc_release_def sys_defs)

lemma local_rel_free: "i \<notin> sys_held s \<Longrightarrow> lc_rel (local_ops envs clt) i s = None"
  using ls_release_free [of i "l_srv (lks s)" "int clt"]
  by (auto simp: local_ops_def yfs_ops_def on_lks_def lc_release_def sys_defs case_prod_beta Let_def)

interpretation yfs: extent_store "local_ops envs clt" sys_inv sys_fs sys_free sys_held
  for envs clt
  by (unfold_locales;
      rule local_get local_getattr local_put local_put_absent local_create local_create_full local_remove
        local_acq local_acq_held local_rel local_rel_free; assumption)

end
