(* ===== verification/Yfs_Ops.thy ===== *)
theory Yfs_Ops
  imports Yfs_Spec
begin

text \<open>
  The operations of \<open>yfs_client\<close> under the contract \<open>extent_store\<close>: lookup, create, mkdir,
  readdir, unlink, symbolic links on directories in the text format, read, write and
  truncation on contents. The theorems about the system itself are the instances for the
  interpretation \<open>yfs\<close>.
\<close>

lemma T_small: "T_DIR < 2 ^ 15" "T_FILE < 2 ^ 15" "T_SYMLINK < 2 ^ 15" "0 < T_DIR" "0 < T_FILE" "0 < T_SYMLINK"
  by (simp_all add: T_DIR_def T_FILE_def T_SYMLINK_def)

lemma yfs_status [simp]: "yfs_OK \<noteq> yfs_NOENT" "yfs_OK \<noteq> yfs_EXIST" "ext_OK = yfs_OK"
  by (simp_all add: yfs_OK_def yfs_NOENT_def yfs_EXIST_def ext_OK_def)

lemma INODE_NUM_small: "j < INODE_NUM \<Longrightarrow> j < 2 ^ 31" "j < INODE_NUM \<Longrightarrow> j < 2 ^ 64"
  by (simp_all add: INODE_NUM_def)

lemma c_string_name: "name_ok n \<Longrightarrow> c_string n = n"
  by (auto simp: c_string_def name_ok_def takeWhile_eq_all_conv)

lemma length_filename: "n < 10 ^ Suc k \<Longrightarrow> length (filename n) \<le> Suc k"
proof (induction k arbitrary: n)
  case 0
  then show ?case by (simp add: filename.simps [of n])
next
  case (Suc k)
  have "n div 10 < 10 ^ Suc k" using Suc.prems by (simp add: less_mult_imp_div_less mult.commute)
  from Suc.IH [OF this] show ?case by (simp add: filename.simps [of n])
qed

lemma length_filename_inode: "j < INODE_NUM \<Longrightarrow> length (filename j) \<le> 4"
  using length_filename [of j 3] by (simp add: INODE_NUM_def)

lemma length_add_entry: "length (add_entry d n j) \<le> length d + length n + length (filename j) + 2"
  by (simp add: add_entry_def)

lemma block_count_mono: "m \<le> n \<Longrightarrow> block_count m \<le> block_count n"
  by (meson block_count_le_iff le_trans order_refl)

lemma block_count_grow: "m \<le> n + BLOCK_SIZE \<Longrightarrow> block_count m - block_count n \<le> 1"
  using block_count_mono [of m "n + BLOCK_SIZE"] by simp

lemma length_resize [simp]: "length (resize s n) = n"
  by (simp add: resize_def)

lemma map_of_entry: "map_of pre n = None \<Longrightarrow> map_of (pre @ (n, i) # post) n = Some i"
  by (simp add: map_add_def)

lemma length_dir_string_remove:
  "length (dir_string (pre @ post)) \<le> length (dir_string (pre @ e # post))"
proof -
  obtain n i where e: "e = (n, i)" by (cases e)
  consider "pre = []" "post = []" | "pre \<noteq> []" "post = []" | "pre = []" "post \<noteq> []" | "pre \<noteq> []" "post \<noteq> []"
    by blast
  then show ?thesis
    by cases (auto simp: e dir_string_append neq_Nil_conv)
qed

context extent_store
begin

lemma isdir_ok:
  assumes "inv s" and "i < 2 ^ 31"
  shows "\<exists>s'. nlock_isdir ops i s = Some (s', ftype (fs s i) = T_DIR)
    \<and> inv s' \<and> fs s' = fs s \<and> free s' = free s \<and> held s' = held s"
  using getattr_law [OF assms, of attr0] T_small(1) by (auto simp: nlock_isdir_def)

lemma isfile_ok:
  assumes "inv s" and "i < 2 ^ 31" and "i \<notin> held s"
  shows "\<exists>s'. isfile ops i s = Some (s', ftype (fs s i) = T_FILE)
    \<and> inv s' \<and> fs s' = fs s \<and> free s' = free s \<and> held s' = held s"
proof -
  obtain s1 where s1: "lc_acq ops i s = Some s1" "inv s1" "fs s1 = fs s" "free s1 = free s" "held s1 = insert i (held s)"
    using acq_law [OF assms(1,3)] by blast
  obtain s2 a where s2: "ec_getattr ops i attr0 s1 = Some (s2, ext_OK, a)" "inv s2" "fs s2 = fs s1" "free s2 = free s1"
    "held s2 = held s1" "\<forall>k. k < 2 ^ 15 \<longrightarrow> (a_type a = k) = (ftype (fs s1 i) = k)"
    using getattr_law [OF s1(2) assms(2), of attr0] by blast
  have h: "i \<in> held s2" using s1(5) s2(5) by simp
  obtain s3 where s3: "lc_rel ops i s2 = Some s3" "inv s3" "fs s3 = fs s2" "free s3 = free s2" "held s3 = held s2 - {i}"
    using rel_law [OF s2(2) h] by blast
  show ?thesis
    using s1 s2 s3 assms(3) T_small(2) by (auto simp: isfile_def nlock_isfile_def)
qed

text \<open>Looking a name up in a well-formed directory.\<close>

lemma lookup_ok:
  assumes "inv s" and "p < 2 ^ 31" and "fs s p = Some (T_DIR, dir_string es)" and "dir_ok es"
  shows "\<exists>s'. nlock_lookup ops p name found ino s
      = Some (s', if map_of es name = None then yfs_NOENT else yfs_OK, map_of es name \<noteq> None,
              case map_of es name of None \<Rightarrow> ino | Some i \<Rightarrow> i)
    \<and> inv s' \<and> fs s' = fs s \<and> free s' = free s \<and> held s' = held s"
proof -
  obtain s1 where s1: "nlock_isdir ops p s = Some (s1, True)" "inv s1" "fs s1 = fs s" "free s1 = free s" "held s1 = held s"
    using isdir_ok [OF assms(1,2)] assms(3) by auto
  obtain s2 where "ec_get ops p [] s1 = Some (s2, ext_OK, dir_string es)" "inv s2" "fs s2 = fs s" "free s2 = free s"
    "held s2 = held s"
    using get_law [OF s1(2) assms(2), of "[]"] s1(3-5) assms(3) by auto
  then show ?thesis
    using s1(1) lookup_dir_string [OF assms(4), of name] by (cases "map_of es name") (auto simp: nlock_lookup_def)
qed

lemma lookup_not_dir:
  assumes "inv s" and "p < 2 ^ 31" and "ftype (fs s p) \<noteq> T_DIR"
  shows "\<exists>s'. nlock_lookup ops p name found ino s = Some (s', yfs_OK, False, ino)
    \<and> inv s' \<and> fs s' = fs s \<and> free s' = free s \<and> held s' = held s"
  using isdir_ok [OF assms(1,2)] assms(3) by (auto simp: nlock_lookup_def)

text \<open>
  What \<open>nlock_create\<close>, \<open>mkdir\<close> and \<open>createlink\<close> share: a new inode and a new entry, under
  the lock of the directory.
\<close>

lemma new_entry_ok:
  assumes inv: "inv s" and p: "p < 2 ^ 31" "fs s p = Some (T_DIR, dir_string es)" and ok: "dir_ok es"
    and name: "name_ok name" and ty: "0 < ty" "ty < 2 ^ 16"
    and k: "1 \<le> k" "k < INODE_NUM" "fs s k = None"
    and fits: "length name + 6 \<le> BLOCK_SIZE" "length (dir_string es) + length name + 6 \<le> NDIRECT * BLOCK_SIZE" "1 \<le> free s"
  shows "\<exists>s1 s2 s3 j. ec_create ops ty i0 s = Some (s1, ext_OK, j) \<and> ec_get ops p [] s1 = Some (s2, ext_OK, dir_string es)
    \<and> ec_put ops p (add_entry (dir_string es) name j) s2 = Some (s3, ext_OK)
    \<and> 1 \<le> j \<and> j \<le> k \<and> j < INODE_NUM \<and> j \<noteq> p \<and> fs s j = None \<and> inv s3 \<and> held s3 = held s
    \<and> fs s3 = (fs s)(j \<mapsto> (ty, []), p \<mapsto> (T_DIR, dir_string (es @ [(name, j)])))
    \<and> dir_ok (es @ [(name, j)])
    \<and> free s3 + blocks_of (length (dir_string (es @ [(name, j)]))) = free s + blocks_of (length (dir_string es))"
proof -
  obtain s1 j where s1: "ec_create ops ty i0 s = Some (s1, ext_OK, j)" "1 \<le> j" "j \<le> k" "fs s j = None" "inv s1"
      "fs s1 = (fs s)(j \<mapsto> (ty, []))" "free s1 = free s" "held s1 = held s"
    using create_law [OF inv ty k] by blast
  have j: "j < INODE_NUM" "j \<noteq> p" using s1(3,4) k(2) p(2) by auto
  have p1: "fs s1 p = Some (T_DIR, dir_string es)" using s1(6) j(2) p(2) by simp
  obtain s2 where s2: "ec_get ops p [] s1 = Some (s2, ext_OK, dir_string es)" "inv s2" "fs s2 = fs s1" "free s2 = free s1"
      "held s2 = held s1"
    using get_law [OF s1(5) p(1), of "[]"] p1 by auto
  let ?new = "dir_string (es @ [(name, j)])"
  have len: "length ?new \<le> length (dir_string es) + length name + 6"
    using length_add_entry [of "dir_string es" name j] length_filename_inode [OF j(1)]
    by (simp add: add_entry_dir_string)
  then have fit: "length ?new \<le> NDIRECT * BLOCK_SIZE" "block_count (length ?new) - block_count (length (dir_string es)) \<le> free s2"
    using fits s2(4) s1(7) block_count_grow [of "length ?new" "length (dir_string es)"] by linarith+
  have p2: "fs s2 p = Some (T_DIR, dir_string es)" using s2(3) p1 by simp
  obtain s3 where s3: "ec_put ops p ?new s2 = Some (s3, ext_OK)" "inv s3" "fs s3 = (fs s2)(p \<mapsto> (T_DIR, ?new))"
      "free s3 + blocks_of (length ?new) = free s2 + blocks_of (length (dir_string es))" "held s3 = held s2"
    using put_law [OF s2(2) p(1) p2 fit] by blast
  have "dir_ok (es @ [(name, j)])" using ok name INODE_NUM_small(2) [OF j(1)] by (simp add: dir_ok_snoc)
  then show ?thesis
    using s1 s2 s3 j
    by (intro exI [of _ s1] exI [of _ s2] exI [of _ s3] exI [of _ j]) (simp add: add_entry_dir_string)
qed

text \<open>Entering and leaving the section under the lock of \<open>i\<close>.\<close>

lemma enter:
  assumes "inv s" and "i \<notin> held s"
  obtains s1 where "lc_acq ops i s = Some s1" "inv s1" "fs s1 = fs s" "free s1 = free s" "held s1 = insert i (held s)"
  using acq_law [OF assms] by blast

lemma leave:
  assumes "inv s" and "held s = insert i H" and "i \<notin> H"
  obtains s1 where "lc_rel ops i s = Some s1" "inv s1" "fs s1 = fs s" "free s1 = free s" "held s1 = H"
proof -
  have "i \<in> held s" using assms(2) by simp
  from rel_law [OF assms(1) this] obtain s1 where "lc_rel ops i s = Some s1" "inv s1" "fs s1 = fs s"
    "free s1 = free s" "held s1 = held s - {i}" by blast
  then show ?thesis using that assms(2,3) by simp
qed

text \<open>
  The section under the lock of the parent, up to the new entry, for a name that is not in
  the directory yet.
\<close>

lemma locked_new_entry:
  assumes inv: "inv s" and p: "p < 2 ^ 31" "fs s p = Some (T_DIR, dir_string es)" and ok: "dir_ok es"
    and name: "name_ok name" "map_of es name = None" and ty: "0 < ty" "ty < 2 ^ 16"
    and k: "1 \<le> k" "k < INODE_NUM" "fs s k = None"
    and fits: "length name + 6 \<le> BLOCK_SIZE" "length (dir_string es) + length name + 6 \<le> NDIRECT * BLOCK_SIZE" "1 \<le> free s"
    and h: "p \<notin> held s"
  obtains s1 s2 s3 s4 s5 j where "lc_acq ops p s = Some s1"
    "nlock_lookup ops p name False ino s1 = Some (s2, yfs_NOENT, False, ino)"
    "ec_create ops ty ino s2 = Some (s3, ext_OK, j)" "ec_get ops p [] s3 = Some (s4, ext_OK, dir_string es)"
    "ec_put ops p (add_entry (dir_string es) name j) s4 = Some (s5, ext_OK)"
    "1 \<le> j" "j \<le> k" "j < INODE_NUM" "j \<noteq> p" "fs s j = None" "inv s5" "held s5 = insert p (held s)"
    "fs s5 = (fs s)(j \<mapsto> (ty, []), p \<mapsto> (T_DIR, dir_string (es @ [(name, j)])))" "dir_ok (es @ [(name, j)])"
    "free s \<le> free s5 + 1"
proof -
  obtain s1 where s1: "lc_acq ops p s = Some s1" "inv s1" "fs s1 = fs s" "free s1 = free s" "held s1 = insert p (held s)"
    using enter [OF inv h] by blast
  have p1: "fs s1 p = Some (T_DIR, dir_string es)" "fs s1 k = None" "1 \<le> free s1" using s1 p k fits by simp_all
  obtain s2 where s2: "nlock_lookup ops p name False ino s1 = Some (s2, yfs_NOENT, False, ino)" "inv s2" "fs s2 = fs s1"
      "free s2 = free s1" "held s2 = held s1"
    using lookup_ok [OF s1(2) p(1) p1(1) ok, of name False ino] name(2) by auto
  have p2: "fs s2 p = Some (T_DIR, dir_string es)" "fs s2 k = None" "1 \<le> free s2" using s2 p1 by simp_all
  obtain s3 s4 s5 j where n: "ec_create ops ty ino s2 = Some (s3, ext_OK, j)" "ec_get ops p [] s3 = Some (s4, ext_OK, dir_string es)"
      "ec_put ops p (add_entry (dir_string es) name j) s4 = Some (s5, ext_OK)"
      "1 \<le> j" "j \<le> k" "j < INODE_NUM" "j \<noteq> p" "fs s2 j = None" "inv s5" "held s5 = held s2"
      "fs s5 = (fs s2)(j \<mapsto> (ty, []), p \<mapsto> (T_DIR, dir_string (es @ [(name, j)])))" "dir_ok (es @ [(name, j)])"
      "free s5 + blocks_of (length (dir_string (es @ [(name, j)]))) = free s2 + blocks_of (length (dir_string es))"
    using new_entry_ok [OF s2(2) p(1) p2(1) ok name(1) ty k(1,2) p2(2) fits(1,2) p2(3), of ino] by blast
  let ?new = "length (dir_string (es @ [(name, j)]))" and ?old = "length (dir_string es)"
  have "?new \<le> ?old + length name + 6"
    using length_add_entry [of "dir_string es" name j] length_filename_inode [OF n(6)] by (simp add: add_entry_dir_string)
  then have "block_count ?new - block_count ?old \<le> 1" "block_count ?new \<le> NDIRECT" "block_count ?old \<le> NDIRECT"
    using fits(1,2) block_count_grow [of ?new ?old] by (simp_all add: block_count_le_iff)
  then have "free s \<le> free s5 + 1" using n(13) s2(4) s1(4) by (simp add: blocks_of_def)
  then show thesis using that s1 s2 n by simp
qed

lemma create_ok:
  assumes inv: "inv s" and p: "p < 2 ^ 31" "fs s p = Some (T_DIR, dir_string es)" and ok: "dir_ok es"
    and name: "name_ok name" "map_of es name = None" and k: "1 \<le> k" "k < INODE_NUM" "fs s k = None"
    and fits: "length name + 6 \<le> BLOCK_SIZE" "length (dir_string es) + length name + 6 \<le> NDIRECT * BLOCK_SIZE" "1 \<le> free s"
    and h: "p \<notin> held s"
  shows "\<exists>s' j. create ops p name ino s = Some (s', yfs_OK, j) \<and> 1 \<le> j \<and> j \<le> k \<and> j < INODE_NUM \<and> fs s j = None
    \<and> inv s' \<and> held s' = held s \<and> dir_ok (es @ [(name, j)])
    \<and> fs s' = (fs s)(j \<mapsto> (T_FILE, []), p \<mapsto> (T_DIR, dir_string (es @ [(name, j)])))"
proof -
  have ty: "0 < T_FILE" "T_FILE < 2 ^ 16" by (simp_all add: T_FILE_def)
  show ?thesis
  proof (rule locked_new_entry [OF inv p ok name ty k fits h, of ino])
    fix s1 s2 s3 s4 s5 j
    assume n: "lc_acq ops p s = Some s1" "nlock_lookup ops p name False ino s1 = Some (s2, yfs_NOENT, False, ino)"
      "ec_create ops T_FILE ino s2 = Some (s3, ext_OK, j)" "ec_get ops p [] s3 = Some (s4, ext_OK, dir_string es)"
      "ec_put ops p (add_entry (dir_string es) name j) s4 = Some (s5, ext_OK)"
      and j: "1 \<le> j" "j \<le> k" "j < INODE_NUM" "fs s j = None" "inv s5" "dir_ok (es @ [(name, j)])"
        "fs s5 = (fs s)(j \<mapsto> (T_FILE, []), p \<mapsto> (T_DIR, dir_string (es @ [(name, j)])))"
      and h5: "held s5 = insert p (held s)"
    obtain s6 where s6: "lc_rel ops p s5 = Some s6" "inv s6" "fs s6 = fs s5" "held s6 = held s"
      using leave [OF j(5) h5 h] by blast
    have "create ops p name ino s = Some (s6, yfs_OK, j)"
      using n s6(1) by (simp add: create_def nlock_create_def)
    then show ?thesis using j s6 by (intro exI [of _ s6] exI [of _ j]) simp
  qed
qed

lemma mkdir_ok:
  assumes inv: "inv s" and p: "p < 2 ^ 31" "fs s p = Some (T_DIR, dir_string es)" and ok: "dir_ok es"
    and name: "name_ok name" "map_of es name = None" and k: "1 \<le> k" "k < INODE_NUM" "fs s k = None"
    and fits: "length name + 6 \<le> BLOCK_SIZE" "length (dir_string es) + length name + 6 \<le> NDIRECT * BLOCK_SIZE" "1 \<le> free s"
    and h: "p \<notin> held s"
  shows "\<exists>s' j. mkdir ops p name ino s = Some (s', yfs_OK, j) \<and> 1 \<le> j \<and> j \<le> k \<and> j < INODE_NUM \<and> j \<noteq> p \<and> fs s j = None
    \<and> inv s' \<and> held s' = held s \<and> dir_ok (es @ [(name, j)])
    \<and> fs s' = (fs s)(j \<mapsto> (T_DIR, []), p \<mapsto> (T_DIR, dir_string (es @ [(name, j)])))"
proof -
  have ty: "0 < T_DIR" "T_DIR < 2 ^ 16" by (simp_all add: T_DIR_def)
  show ?thesis
  proof (rule locked_new_entry [OF inv p ok name ty k fits h, of ino])
    fix s1 s2 s3 s4 s5 j
    assume n: "lc_acq ops p s = Some s1" "nlock_lookup ops p name False ino s1 = Some (s2, yfs_NOENT, False, ino)"
      "ec_create ops T_DIR ino s2 = Some (s3, ext_OK, j)" "ec_get ops p [] s3 = Some (s4, ext_OK, dir_string es)"
      "ec_put ops p (add_entry (dir_string es) name j) s4 = Some (s5, ext_OK)"
      and j: "1 \<le> j" "j \<le> k" "j < INODE_NUM" "j \<noteq> p" "fs s j = None" "inv s5" "dir_ok (es @ [(name, j)])"
        "fs s5 = (fs s)(j \<mapsto> (T_DIR, []), p \<mapsto> (T_DIR, dir_string (es @ [(name, j)])))"
      and h5: "held s5 = insert p (held s)"
    obtain s6 where s6: "lc_rel ops p s5 = Some s6" "inv s6" "fs s6 = fs s5" "held s6 = held s"
      using leave [OF j(6) h5 h] by blast
    have "mkdir ops p name ino s = Some (s6, yfs_OK, j)"
      using n s6(1) by (simp add: mkdir_def)
    then show ?thesis using j s6 by (intro exI [of _ s6] exI [of _ j]) simp
  qed
qed

lemma createlink_ok:
  assumes inv: "inv s" and p: "p < 2 ^ 31" "fs s p = Some (T_DIR, dir_string es)" and ok: "dir_ok es"
    and name: "name_ok name" "map_of es name = None" and k: "1 \<le> k" "k < INODE_NUM" "fs s k = None"
    and fits: "length name + 6 \<le> BLOCK_SIZE" "length (dir_string es) + length name + 6 \<le> NDIRECT * BLOCK_SIZE"
    and target: "length target \<le> NDIRECT * BLOCK_SIZE" "block_count (length target) + 1 \<le> free s"
    and h: "p \<notin> held s"
  shows "\<exists>s' j. createlink ops p name target ino s = Some (s', yfs_OK, j) \<and> 1 \<le> j \<and> j \<le> k \<and> j < INODE_NUM \<and> j \<noteq> p
    \<and> fs s j = None \<and> inv s' \<and> held s' = held s \<and> dir_ok (es @ [(name, j)])
    \<and> fs s' = (fs s)(p \<mapsto> (T_DIR, dir_string (es @ [(name, j)])), j \<mapsto> (T_SYMLINK, target))"
proof -
  have ty: "0 < T_SYMLINK" "T_SYMLINK < 2 ^ 16" by (simp_all add: T_SYMLINK_def)
  have f: "1 \<le> free s" using target(2) by simp
  have c: "c_string name = name"
    using name(1) by (auto simp: c_string_def name_ok_def takeWhile_eq_all_conv)
  show ?thesis
  proof (rule locked_new_entry [OF inv p ok name ty k fits f h, of ino])
    fix s1 s2 s3 s4 s5 j
    assume n: "lc_acq ops p s = Some s1" "nlock_lookup ops p name False ino s1 = Some (s2, yfs_NOENT, False, ino)"
      "ec_create ops T_SYMLINK ino s2 = Some (s3, ext_OK, j)" "ec_get ops p [] s3 = Some (s4, ext_OK, dir_string es)"
      "ec_put ops p (add_entry (dir_string es) name j) s4 = Some (s5, ext_OK)"
      and j: "1 \<le> j" "j \<le> k" "j < INODE_NUM" "j \<noteq> p" "fs s j = None" "inv s5" "dir_ok (es @ [(name, j)])"
        "fs s5 = (fs s)(j \<mapsto> (T_SYMLINK, []), p \<mapsto> (T_DIR, dir_string (es @ [(name, j)])))"
      and h5: "held s5 = insert p (held s)" and f5: "free s \<le> free s5 + 1"
    have j5: "j < 2 ^ 31" "fs s5 j = Some (T_SYMLINK, [])" using INODE_NUM_small(1) [OF j(3)] j(4,8) by simp_all
    obtain s6 where s6: "ec_put ops j target s5 = Some (s6, ext_OK)" "inv s6" "fs s6 = (fs s5)(j \<mapsto> (T_SYMLINK, target))"
        "held s6 = held s5"
      using put_law [OF j(6) j5 target(1)] target(2) f5 by auto
    have h6: "held s6 = insert p (held s)" using s6(4) h5 by simp
    obtain s7 where s7: "lc_rel ops p s6 = Some s7" "inv s7" "fs s7 = fs s6" "held s7 = held s"
      using leave [OF s6(2) h6 h] by blast
    have "createlink ops p name target ino s = Some (s7, yfs_OK, j)"
      using n s6(1) s7(1) by (simp add: createlink_def c)
    moreover have "fs s7 = (fs s)(p \<mapsto> (T_DIR, dir_string (es @ [(name, j)])), j \<mapsto> (T_SYMLINK, target))"
      using s7(3) s6(3) j(4,8) by auto
    ultimately show ?thesis using j s7 by (intro exI [of _ s7] exI [of _ j]) simp
  qed
qed

lemma create_exists:
  assumes inv: "inv s" and p: "p < 2 ^ 31" "fs s p = Some (T_DIR, dir_string es)" and ok: "dir_ok es"
    and name: "map_of es name = Some i" and h: "p \<notin> held s"
  shows "\<exists>s'. create ops p name ino s = Some (s', yfs_EXIST, i) \<and> inv s' \<and> fs s' = fs s \<and> held s' = held s"
proof -
  obtain s1 where s1: "lc_acq ops p s = Some s1" "inv s1" "fs s1 = fs s" "held s1 = insert p (held s)"
    using enter [OF inv h] by blast
  have p1: "fs s1 p = Some (T_DIR, dir_string es)" using s1 p by simp
  obtain s2 where s2: "nlock_lookup ops p name False ino s1 = Some (s2, yfs_OK, True, i)" "inv s2" "fs s2 = fs s1"
      "held s2 = held s1"
    using lookup_ok [OF s1(2) p(1) p1 ok, of name False ino] name by auto
  have h2: "held s2 = insert p (held s)" using s2(4) s1(4) by simp
  obtain s3 where s3: "lc_rel ops p s2 = Some s3" "inv s3" "fs s3 = fs s2" "held s3 = held s"
    using leave [OF s2(2) h2 h] by blast
  show ?thesis using s1 s2 s3 by (simp add: create_def nlock_create_def)
qed

text \<open>With all inodes taken the extent server answers 0, and the entry is made all the same.\<close>

lemma create_without_inodes:
  assumes inv: "inv s" and p: "p < 2 ^ 31" "fs s p = Some (T_DIR, dir_string es)" and ok: "dir_ok es"
    and name: "map_of es name = None" and full: "\<And>k. 1 \<le> k \<Longrightarrow> k < INODE_NUM \<Longrightarrow> fs s k \<noteq> None"
    and fits: "length name + 6 \<le> BLOCK_SIZE" "length (dir_string es) + length name + 6 \<le> NDIRECT * BLOCK_SIZE" "1 \<le> free s"
    and h: "p \<notin> held s"
  shows "\<exists>s'. create ops p name ino s = Some (s', yfs_OK, 0) \<and> inv s' \<and> held s' = held s
    \<and> fs s' = (fs s)(p \<mapsto> (T_DIR, dir_string (es @ [(name, 0)])))"
proof -
  obtain s1 where s1: "lc_acq ops p s = Some s1" "inv s1" "fs s1 = fs s" "free s1 = free s" "held s1 = insert p (held s)"
    using enter [OF inv h] by blast
  have p1: "fs s1 p = Some (T_DIR, dir_string es)" using s1 p by simp
  obtain s2 where s2: "nlock_lookup ops p name False ino s1 = Some (s2, yfs_NOENT, False, ino)" "inv s2" "fs s2 = fs s"
      "free s2 = free s" "held s2 = insert p (held s)"
    using lookup_ok [OF s1(2) p(1) p1 ok, of name False ino] name s1 by auto
  have ty: "0 < T_FILE" "T_FILE < 2 ^ 16" by (simp_all add: T_FILE_def)
  obtain s3 where s3: "ec_create ops T_FILE ino s2 = Some (s3, ext_OK, 0)" "inv s3" "fs s3 = fs s" "free s3 = free s"
      "held s3 = insert p (held s)"
    using create_full [OF s2(2) ty, of ino] full s2(3-5) by auto
  obtain s4 where s4: "ec_get ops p [] s3 = Some (s4, ext_OK, dir_string es)" "inv s4" "fs s4 = fs s" "free s4 = free s"
      "held s4 = insert p (held s)"
    using get_law [OF s3(2) p(1), of "[]"] p(2) s3(3-5) by auto
  let ?new = "dir_string (es @ [(name, 0)])"
  have "length ?new \<le> length (dir_string es) + length name + 6"
    using length_add_entry [of "dir_string es" name 0] length_filename_inode [of 0]
    by (simp add: add_entry_dir_string INODE_NUM_def)
  then have fit: "length ?new \<le> NDIRECT * BLOCK_SIZE" "block_count (length ?new) - block_count (length (dir_string es)) \<le> free s4"
    using fits s4(4) block_count_grow [of "length ?new" "length (dir_string es)"] by linarith+
  have p4: "fs s4 p = Some (T_DIR, dir_string es)" using s4(3) p(2) by simp
  obtain s5 where s5: "ec_put ops p ?new s4 = Some (s5, ext_OK)" "inv s5" "fs s5 = (fs s)(p \<mapsto> (T_DIR, ?new))"
      "held s5 = insert p (held s)"
    using put_law [OF s4(2) p(1) p4 fit] s4(3,5) by auto
  obtain s6 where s6: "lc_rel ops p s5 = Some s6" "inv s6" "fs s6 = fs s5" "held s6 = held s"
    using leave [OF s5(2) s5(4) h] by blast
  show ?thesis
    using s1(1) s2(1) s3(1) s4(1) s5 s6 by (simp add: create_def nlock_create_def add_entry_dir_string)
qed

section \<open>Contents\<close>

text \<open>Reading: a call of \<open>ec->get\<close> under the lock.\<close>

lemma locked_get:
  assumes "inv s" and "i < 2 ^ 31" and "i \<notin> held s"
  obtains s1 s2 where "lc_acq ops i s = Some s1" "ec_get ops i buf s1 = Some (s2, ext_OK, content (fs s i))"
    "inv s2" "fs s2 = fs s" "free s2 = free s" "held s2 = insert i (held s)"
proof -
  obtain s1 where s1: "lc_acq ops i s = Some s1" "inv s1" "fs s1 = fs s" "free s1 = free s" "held s1 = insert i (held s)"
    using enter [OF assms(1,3)] by blast
  obtain s2 where "ec_get ops i buf s1 = Some (s2, ext_OK, content (fs s1 i))" "inv s2" "fs s2 = fs s1" "free s2 = free s1"
    "held s2 = held s1"
    using get_law [OF s1(2) assms(2), of buf] by blast
  with s1 that show ?thesis by simp
qed

lemma read_ok:
  assumes inv: "inv s" and i: "i < 2 ^ 31" "i \<notin> held s" and off: "0 \<le> off" "off < 2 ^ 32"
    and len: "length (content (fs s i)) < 2 ^ 32"
  shows "\<exists>s'. yfs_read ops i sz off d s = Some (s', yfs_OK, take sz (drop (nat off) (content (fs s i))))
    \<and> inv s' \<and> fs s' = fs s \<and> free s' = free s \<and> held s' = held s"
proof -
  obtain s1 s2 where s2: "lc_acq ops i s = Some s1" "ec_get ops i [] s1 = Some (s2, ext_OK, content (fs s i))"
    "inv s2" "fs s2 = fs s" "free s2 = free s" "held s2 = insert i (held s)"
    using locked_get [OF inv i, of "[]"] by blast
  obtain s3 where s3: "lc_rel ops i s2 = Some s3" "inv s3" "fs s3 = fs s2" "free s3 = free s2" "held s3 = held s"
    using leave [OF s2(3,6) i(2)] by blast
  have m: "nat (off mod 2 ^ 32) = nat off" "size_of_off off = nat off" using off by (simp_all add: size_of_off_def)
  show ?thesis
    using s2 s3 len unfolding yfs_read_def m by (auto simp: substr_def resize_def)
qed

text \<open>Replacing the contents: \<open>write\<close> and \<open>setattr\<close>.\<close>

lemma replace_ok:
  assumes inv: "inv s" and i: "i < 2 ^ 31" "i \<notin> held s" "fs s i = Some (t, c)"
    and fits: "length c' \<le> NDIRECT * BLOCK_SIZE" "block_count (length c') - block_count (length c) \<le> free s"
  obtains s1 s2 s3 s4 where "lc_acq ops i s = Some s1" "ec_get ops i [] s1 = Some (s2, ext_OK, c)"
    "ec_put ops i c' s2 = Some (s3, ext_OK)" "lc_rel ops i s3 = Some s4" "inv s4" "fs s4 = (fs s)(i \<mapsto> (t, c'))"
    "free s4 + blocks_of (length c') = free s + blocks_of (length c)" "held s4 = held s"
proof -
  obtain s1 s2 where s2: "lc_acq ops i s = Some s1" "ec_get ops i [] s1 = Some (s2, ext_OK, c)"
    "inv s2" "fs s2 = fs s" "free s2 = free s" "held s2 = insert i (held s)"
    using locked_get [OF inv i(1,2), of "[]"] i(3) by auto
  have f: "fs s2 i = Some (t, c)" "block_count (length c') - block_count (length c) \<le> free s2" using s2 i(3) fits(2) by simp_all
  obtain s3 where s3: "ec_put ops i c' s2 = Some (s3, ext_OK)" "inv s3" "fs s3 = (fs s2)(i \<mapsto> (t, c'))"
    "free s3 + blocks_of (length c') = free s2 + blocks_of (length c)" "held s3 = held s2"
    using put_law [OF s2(3) i(1) f(1) fits(1) f(2)] by blast
  have "held s3 = insert i (held s)" using s3(5) s2(6) by simp
  then obtain s4 where "lc_rel ops i s3 = Some s4" "inv s4" "fs s4 = fs s3" "free s4 = free s3" "held s4 = held s"
    using leave [OF s3(2) _ i(2)] by blast
  with s2 s3 that show ?thesis by simp
qed

lemma write_ok:
  assumes inv: "inv s" and i: "i < 2 ^ 31" "i \<notin> held s" "fs s i = Some (t, c)"
    and off: "0 \<le> off" "off < 2 ^ 63" and sz: "sz < 2 ^ 31"
    and c': "c' = patch c (nat off) (map data [0..<sz])"
    and fits: "length c' \<le> NDIRECT * BLOCK_SIZE" "block_count (length c') - block_count (length c) \<le> free s"
  shows "\<exists>s'. yfs_write ops i sz off data s = Some (s', yfs_OK, (nat off - length c) + sz)
    \<and> inv s' \<and> fs s' = (fs s)(i \<mapsto> (t, c')) \<and> held s' = held s"
proof -
  obtain s1 s2 s3 s4 where r: "lc_acq ops i s = Some s1" "ec_get ops i [] s1 = Some (s2, ext_OK, c)"
    "ec_put ops i c' s2 = Some (s3, ext_OK)" "lc_rel ops i s3 = Some s4" "inv s4" "fs s4 = (fs s)(i \<mapsto> (t, c'))"
    "free s4 + blocks_of (length c') = free s + blocks_of (length c)" "held s4 = held s"
    by (rule replace_ok [OF inv i fits])
  have m: "size_of_off off = nat off" "nat off < 2 ^ 63" using off by (simp_all add: size_of_off_def nat_less_iff)
  have "yfs_write ops i sz off data s = Some (s4, yfs_OK, (nat off - length c) + sz)"
    using r(1,2,4) r(3) [unfolded c'] sz m(2) by (simp add: yfs_write_def m(1) Let_def)
  then show ?thesis using r(5,6,8) by blast
qed

lemma setattr_ok:
  assumes inv: "inv s" and i: "i < 2 ^ 31" "i \<notin> held s" "fs s i = Some (t, c)"
    and fits: "sz \<le> NDIRECT * BLOCK_SIZE" "block_count sz - block_count (length c) \<le> free s"
  shows "\<exists>s'. setattr ops i sz s = Some (s', yfs_OK) \<and> inv s' \<and> fs s' = (fs s)(i \<mapsto> (t, resize c sz)) \<and> held s' = held s"
proof -
  have fits': "length (resize c sz) \<le> NDIRECT * BLOCK_SIZE"
    "block_count (length (resize c sz)) - block_count (length c) \<le> free s"
    using fits by simp_all
  obtain s1 s2 s3 s4 where r: "lc_acq ops i s = Some s1" "ec_get ops i [] s1 = Some (s2, ext_OK, c)"
    "ec_put ops i (resize c sz) s2 = Some (s3, ext_OK)" "lc_rel ops i s3 = Some s4" "inv s4"
    "fs s4 = (fs s)(i \<mapsto> (t, resize c sz))"
    "free s4 + blocks_of (length (resize c sz)) = free s + blocks_of (length c)" "held s4 = held s"
    by (rule replace_ok [OF inv i fits'])
  have "setattr ops i sz s = Some (s4, yfs_OK)" using r(1-4) by (simp add: setattr_def)
  then show ?thesis using r(5,6,8) by blast
qed

section \<open>Listing and removing\<close>

lemma readdir_ok:
  assumes inv: "inv s" and p: "p < 2 ^ 31" "p \<notin> held s" "fs s p = Some (T_DIR, dir_string es)" and ok: "dir_ok es"
  shows "\<exists>s'. readdir ops p l s = Some (s', yfs_OK, l @ es) \<and> inv s' \<and> fs s' = fs s \<and> held s' = held s"
proof -
  obtain s1 where s1: "lc_acq ops p s = Some s1" "inv s1" "fs s1 = fs s" "free s1 = free s" "held s1 = insert p (held s)"
    by (rule enter [OF inv p(2)])
  obtain s2 where s2: "nlock_isdir ops p s1 = Some (s2, True)" "inv s2" "fs s2 = fs s" "held s2 = insert p (held s)"
    using isdir_ok [OF s1(2) p(1)] s1(3,5) p(3) by auto
  obtain s3 where s3: "ec_get ops p [] s2 = Some (s3, ext_OK, dir_string es)" "inv s3" "fs s3 = fs s" "held s3 = insert p (held s)"
    using get_law [OF s2(2) p(1), of "[]"] s2(3,4) p(3) by auto
  obtain s4 where s4: "lc_rel ops p s3 = Some s4" "inv s4" "fs s4 = fs s3" "free s4 = free s3" "held s4 = held s"
    by (rule leave [OF s3(2,4) p(2)])
  have "readdir ops p l s = Some (s4, yfs_OK, l @ es)"
    using s1(1) s2(1) s3(1) s4(1) readdir_dir_string [OF ok, of l] by (simp add: readdir_def nlock_readdir_def)
  then show ?thesis using s4(2,3,5) s3(3) by simp
qed

text \<open>On anything but a directory the lock is released twice, which aborts the process.\<close>

lemma readdir_not_dir:
  assumes inv: "inv s" and p: "p < 2 ^ 31" "p \<notin> held s" "ftype (fs s p) \<noteq> T_DIR"
  shows "readdir ops p l s = None"
proof -
  obtain s1 where s1: "lc_acq ops p s = Some s1" "inv s1" "fs s1 = fs s" "free s1 = free s" "held s1 = insert p (held s)"
    by (rule enter [OF inv p(2)])
  obtain s2 where s2: "nlock_isdir ops p s1 = Some (s2, False)" "inv s2" "held s2 = insert p (held s)"
    using isdir_ok [OF s1(2) p(1)] s1(3,5) p(3) by auto
  obtain s3 where s3: "lc_rel ops p s2 = Some s3" "inv s3" "fs s3 = fs s2" "free s3 = free s2" "held s3 = held s"
    by (rule leave [OF s2(2,3) p(2)])
  have "lc_rel ops p s3 = None" using rel_free [of p s3] s3(5) p(2) by simp
  then show ?thesis using s1(1) s2(1) s3(1) by (simp add: readdir_def nlock_readdir_def)
qed



lemma unlink_cut:
  assumes inv: "inv s" and p: "p < 2 ^ 31" "p \<notin> held s" "fs s p = Some (T_DIR, dir_string es)"
    and ok: "dir_ok es" "map_of es n = Some i"
    and cut: "cut_entry (dir_string es) n i = Some new" "length new \<le> length (dir_string es)"
    and small: "length (dir_string es) \<le> NDIRECT * BLOCK_SIZE"
    and i: "i < 2 ^ 31" "i \<noteq> p" "i \<notin> held s" "fs s i = Some (t, c)" "length c mod BLOCK_SIZE \<noteq> 0"
  shows "\<exists>s'. unlink ops p n s = Some (s', yfs_OK) \<and> inv s' \<and> held s' = held s
    \<and> fs s' = (fs s)(p \<mapsto> (T_DIR, new), i := None)"
proof -
  obtain s1 where s1: "lc_acq ops p s = Some s1" "inv s1" "fs s1 = fs s" "free s1 = free s" "held s1 = insert p (held s)"
    by (rule enter [OF inv p(2)])
  have p1: "fs s1 p = Some (T_DIR, dir_string es)" using s1(3) p(3) by simp
  obtain s2 where s2: "nlock_lookup ops p n False 0 s1 = Some (s2, yfs_OK, True, i)" "inv s2" "fs s2 = fs s" "held s2 = insert p (held s)"
    using lookup_ok [OF s1(2) p(1) p1 ok(1), of n False 0] ok(2) s1(3,5) by auto
  obtain s3 where s3: "ec_get ops p [] s2 = Some (s3, ext_OK, dir_string es)" "inv s3" "fs s3 = fs s" "held s3 = insert p (held s)"
    using get_law [OF s2(2) p(1), of "[]"] s2(3,4) p(3) by auto
  have fit: "length new \<le> NDIRECT * BLOCK_SIZE" "block_count (length new) - block_count (length (dir_string es)) \<le> free s3"
    using small block_count_mono [OF cut(2)] cut(2) by simp_all
  have p3: "fs s3 p = Some (T_DIR, dir_string es)" using s3(3) p(3) by simp
  obtain s4 where s4: "ec_put ops p new s3 = Some (s4, ext_OK)" "inv s4" "fs s4 = (fs s)(p \<mapsto> (T_DIR, new))" "held s4 = insert p (held s)"
    using put_law [OF s3(2) p(1) p3 fit] s3(3,4) by auto
  have h4: "i \<notin> held s4" using s4(4) i(2,3) by simp
  obtain s5 where s5: "lc_acq ops i s4 = Some s5" "inv s5" "fs s5 = fs s4" "free s5 = free s4" "held s5 = insert i (held s4)"
    by (rule enter [OF s4(2) h4])
  have i5: "fs s5 i = Some (t, c)" using s5(3) s4(3) i(2,4) by simp
  obtain s6 where s6: "ec_remove ops i s5 = Some (s6, ext_OK)" "inv s6" "fs s6 = (fs s5)(i := None)" "held s6 = insert i (held s4)"
    using remove_law [OF s5(2) i(1) i5 i(5)] s5(5) by auto
  obtain s7 where s7: "lc_rel ops i s6 = Some s7" "inv s7" "fs s7 = fs s6" "free s7 = free s6" "held s7 = held s4"
    by (rule leave [OF s6(2,4) h4])
  have h7: "held s7 = insert p (held s)" using s7(5) s4(4) by simp
  obtain s8 where s8: "lc_rel ops p s7 = Some s8" "inv s8" "fs s8 = fs s7" "free s8 = free s7" "held s8 = held s"
    by (rule leave [OF s7(2) h7 p(2)])
  have "unlink ops p n s = Some (s8, yfs_OK)"
    using s1(1) s2(1) s3(1) s4(1) s5(1) s6(1) s7(1) s8(1) cut(1) by (simp add: unlink_def)
  moreover have "fs s8 = (fs s)(p \<mapsto> (T_DIR, new), i := None)" using s8(3) s7(3) s6(3) s5(3) s4(3) by simp
  ultimately show ?thesis using s8(2,5) by blast
qed

lemma unlink_ok:
  assumes "inv s" and "p < 2 ^ 31" "p \<notin> held s" "fs s p = Some (T_DIR, dir_string (pre @ (n, i) # post))"
    and ok: "dir_ok (pre @ (n, i) # post)" "map_of pre n = None"
    and first: "find_str n (dir_string (pre @ (n, i) # post)) = Some (entry_pos pre)"
    and "length (dir_string (pre @ (n, i) # post)) \<le> NDIRECT * BLOCK_SIZE"
    and "i < 2 ^ 31" "i \<noteq> p" "i \<notin> held s" "fs s i = Some (t, c)" "length c mod BLOCK_SIZE \<noteq> 0"
  shows "\<exists>s'. unlink ops p n s = Some (s', yfs_OK) \<and> inv s' \<and> held s' = held s
    \<and> fs s' = (fs s)(p \<mapsto> (T_DIR, dir_string (pre @ post)), i := None)"
  by (rule unlink_cut [OF assms(1-4) ok(1) map_of_entry [OF ok(2)] cut_entry_dir_string [OF ok(1) first]
      length_dir_string_remove assms(8-13)])

lemma getfile_ok:
  assumes "inv s" and "i < 2 ^ 31" and "i \<notin> held s"
  shows "\<exists>s' fin'. getfile ops i fin s = Some (s', yfs_OK, fin') \<and> fi_size fin' = length (content (fs s i))
    \<and> inv s' \<and> fs s' = fs s \<and> free s' = free s \<and> held s' = held s"
proof -
  obtain s1 where s1: "lc_acq ops i s = Some s1" "inv s1" "fs s1 = fs s" "free s1 = free s" "held s1 = insert i (held s)"
    by (rule enter [OF assms(1,3)])
  obtain s2 a where s2: "ec_getattr ops i attr0 s1 = Some (s2, ext_OK, a)" "inv s2" "fs s2 = fs s" "free s2 = free s"
      "held s2 = insert i (held s)" "a_size a = length (content (fs s i))"
    using getattr_law [OF s1(2) assms(2), of attr0] s1(3-5) by auto
  obtain s3 where s3: "lc_rel ops i s2 = Some s3" "inv s3" "fs s3 = fs s2" "free s3 = free s2" "held s3 = held s"
    by (rule leave [OF s2(2,5) assms(3)])
  show ?thesis
    using s1(1) s2(1,3,4,6) s3 by (auto simp: getfile_def Let_def)
qed

lemma readlink_ok:
  assumes "inv s" and "i < 2 ^ 31" and "i \<notin> held s"
  shows "\<exists>s'. yfs_readlink ops i l s = Some (s', yfs_OK, content (fs s i))
    \<and> inv s' \<and> fs s' = fs s \<and> free s' = free s \<and> held s' = held s"
proof -
  obtain s1 s2 where r: "lc_acq ops i s = Some s1" "ec_get ops i l s1 = Some (s2, ext_OK, content (fs s i))"
    "inv s2" "fs s2 = fs s" "free s2 = free s" "held s2 = insert i (held s)"
    by (rule locked_get [OF assms, of l])
  obtain s3 where s3: "lc_rel ops i s2 = Some s3" "inv s3" "fs s3 = fs s2" "free s3 = free s2" "held s3 = held s"
    by (rule leave [OF r(3,6) assms(3)])
  show ?thesis using r(1,2,4,5) s3 by (auto simp: yfs_readlink_def)
qed

end

end
