(* ===== verification/Namenode.thy ===== *)
theory Namenode
  imports Yfs_Ops "HOL-Library.List_Lexorder" "HOL-Library.Char_ord"
begin

text \<open>
  The name node: \<open>src/yfs/namenode.cc\<close> and the request handlers of
  \<open>src/yfs/namenode_base.cc\<close>. It answers the requests of HDFS clients with the file system
  operations of \<open>yfs_client\<close>, the block interface of the extent server, and its own tables of
  data nodes and of files that are being written. Requests and replies are given by their fields;
  a handler either fills in its reply or throws an \<open>HdfsException\<close>.
\<close>

section \<open>Data nodes\<close>

datatype datanode_id = DatanodeID (ipaddr: string) (hostname: string) (xferport: nat)

text \<open>The order of data nodes in \<open>std::map\<close>, \<open>operator<\<close>; \<open>operator==\<close> is equality of the three fields.\<close>

fun datanode_less :: "datanode_id \<Rightarrow> datanode_id \<Rightarrow> bool" where
  "datanode_less (DatanodeID ip1 host1 port1) (DatanodeID ip2 host2 port2) \<longleftrightarrow>
     (if ip1 < ip2 then True else if ip1 > ip2 then False
      else if host1 < host2 then True else if host1 > host2 then False
      else if port1 < port2 then True else False)"

instantiation datanode_id :: linorder
begin

definition less_datanode_id :: "datanode_id \<Rightarrow> datanode_id \<Rightarrow> bool" where
  "a < b \<longleftrightarrow> datanode_less a b"

definition less_eq_datanode_id :: "datanode_id \<Rightarrow> datanode_id \<Rightarrow> bool" where
  "a \<le> b \<longleftrightarrow> a < b \<or> a = (b :: datanode_id)"

instance
proof
  fix x y z :: datanode_id
  show "(x < y) = (x \<le> y \<and> \<not> y \<le> x)"
    by (cases x; cases y) (auto simp: less_eq_datanode_id_def less_datanode_id_def split: if_splits)
  show "x \<le> x" by (simp add: less_eq_datanode_id_def)
  show "x \<le> y \<Longrightarrow> y \<le> z \<Longrightarrow> x \<le> z"
    by (cases x; cases y; cases z) (auto simp: less_eq_datanode_id_def less_datanode_id_def split: if_splits)
  show "x \<le> y \<Longrightarrow> y \<le> x \<Longrightarrow> x = y"
    by (cases x; cases y) (auto simp: less_eq_datanode_id_def less_datanode_id_def split: if_splits)
  show "x \<le> y \<or> y \<le> x"
    by (cases x; cases y) (auto simp: less_eq_datanode_id_def less_datanode_id_def)
qed

end

section \<open>State\<close>

text \<open>
  What the name node calls: the operations under \<open>yfs_client\<close>, and three more of the extent
  client. \<open>nn_attr\<close> is what an uninitialised local variable of type \<open>attr\<close> contains.
\<close>

record 's nn_ops =
  nn_fs :: "'s fs_ops"
  nn_get_block_ids :: "nat \<Rightarrow> nat list \<Rightarrow> 's \<Rightarrow> ('s \<times> status \<times> nat list) option"
  nn_append_block :: "nat \<Rightarrow> nat \<Rightarrow> 's \<Rightarrow> ('s \<times> status \<times> nat) option"
  nn_complete :: "nat \<Rightarrow> nat \<Rightarrow> 's \<Rightarrow> ('s \<times> status) option"
  nn_attr :: attr

record located_block =
  lb_id :: nat
  lb_offset :: nat
  lb_size :: nat
  lb_locs :: "datanode_id list"

text \<open>
  \<open>datanode\<close> is a \<open>std::map\<close> and \<open>HDFS_block\<close> a \<open>std::set\<close>, both in ascending order. The last two
  fields record what other threads and processes are asked to do: the registrations that are
  running, and the transfers of blocks between data nodes.
\<close>

record 's name_node =
  nn_sys :: 's
  master_datanode :: datanode_id
  pendingWrite :: "nat \<rightharpoonup> nat"
  HDFS_block :: "nat list"
  datanode :: "(datanode_id \<times> int) list"
  heartbeat_count :: nat
  registering :: "datanode_id list"
  transfers :: "(nat \<times> datanode_id \<times> datanode_id) list"

definition on_sys :: "('s \<Rightarrow> ('s \<times> 'r) option) \<Rightarrow> 's name_node \<Rightarrow> ('s name_node \<times> 'r) option" where
  "on_sys f nn = map_option (\<lambda>(s, r). (nn\<lparr>nn_sys := s\<rparr>, r)) (f (nn_sys nn))"

definition nn_acquire :: "'s nn_ops \<Rightarrow> nat \<Rightarrow> 's name_node \<Rightarrow> 's name_node option" where
  "nn_acquire ops l nn = map_option (\<lambda>s. nn\<lparr>nn_sys := s\<rparr>) (lc_acq (nn_fs ops) l (nn_sys nn))"

definition nn_release :: "'s nn_ops \<Rightarrow> nat \<Rightarrow> 's name_node \<Rightarrow> 's name_node option" where
  "nn_release ops l nn = map_option (\<lambda>s. nn\<lparr>nn_sys := s\<rparr>) (lc_rel (nn_fs ops) l (nn_sys nn))"

section \<open>Data nodes and heartbeats\<close>

text \<open>\<open>std::map::insert\<close>, which keeps an old value, and \<open>operator[]\<close>, which replaces it.\<close>

fun map_insert :: "'k::linorder \<Rightarrow> 'v \<Rightarrow> ('k \<times> 'v) list \<Rightarrow> ('k \<times> 'v) list" where
  "map_insert k v [] = [(k, v)]"
| "map_insert k v ((k', v') # m) =
     (if k < k' then (k, v) # (k', v') # m else if k = k' then (k', v') # m else (k', v') # map_insert k v m)"

fun map_set :: "'k::linorder \<Rightarrow> 'v \<Rightarrow> ('k \<times> 'v) list \<Rightarrow> ('k \<times> 'v) list" where
  "map_set k v [] = [(k, v)]"
| "map_set k v ((k', v') # m) =
     (if k < k' then (k, v) # (k', v') # m else if k = k' then (k', v) # m else (k', v') # map_set k v m)"

definition SendHeartbeat :: "'s name_node \<Rightarrow> 's name_node" where
  "SendHeartbeat nn = nn\<lparr>heartbeat_count := (heartbeat_count nn + 1) mod 2 ^ 64\<rparr>"

text \<open>The 64-bit counter is stored in an \<open>int\<close>.\<close>

definition DatanodeHeartbeat :: "datanode_id \<Rightarrow> 's name_node \<Rightarrow> 's name_node" where
  "DatanodeHeartbeat i nn = nn\<lparr>datanode := map_set i (c_int (heartbeat_count nn)) (datanode nn)\<rparr>"

definition RegisterDatanode :: "datanode_id \<Rightarrow> 's name_node \<Rightarrow> 's name_node" where
  "RegisterDatanode i nn =
     (let nn = (if heartbeat_count nn > 5
                then nn\<lparr>transfers := transfers nn @ map (\<lambda>bid. (bid, master_datanode nn, i)) (HDFS_block nn)\<rparr>
                else nn)
      in nn\<lparr>datanode := map_insert i (c_int (heartbeat_count nn)) (datanode nn)\<rparr>)"

text \<open>The comparison is made in 64 bits without sign.\<close>

definition live :: "nat \<Rightarrow> int \<Rightarrow> bool" where
  "live count beat \<longleftrightarrow> (int count - 3) mod 2 ^ 64 \<le> beat mod 2 ^ 64"

definition GetDatanodes :: "'s name_node \<Rightarrow> datanode_id list" where
  "GetDatanodes nn = map fst (filter (\<lambda>(i, beat). live (heartbeat_count nn) beat) (datanode nn))"

section \<open>Blocks\<close>

definition block_at :: "nat \<Rightarrow> nat \<Rightarrow> nat \<Rightarrow> nat \<Rightarrow> datanode_id list \<Rightarrow> located_block" where
  "block_at n sz k bid locs =
     \<lparr>lb_id = bid, lb_offset = k * BLOCK_SIZE mod 2 ^ 64,
      lb_size = (if k < n - 1 then BLOCK_SIZE else (sz + 2 ^ 64 - k * BLOCK_SIZE mod 2 ^ 64) mod 2 ^ 64),
      lb_locs = locs\<rparr>"

definition GetBlockLocations :: "'s nn_ops \<Rightarrow> nat \<Rightarrow> 's name_node \<Rightarrow> ('s name_node \<times> located_block list) option" where
  "GetBlockLocations ops ino nn =
     do {
       (nn, _, bids) \<leftarrow> on_sys (nn_get_block_ids ops ino []) nn;
       (nn, _, a) \<leftarrow> on_sys (ec_getattr (nn_fs ops) ino (nn_attr ops)) nn;
       Some (nn, map (\<lambda>(k, bid). block_at (length bids) (a_size a) k bid (GetDatanodes nn))
                   (enumerate 0 bids))
     }"

definition Complete :: "'s nn_ops \<Rightarrow> nat \<Rightarrow> nat \<Rightarrow> 's name_node \<Rightarrow> ('s name_node \<times> bool) option" where
  "Complete ops ino new_size nn =
     do {
       (nn, r_complete) \<leftarrow> on_sys (nn_complete ops ino new_size) nn;
       (if r_complete \<noteq> ext_OK then Some (nn, False)
        else do { nn \<leftarrow> nn_release ops ino nn; Some (nn, True) })
     }"

definition AppendBlock :: "'s nn_ops \<Rightarrow> nat \<Rightarrow> 's name_node \<Rightarrow> ('s name_node \<times> located_block) option" where
  "AppendBlock ops ino nn =
     do {
       (nn, _, a) \<leftarrow> on_sys (ec_getattr (nn_fs ops) ino (nn_attr ops)) nn;
       (nn, _, bid) \<leftarrow> on_sys (nn_append_block ops ino 0) nn;
       let sz = (if a_size a mod BLOCK_SIZE = 0 then BLOCK_SIZE else a_size a mod BLOCK_SIZE);
       let nn = nn\<lparr>HDFS_block := insort_insert bid (HDFS_block nn)\<rparr>;
       Some (nn, \<lparr>lb_id = bid, lb_offset = a_size a, lb_size = sz, lb_locs = GetDatanodes nn\<rparr>)
     }"

section \<open>Operations on files and directories\<close>

text \<open>
  The surgery of \<open>Rename\<close> on the text of the source directory. The results of \<open>string::find\<close> are
  stored in 32-bit variables, which are never equal to the 64-bit \<open>string::npos\<close>: all three tests
  succeed, and \<open>npos\<close> has become \<open>2 ^ 32 - 1\<close>.
\<close>

definition find_from :: "string \<Rightarrow> string \<Rightarrow> nat \<Rightarrow> nat option" where
  "find_from pat s pos = (if pos \<le> length s then map_option (\<lambda>k. pos + k) (find_str pat (drop pos s)) else None)"

definition u32_pos :: "nat option \<Rightarrow> nat" where
  "u32_pos p = (case p of None \<Rightarrow> 2 ^ 32 - 1 | Some k \<Rightarrow> k mod 2 ^ 32)"

definition rename_cut :: "string \<Rightarrow> string \<Rightarrow> string option" where
  "rename_cut src_entry src_name =
     (let src_begin = u32_pos (find_from src_name src_entry 0);
          first_dot = u32_pos (find_from '';'' src_entry src_begin);
          second_dot = u32_pos (find_from '';'' src_entry ((first_dot + 1) mod 2 ^ 32));
          n = (second_dot + 2 ^ 32 - src_begin) mod 2 ^ 32
      in if src_begin \<noteq> 0 then erase src_entry (src_begin - 1) n else erase src_entry src_begin n)"

text \<open>The entry that is moved: the first with the name, if there is one.\<close>

definition first_entry :: "string \<Rightarrow> (string \<times> nat) list \<Rightarrow> nat option" where
  "first_entry name es = map_option snd (find (\<lambda>e. fst e = name) es)"

definition Rename :: "'s nn_ops \<Rightarrow> nat \<Rightarrow> string \<Rightarrow> nat \<Rightarrow> string \<Rightarrow> 's name_node \<Rightarrow> ('s name_node \<times> bool) option" where
  "Rename ops src_dir src_name dst_dir dst_name nn =
     do {
       (nn, _, src_found, _) \<leftarrow> on_sys (nlock_lookup (nn_fs ops) src_dir (c_string src_name) False 0) nn;
       (if \<not> src_found then Some (nn, False)
        else do {
          (nn, _, entries) \<leftarrow> on_sys (nlock_readdir (nn_fs ops) src_dir []) nn;
          (nn, _, src_entry) \<leftarrow> on_sys (ec_get (nn_fs ops) src_dir []) nn;
          (case first_entry src_name entries of
             None \<Rightarrow> Some (nn, False)
           | Some ino \<Rightarrow> do {
               src_entry \<leftarrow> rename_cut src_entry src_name;
               (nn, _) \<leftarrow> on_sys (ec_put (nn_fs ops) src_dir src_entry) nn;
               (nn, r, dst_entry) \<leftarrow>
                 (if src_dir = dst_dir then Some (nn, True, src_entry)
                  else do { (nn, ret, d) \<leftarrow> on_sys (ec_get (nn_fs ops) dst_dir []) nn;
                            Some (nn, ret = ext_OK, d) });
               (nn, _) \<leftarrow> on_sys (ec_put (nn_fs ops) dst_dir (add_entry dst_entry dst_name ino)) nn;
               Some (nn, r)
             })
        })
     }"

definition Mkdir :: "'s nn_ops \<Rightarrow> nat \<Rightarrow> string \<Rightarrow> nat \<Rightarrow> 's name_node \<Rightarrow> ('s name_node \<times> bool \<times> nat) option" where
  "Mkdir ops parent name ino_out nn =
     do { (nn, res, ino_out) \<leftarrow> on_sys (mkdir (nn_fs ops) parent (c_string name) ino_out) nn;
          Some (nn, res = yfs_OK, ino_out) }"

definition Create :: "'s nn_ops \<Rightarrow> nat \<Rightarrow> string \<Rightarrow> nat \<Rightarrow> 's name_node \<Rightarrow> ('s name_node \<times> bool \<times> nat) option" where
  "Create ops parent name ino_out nn =
     do {
       (nn, res, ino_out) \<leftarrow> on_sys (create (nn_fs ops) parent (c_string name) ino_out) nn;
       (if res \<noteq> yfs_OK then Some (nn, False, ino_out)
        else do { nn \<leftarrow> nn_acquire ops ino_out nn; Some (nn, True, ino_out) })
     }"

definition Isfile :: "'s nn_ops \<Rightarrow> nat \<Rightarrow> 's name_node \<Rightarrow> ('s name_node \<times> bool) option" where
  "Isfile ops ino = on_sys (nlock_isfile (nn_fs ops) ino)"

definition Isdir :: "'s nn_ops \<Rightarrow> nat \<Rightarrow> 's name_node \<Rightarrow> ('s name_node \<times> bool) option" where
  "Isdir ops ino = on_sys (nlock_isdir (nn_fs ops) ino)"

definition Getfile :: "'s nn_ops \<Rightarrow> nat \<Rightarrow> fileinfo \<Rightarrow> 's name_node \<Rightarrow> ('s name_node \<times> bool \<times> fileinfo) option" where
  "Getfile ops ino info nn =
     do {
       (nn, ret, a) \<leftarrow> on_sys (ec_getattr (nn_fs ops) ino (nn_attr ops)) nn;
       (if ret \<noteq> ext_OK then Some (nn, False, info)
        else Some (nn, True, \<lparr>fi_size = a_size a, fi_atime = a_atime a, fi_mtime = a_mtime a, fi_ctime = a_ctime a\<rparr>))
     }"

definition Getdir :: "'s nn_ops \<Rightarrow> nat \<Rightarrow> dirinfo \<Rightarrow> 's name_node \<Rightarrow> ('s name_node \<times> bool \<times> dirinfo) option" where
  "Getdir ops ino info nn =
     do {
       (nn, ret, a) \<leftarrow> on_sys (ec_getattr (nn_fs ops) ino (nn_attr ops)) nn;
       (if ret \<noteq> ext_OK then Some (nn, False, info)
        else Some (nn, True, \<lparr>di_atime = a_atime a, di_mtime = a_mtime a, di_ctime = a_ctime a\<rparr>))
     }"

definition Readdir :: "'s nn_ops \<Rightarrow> nat \<Rightarrow> 's name_node \<Rightarrow> ('s name_node \<times> bool \<times> (string \<times> nat) list) option" where
  "Readdir ops ino nn =
     do { (nn, res, dir) \<leftarrow> on_sys (nlock_readdir (nn_fs ops) ino []) nn; Some (nn, res = yfs_OK, dir) }"

definition Unlink :: "'s nn_ops \<Rightarrow> nat \<Rightarrow> string \<Rightarrow> nat \<Rightarrow> 's name_node \<Rightarrow> ('s name_node \<times> bool) option" where
  "Unlink ops parent name ino nn =
     do { (nn, res) \<leftarrow> on_sys (nlock_unlink (nn_fs ops) parent (c_string name)) nn; Some (nn, res = yfs_OK) }"

section \<open>Paths\<close>

text \<open>
  The loop over the components of an absolute path, the same in \<open>RecursiveLookup\<close>, \<open>PBCreate\<close> and
  \<open>PBMkdirs\<close>: \<open>step\<close> is its body for one component. It ends with the position behind the last
  separator.
\<close>

definition find_slash :: "string \<Rightarrow> nat \<Rightarrow> nat option" where
  "find_slash path pos = find_from ''/'' path pos"

lemma find_str_slash_less: "find_str ''/'' s = Some k \<Longrightarrow> k < length s"
proof (induction s arbitrary: k)
  case (Cons c s)
  then show ?case by (subst (asm) find_str.simps) (auto split: if_splits)
qed (simp add: find_str.simps)

lemma find_slash_bounds: "find_slash path pos = Some k \<Longrightarrow> pos \<le> k \<and> k < length path"
  using find_str_slash_less [of "drop pos path"] by (auto simp: find_slash_def find_from_def split: if_splits)

function path_loop :: "string \<Rightarrow> (string \<Rightarrow> 'a \<Rightarrow> ('a + 'e) option) \<Rightarrow> nat \<Rightarrow> nat \<Rightarrow> 'a \<Rightarrow> ('a \<times> nat + 'e) option" where
  "path_loop path step pos lastpos x =
     (case find_slash path pos of
        None \<Rightarrow> Some (Inl (x, lastpos))
      | Some pos \<Rightarrow>
          if pos \<noteq> lastpos
          then (case step (take (pos - lastpos) (drop lastpos path)) x of
                  None \<Rightarrow> None
                | Some (Inr e) \<Rightarrow> Some (Inr e)
                | Some (Inl x) \<Rightarrow> path_loop path step (pos + 1) (pos + 1) x)
          else path_loop path step (pos + 1) (pos + 1) x)"
  by pat_completeness auto
termination
  by (relation "measure (\<lambda>(path, step, pos, _, _). Suc (length path) - pos)")
    (auto dest!: find_slash_bounds)

declare path_loop.simps [simp del]

text \<open>
  \<open>RecursiveLookup\<close>: one component, and the walk. The failing branch returns the node's state, as
  its callers go on with it. \<open>prev\<close>, the parameter \<open>last\<close> of the source, is the directory the last component was looked up in.
\<close>

definition lookup_step :: "'s nn_ops \<Rightarrow> string \<Rightarrow> 's name_node \<times> nat \<times> nat \<times> bool \<Rightarrow>
    (('s name_node \<times> nat \<times> nat \<times> bool) + ('s name_node \<times> nat \<times> nat)) option" where
  "lookup_step ops component x =
     (case x of (nn, ino, prev, found) \<Rightarrow>
      do {
        (nn, ret, found, ino') \<leftarrow> on_sys (lookup (nn_fs ops) ino (c_string component) found ino) nn;
        Some (if ret \<noteq> yfs_OK \<or> \<not> found then Inr (nn, ino', ino) else Inl (nn, ino', ino, found))
      })"

definition RecursiveLookup :: "'s nn_ops \<Rightarrow> string \<Rightarrow> nat \<Rightarrow> nat \<Rightarrow> 's name_node \<Rightarrow> ('s name_node \<times> bool \<times> nat \<times> nat) option" where
  "RecursiveLookup ops path ino prev nn =
     (if ch_at path 0 \<noteq> CHR ''/'' then Some (nn, False, ino, prev)
      else do {
        r \<leftarrow> path_loop path (lookup_step ops) 1 1 (nn, 1, 1, False);
        (case r of
           Inr (nn, ino, prev) \<Rightarrow> Some (nn, False, ino, prev)
         | Inl ((nn, ino, prev, found), lastpos) \<Rightarrow>
             if lastpos \<noteq> length path
             then do {
               r \<leftarrow> lookup_step ops (drop lastpos path) (nn, ino, prev, found);
               (case r of
                  Inr (nn, ino, prev) \<Rightarrow> Some (nn, False, ino, prev)
                | Inl (nn, ino, prev, _) \<Rightarrow> Some (nn, True, ino, prev))
             }
             else Some (nn, True, ino, prev))
      })"

definition parent_path :: "string \<Rightarrow> string" where
  "parent_path path =
     (let p = rev (dropWhile (\<lambda>c. c = CHR ''/'') (rev path))
      in if CHR ''/'' \<in> set p then rev (dropWhile (\<lambda>c. c \<noteq> CHR ''/'') (rev p)) else p)"

definition RecursiveLookupParent :: "'s nn_ops \<Rightarrow> string \<Rightarrow> nat \<Rightarrow> 's name_node \<Rightarrow> ('s name_node \<times> bool \<times> nat) option" where
  "RecursiveLookupParent ops path ino nn =
     map_option (\<lambda>(nn, b, ino, _). (nn, b, ino)) (RecursiveLookup ops (parent_path path) ino 0 nn)"

text \<open>\<open>path.substr(path.rfind('/') + 1)\<close>: without a separator \<open>npos + 1\<close> is 0.\<close>

definition last_name :: "string \<Rightarrow> string" where
  "last_name path = rev (takeWhile (\<lambda>c. c \<noteq> CHR ''/'') (rev path))"

section \<open>Requests\<close>

datatype 'r pb = Throw string | Resp 'r

datatype filetype = IS_FILE | IS_DIR

record block_proto =
  bp_poolid :: string
  bp_blockid :: nat
  bp_stamp :: nat
  bp_numbytes :: nat
  bp_offset :: nat
  bp_locs :: "(datanode_id \<times> string) list"
  bp_cached :: "bool list"
  bp_storageids :: "string list"
  bp_corrupt :: bool

record blocks_proto =
  bs_length :: nat
  bs_construction :: bool
  bs_complete :: bool
  bs_blocks :: "block_proto list"
  bs_last :: "block_proto option"

record file_status =
  fs_type :: filetype
  fs_path :: string
  fs_length :: nat
  fs_owner :: string
  fs_group :: string
  fs_blocksize :: nat
  fs_perm :: nat
  fs_mtime :: nat
  fs_atime :: nat
  fs_locations :: "blocks_proto option"

definition no_fileinfo :: fileinfo where
  "no_fileinfo = \<lparr>fi_size = 0, fi_atime = 0, fi_mtime = 0, fi_ctime = 0\<rparr>"

definition no_dirinfo :: dirinfo where
  "no_dirinfo = \<lparr>di_atime = 0, di_mtime = 0, di_ctime = 0\<rparr>"

definition PBGetFileInfoFromInum :: "'s nn_ops \<Rightarrow> nat \<Rightarrow> 's name_node \<Rightarrow> ('s name_node \<times> file_status option) option" where
  "PBGetFileInfoFromInum ops ino nn =
     do {
       let info = \<lparr>fs_type = IS_FILE, fs_path = [], fs_length = 0, fs_owner = ''cse'', fs_group = ''supergroup'',
                   fs_blocksize = BLOCK_SIZE, fs_perm = 0, fs_mtime = 0, fs_atime = 0, fs_locations = None\<rparr>;
       (nn, isf) \<leftarrow> Isfile ops ino nn;
       (if isf then do {
          (nn, ok, y) \<leftarrow> Getfile ops ino no_fileinfo nn;
          Some (nn, if ok then Some (info\<lparr>fs_length := fi_size y, fs_perm := 438, fs_mtime := fi_mtime y * 1000,
                                          fs_atime := fi_atime y * 1000\<rparr>) else None) }
        else do {
          (nn, isd) \<leftarrow> Isdir ops ino nn;
          (if isd then do {
             (nn, ok, y) \<leftarrow> Getdir ops ino no_dirinfo nn;
             Some (nn, if ok then Some (info\<lparr>fs_type := IS_DIR, fs_perm := 511, fs_mtime := di_mtime y * 1000,
                                             fs_atime := di_atime y * 1000\<rparr>) else None) }
           else Some (nn, None)) })
     }"

definition PBGetFileInfo :: "'s nn_ops \<Rightarrow> string \<Rightarrow> 's name_node \<Rightarrow> ('s name_node \<times> file_status option pb) option" where
  "PBGetFileInfo ops src nn =
     do {
       (nn, ok, ino, _) \<leftarrow> RecursiveLookup ops src 0 0 nn;
       (if \<not> ok then Some (nn, Resp None)
        else do { (nn, fs) \<leftarrow> PBGetFileInfoFromInum ops ino nn; Some (nn, Resp fs) })
     }"

definition ConvertLocatedBlock :: "located_block \<Rightarrow> block_proto" where
  "ConvertLocatedBlock b =
     \<lparr>bp_poolid = ''yfs'', bp_blockid = lb_id b, bp_stamp = 0, bp_numbytes = lb_size b, bp_offset = lb_offset b,
      bp_locs = map (\<lambda>d. (d, ''/default-rack'')) (lb_locs b), bp_cached = map (\<lambda>_. False) (lb_locs b),
      bp_storageids = map hostname (lb_locs b), bp_corrupt = False\<rparr>"

definition blocks_reply :: "nat \<Rightarrow> located_block list \<Rightarrow> blocks_proto" where
  "blocks_reply len bl =
     \<lparr>bs_length = len, bs_construction = False, bs_complete = True, bs_blocks = map ConvertLocatedBlock bl,
      bs_last = (if bl = [] then None else Some (ConvertLocatedBlock (last bl)))\<rparr>"

text \<open>
  One entry of a listing, in the order of the code: status, name, locations. The inner \<open>None\<close> is the
  bare \<open>return\<close> when \<open>getfile\<close> fails, which keeps the entry but leaves the loop.
\<close>

fun list_entries :: "'s nn_ops \<Rightarrow> bool \<Rightarrow> (string \<times> nat) list \<Rightarrow> file_status list \<Rightarrow> 's name_node \<Rightarrow>
    ('s name_node \<times> (file_status list \<times> bool) pb) option" where
  "list_entries ops needlocation [] acc nn = Some (nn, Resp (acc, True))"
| "list_entries ops needlocation ((name, inum) # es) acc nn =
     do {
       (nn, st) \<leftarrow> PBGetFileInfoFromInum ops inum nn;
       (case st of
          None \<Rightarrow> Some (nn, Throw ''get dirent info failed'')
        | Some info \<Rightarrow> do {
            let info = info\<lparr>fs_path := name\<rparr>;
            (nn, isf) \<leftarrow> (if needlocation then on_sys (isfile (nn_fs ops) inum) nn else Some (nn, False));
            (if \<not> isf then list_entries ops needlocation es (acc @ [info]) nn
             else do {
               (nn, ret, y) \<leftarrow> on_sys (getfile (nn_fs ops) inum no_fileinfo) nn;
               (if ret \<noteq> yfs_OK then Some (nn, Resp (acc @ [info], False))
                else do {
                  (nn, bl) \<leftarrow> GetBlockLocations ops inum nn;
                  list_entries ops needlocation es
                    (acc @ [info\<lparr>fs_locations := Some (blocks_reply (fi_size y) bl)\<rparr>]) nn
                })
             })
          })
     }"

text \<open>The reply: the listed entries, and whether \<open>remainingentries\<close> has been set.\<close>

definition PBGetListing :: "'s nn_ops \<Rightarrow> string \<Rightarrow> string \<Rightarrow> bool \<Rightarrow> 's name_node \<Rightarrow>
    ('s name_node \<times> (file_status list \<times> bool) pb) option" where
  "PBGetListing ops src startafter needlocation nn =
     do {
       (nn, ok, ino, _) \<leftarrow> RecursiveLookup ops src 0 0 nn;
       (if \<not> ok then Some (nn, Resp ([], False))
        else do {
          (nn, ret, dir) \<leftarrow> on_sys (readdir (nn_fs ops) ino []) nn;
          (if ret \<noteq> yfs_OK then Some (nn, Throw ''read directory failed'')
           else list_entries ops needlocation
                  (if startafter \<noteq> [] then dropWhile (\<lambda>e. fst e \<noteq> startafter) dir else dir) [] nn)
        })
     }"

definition PBGetBlockLocations :: "'s nn_ops \<Rightarrow> string \<Rightarrow> 's name_node \<Rightarrow> ('s name_node \<times> blocks_proto option pb) option" where
  "PBGetBlockLocations ops src nn =
     do {
       (nn, ok, ino, _) \<leftarrow> RecursiveLookup ops src 0 0 nn;
       (if \<not> ok then Some (nn, Resp None)
        else do {
          (nn, isf) \<leftarrow> on_sys (isfile (nn_fs ops) ino) nn;
          (if \<not> isf then Some (nn, Resp None)
           else do {
             (nn, ret, info) \<leftarrow> on_sys (getfile (nn_fs ops) ino no_fileinfo) nn;
             (if ret \<noteq> yfs_OK then Some (nn, Resp None)
              else do {
                (nn, bl) \<leftarrow> GetBlockLocations ops ino nn;
                Some (nn, Resp (Some (blocks_reply (fi_size info) bl)))
              })
           })
        })
     }"

text \<open>Registration runs in a thread of its own, \<open>spawned\<close> telling whether it could be started.\<close>

definition PBRegisterDatanode :: "bool \<Rightarrow> bool \<Rightarrow> datanode_id \<Rightarrow> 's name_node \<Rightarrow> 's name_node \<times> (bool \<times> datanode_id) pb" where
  "PBRegisterDatanode spawned master i nn =
     (let nn = (if master then nn\<lparr>master_datanode := i\<rparr> else nn)
      in if spawned then (nn\<lparr>registering := registering nn @ [i]\<rparr>, Resp (master, i))
         else (nn, Throw ''Failed to register datanode''))"

definition run_registration :: "datanode_id \<Rightarrow> 's name_node \<Rightarrow> 's name_node" where
  "run_registration i nn = RegisterDatanode i (nn\<lparr>registering := remove1 i (registering nn)\<rparr>)"

record server_defaults =
  sd_blocksize :: nat
  sd_bytesperchecksum :: nat
  sd_writepacketsize :: nat
  sd_replication :: nat
  sd_filebuffersize :: nat

definition PBGetServerDefaults :: server_defaults where
  "PBGetServerDefaults = \<lparr>sd_blocksize = BLOCK_SIZE, sd_bytesperchecksum = 1, sd_writepacketsize = BLOCK_SIZE,
     sd_replication = 1, sd_filebuffersize = 4096\<rparr>"

text \<open>One component of the path of a new file or directory; the parents are made on demand.\<close>

definition parent_step :: "'s nn_ops \<Rightarrow> bool \<Rightarrow> string \<Rightarrow> 's name_node \<times> nat \<Rightarrow>
    (('s name_node \<times> nat) + ('s name_node \<times> string)) option" where
  "parent_step ops createparent component x =
     (case x of (nn, ino) \<Rightarrow>
      do {
        (nn, ret, found, ino) \<leftarrow> on_sys (lookup (nn_fs ops) ino (c_string component) False ino) nn;
        (if ret \<noteq> yfs_OK then Some (Inr (nn, ''Traverse failed''))
         else if found then Some (Inl (nn, ino))
         else if createparent
         then do {
           (nn, ok, ino) \<leftarrow> Mkdir ops ino (c_string component) ino nn;
           Some (if ok then Inl (nn, ino) else Inr (nn, ''Create parent failed''))
         }
         else Some (Inr (nn, ''Parent not exists'')))
      })"

definition PBCreate :: "'s nn_ops \<Rightarrow> string \<Rightarrow> bool \<Rightarrow> 's name_node \<Rightarrow> ('s name_node \<times> file_status option pb) option" where
  "PBCreate ops path createparent nn =
     (if ch_at path 0 \<noteq> CHR ''/'' then Some (nn, Throw ''Not absolute path'')
      else do {
        r \<leftarrow> path_loop path (parent_step ops createparent) 1 1 (nn, 1);
        (case r of
           Inr (nn, e) \<Rightarrow> Some (nn, Throw e)
         | Inl ((nn, ino), lastpos) \<Rightarrow>
             if lastpos \<noteq> length path
             then do {
               (nn, ok, ino) \<leftarrow> Create ops ino (c_string (drop lastpos path)) ino nn;
               (if \<not> ok then Some (nn, Throw ''Create file failed'')
                else do {
                  let nn = (if pendingWrite nn ino = None then nn\<lparr>pendingWrite := (pendingWrite nn)(ino \<mapsto> 0)\<rparr> else nn);
                  (nn, fs) \<leftarrow> PBGetFileInfoFromInum ops ino nn;
                  Some (nn, Resp fs)
                })
             }
             else Some (nn, Throw ''No file name given''))
      })"

definition PBMkdirs :: "'s nn_ops \<Rightarrow> string \<Rightarrow> bool \<Rightarrow> 's name_node \<Rightarrow> ('s name_node \<times> bool pb) option" where
  "PBMkdirs ops path createparent nn =
     (if ch_at path 0 \<noteq> CHR ''/'' then Some (nn, Throw ''Not absolute path'')
      else do {
        r \<leftarrow> path_loop path (parent_step ops createparent) 1 1 (nn, 1);
        (case r of
           Inr (nn, e) \<Rightarrow> Some (nn, Throw e)
         | Inl ((nn, ino), lastpos) \<Rightarrow>
             if lastpos \<noteq> length path
             then do {
               (nn, ok, ino) \<leftarrow> Mkdir ops ino (c_string (drop lastpos path)) ino nn;
               Some (nn, if ok then Resp True else Throw ''Mkdirs failed'')
             }
             else Some (nn, Throw ''No file name given''))
      })"

text \<open>
  \<open>pendingWrite\<close> counts the bytes of the blocks handed out, in 32 bits. \<open>last_bytes\<close> is the
  length of the last block, where the client gives one.
\<close>

definition PBComplete :: "'s nn_ops \<Rightarrow> string \<Rightarrow> nat option \<Rightarrow> 's name_node \<Rightarrow> ('s name_node \<times> bool pb) option" where
  "PBComplete ops src last_bytes nn =
     do {
       (nn, ok, ino, _) \<leftarrow> RecursiveLookup ops src 0 0 nn;
       (if \<not> ok then Some (nn, Resp False)
        else case pendingWrite nn ino of
          None \<Rightarrow> Some (nn, Throw ''No such pending write'')
        | Some w \<Rightarrow> do {
            let new_size = (case last_bytes of None \<Rightarrow> w
                            | Some n \<Rightarrow> ((w + 2 ^ 32 - BLOCK_SIZE) mod 2 ^ 32 + n) mod 2 ^ 32);
            let nn = nn\<lparr>pendingWrite := (pendingWrite nn)(ino := None)\<rparr>;
            (nn, r) \<leftarrow> Complete ops ino new_size nn;
            (if \<not> r then Some (nn\<lparr>pendingWrite := (pendingWrite nn)(ino \<mapsto> new_size)\<rparr>,
                               Throw ''Complete pending write failed'')
             else Some (nn, Resp r))
          })
     }"

definition PBAddBlock :: "'s nn_ops \<Rightarrow> string \<Rightarrow> 's name_node \<Rightarrow> ('s name_node \<times> block_proto option pb) option" where
  "PBAddBlock ops src nn =
     do {
       (nn, ok, ino, _) \<leftarrow> RecursiveLookup ops src 0 0 nn;
       (if \<not> ok then Some (nn, Resp None)
        else case pendingWrite nn ino of
          None \<Rightarrow> Some (nn, Throw ''File not locked'')
        | Some w \<Rightarrow> do {
            (nn, b) \<leftarrow> AppendBlock ops ino nn;
            Some (nn\<lparr>pendingWrite := (pendingWrite nn)(ino \<mapsto> (w + BLOCK_SIZE) mod 2 ^ 32)\<rparr>,
                  Resp (Some (ConvertLocatedBlock b)))
          })
     }"

definition PBRename :: "'s nn_ops \<Rightarrow> string \<Rightarrow> string \<Rightarrow> 's name_node \<Rightarrow> ('s name_node \<times> bool pb) option" where
  "PBRename ops src dst nn =
     do {
       (nn, ok, src_dir) \<leftarrow> RecursiveLookupParent ops src 0 nn;
       (if \<not> ok then Some (nn, Resp False)
        else do {
          (nn, ok, dst_dir) \<leftarrow> RecursiveLookupParent ops dst 0 nn;
          (if \<not> ok then Some (nn, Resp False)
           else do {
             (nn, r) \<leftarrow> Rename ops src_dir (last_name src) dst_dir (last_name dst) nn;
             Some (nn, Resp r)
           })
        })
     }"

section \<open>Deleting\<close>

definition DualLock :: "'s nn_ops \<Rightarrow> nat \<Rightarrow> nat \<Rightarrow> 's name_node \<Rightarrow> 's name_node option" where
  "DualLock ops a b nn =
     (if a < b then do { nn \<leftarrow> nn_acquire ops a nn; nn_acquire ops b nn }
      else if a > b then do { nn \<leftarrow> nn_acquire ops b nn; nn_acquire ops a nn }
      else nn_acquire ops a nn)"

definition DualUnlock :: "'s nn_ops \<Rightarrow> nat \<Rightarrow> nat \<Rightarrow> 's name_node \<Rightarrow> 's name_node option" where
  "DualUnlock ops a b nn =
     (if a = b then nn_release ops a nn else do { nn \<leftarrow> nn_release ops a nn; nn_release ops b nn })"

text \<open>
  The loop over the entries of a directory, and the recursion, whose depth the stack limits: with
  \<open>0\<close> it overflows.
\<close>

fun delete_entries :: "(nat \<Rightarrow> 's name_node \<Rightarrow> ('s name_node \<times> bool) option) \<Rightarrow> 's nn_ops \<Rightarrow> nat \<Rightarrow>
    (string \<times> nat) list \<Rightarrow> 's name_node \<Rightarrow> ('s name_node \<times> bool) option" where
  "delete_entries rec ops ino [] nn = Some (nn, True)"
| "delete_entries rec ops ino ((name, inum) # es) nn =
     do {
       nn \<leftarrow> nn_acquire ops inum nn;
       (nn, ok) \<leftarrow> rec inum nn;
       (if \<not> ok then do { nn \<leftarrow> nn_release ops inum nn; Some (nn, False) }
        else do {
          (nn, ok) \<leftarrow> Unlink ops ino name inum nn;
          nn \<leftarrow> nn_release ops inum nn;
          (if \<not> ok then Some (nn, False) else delete_entries rec ops ino es nn)
        })
     }"

fun RecursiveDelete :: "nat \<Rightarrow> 's nn_ops \<Rightarrow> nat \<Rightarrow> 's name_node \<Rightarrow> ('s name_node \<times> bool) option" where
  "RecursiveDelete 0 ops ino nn = None"
| "RecursiveDelete (Suc depth) ops ino nn =
     do {
       (nn, isd) \<leftarrow> Isdir ops ino nn;
       (if \<not> isd then Some (nn, True)
        else do {
          (nn, ok, dir) \<leftarrow> Readdir ops ino nn;
          (if \<not> ok then Some (nn, False)
           else delete_entries (\<lambda>i. RecursiveDelete depth ops i) ops ino dir nn)
        })
     }"

text \<open>What remains under both locks: an empty directory, or a file, is unlinked from its parent.\<close>

definition delete_locked :: "'s nn_ops \<Rightarrow> string \<Rightarrow> nat \<Rightarrow> nat \<Rightarrow> 's name_node \<Rightarrow> ('s name_node \<times> bool) option" where
  "delete_locked ops src ino parent nn =
     do {
       (nn, isd) \<leftarrow> Isdir ops ino nn;
       (nn, go) \<leftarrow> (if \<not> isd then Some (nn, True)
                    else do { (nn, ok, dir) \<leftarrow> Readdir ops ino nn; Some (nn, ok \<and> dir = []) });
       (if \<not> go then Some (nn, False) else Unlink ops parent (last_name src) ino nn)
     }"

definition PBDelete :: "nat \<Rightarrow> 's nn_ops \<Rightarrow> string \<Rightarrow> bool \<Rightarrow> 's name_node \<Rightarrow> ('s name_node \<times> bool pb) option" where
  "PBDelete depth ops src recursive nn =
     do {
       (nn, ok, ino, parent) \<leftarrow> RecursiveLookup ops src 0 0 nn;
       (if \<not> ok then Some (nn, Resp False)
        else do {
          nn \<leftarrow> DualLock ops ino parent nn;
          (nn, ok) \<leftarrow> (if recursive then RecursiveDelete depth ops ino nn else Some (nn, True));
          (nn, ok) \<leftarrow> (if ok then delete_locked ops src ino parent nn else Some (nn, False));
          nn \<leftarrow> DualUnlock ops ino parent nn;
          Some (nn, Resp ok)
        })
     }"

definition PBGetFsStats :: "nat list" where
  "PBGetFsStats = [0, 0, 0, 0, 0, 0]"

definition PBSetSafeMode :: bool where
  "PBSetSafeMode = False"

datatype report_type = R_ALL | R_LIVE | R_DEAD | R_DECOMMISSIONING

definition PBGetDatanodeReport :: "report_type \<Rightarrow> 's name_node \<Rightarrow> datanode_id list" where
  "PBGetDatanodeReport ty nn = (case ty of R_ALL \<Rightarrow> GetDatanodes nn | R_LIVE \<Rightarrow> GetDatanodes nn | _ \<Rightarrow> [])"

definition PBDatanodeHeartbeat :: "datanode_id \<Rightarrow> 's name_node \<Rightarrow> 's name_node" where
  "PBDatanodeHeartbeat i nn = DatanodeHeartbeat i nn"

section \<open>The connection\<close>

text \<open>The seven bytes a client opens a connection with; \<open>buf\<close> is what \<open>read\<close> returned.\<close>

definition ReadHeader :: "string \<Rightarrow> int" where
  "ReadHeader buf =
     (if length buf \<noteq> 7 then -1
      else if buf ! 0 \<noteq> CHR ''h'' \<or> buf ! 1 \<noteq> CHR ''r'' \<or> buf ! 2 \<noteq> CHR ''p'' \<or> buf ! 3 \<noteq> CHR ''c'' then -1
      else if buf ! 4 \<noteq> CHR 0x09 then -1
      else if buf ! 5 \<noteq> CHR 0x00 then -1
      else if buf ! 6 \<noteq> CHR 0x00 then -1
      else 0)"

text \<open>
  The requests with the fields that the handlers read, and their replies. \<open>Q_RegisterDatanode\<close> also
  says whether the thread can be started.
\<close>

datatype nn_request =
    Q_GetFileInfo string | Q_GetListing string string bool | Q_GetBlockLocations string
  | Q_RegisterDatanode bool bool datanode_id | Q_GetServerDefaults | Q_Create string bool
  | Q_Complete string "nat option" | Q_AddBlock string | Q_RenewLease | Q_Rename string string
  | Q_Delete string bool | Q_Mkdirs string bool | Q_GetFsStats | Q_SetSafeMode
  | Q_GetDatanodeReport report_type | Q_DatanodeHeartbeat datanode_id

datatype nn_reply =
    A_Status "file_status option" | A_Listing "file_status list \<times> bool" | A_Blocks "blocks_proto option"
  | A_Registration "bool \<times> datanode_id" | A_Defaults server_defaults | A_Result bool
  | A_Block "block_proto option" | A_Stats "nat list" | A_Datanodes "datanode_id list" | A_Empty

fun reply_pb :: "('r \<Rightarrow> nn_reply) \<Rightarrow> 'r pb \<Rightarrow> nn_reply pb" where
  "reply_pb f (Throw e) = Throw e"
| "reply_pb f (Resp r) = Resp (f r)"

abbreviation answer :: "('r \<Rightarrow> nn_reply) \<Rightarrow> ('s name_node \<times> 'r pb) option \<Rightarrow> ('s name_node \<times> nn_reply pb) option" where
  "answer f r \<equiv> map_option (\<lambda>(nn, x). (nn, reply_pb f x)) r"

fun handle_request :: "nat \<Rightarrow> 's nn_ops \<Rightarrow> nn_request \<Rightarrow> 's name_node \<Rightarrow> ('s name_node \<times> nn_reply pb) option" where
  "handle_request depth ops (Q_GetFileInfo src) nn = answer A_Status (PBGetFileInfo ops src nn)"
| "handle_request depth ops (Q_GetListing src after loc) nn = answer A_Listing (PBGetListing ops src after loc nn)"
| "handle_request depth ops (Q_GetBlockLocations src) nn = answer A_Blocks (PBGetBlockLocations ops src nn)"
| "handle_request depth ops (Q_RegisterDatanode spawned master i) nn =
     answer A_Registration (Some (PBRegisterDatanode spawned master i nn))"
| "handle_request depth ops Q_GetServerDefaults nn = Some (nn, Resp (A_Defaults PBGetServerDefaults))"
| "handle_request depth ops (Q_Create src par) nn = answer A_Status (PBCreate ops src par nn)"
| "handle_request depth ops (Q_Complete src n) nn = answer A_Result (PBComplete ops src n nn)"
| "handle_request depth ops (Q_AddBlock src) nn = answer A_Block (PBAddBlock ops src nn)"
| "handle_request depth ops Q_RenewLease nn = Some (nn, Resp A_Empty)"
| "handle_request depth ops (Q_Rename src dst) nn = answer A_Result (PBRename ops src dst nn)"
| "handle_request depth ops (Q_Delete src rec) nn = answer A_Result (PBDelete depth ops src rec nn)"
| "handle_request depth ops (Q_Mkdirs src par) nn = answer A_Result (PBMkdirs ops src par nn)"
| "handle_request depth ops Q_GetFsStats nn = Some (nn, Resp (A_Stats PBGetFsStats))"
| "handle_request depth ops Q_SetSafeMode nn = Some (nn, Resp (A_Result PBSetSafeMode))"
| "handle_request depth ops (Q_GetDatanodeReport ty) nn = Some (nn, Resp (A_Datanodes (PBGetDatanodeReport ty nn)))"
| "handle_request depth ops (Q_DatanodeHeartbeat i) nn = Some (PBDatanodeHeartbeat i nn, Resp A_Empty)"

definition methods :: "string list" where
  "methods = [''GetFileInfo'', ''GetListing'', ''GetBlockLocations'', ''RegisterDatanode'', ''GetServerDefaults'',
     ''Create'', ''Complete'', ''AddBlock'', ''RenewLease'', ''Rename'', ''Delete'', ''Mkdirs'', ''GetFsStats'',
     ''SetSafeMode'', ''GetDatanodeReport'', ''DatanodeHeartbeat'']"

definition to_lower :: "char \<Rightarrow> char" where
  "to_lower c = (let k = of_char c :: nat in if 65 \<le> k \<and> k \<le> 90 then char_of (k + 32) else c)"

definition strcasecmp_eq :: "string \<Rightarrow> string \<Rightarrow> bool" where
  "strcasecmp_eq a b = (map to_lower (c_string a) = map to_lower (c_string b))"

record rpc_header =
  rq_callid :: int
  rq_clientid :: string
  rq_retrycount :: int

datatype rpc_status = SUCCESS | ERROR

record rpc_response =
  rs_callid :: int
  rs_status :: rpc_status
  rs_version :: nat
  rs_clientid :: string
  rs_retrycount :: int
  rs_errormsg :: "string option"
  rs_no_such_method :: bool

definition response :: "rpc_header \<Rightarrow> rpc_status \<Rightarrow> string option \<Rightarrow> rpc_response" where
  "response h st msg = \<lparr>rs_callid = rq_callid h, rs_status = st, rs_version = 9, rs_clientid = rq_clientid h,
     rs_retrycount = rq_retrycount h, rs_errormsg = msg, rs_no_such_method = False\<rparr>"

text \<open>
  One request on a connection: what \<open>HrpcRead\<close> read (\<open>None\<close> if it failed), the method name in the
  request header (\<open>None\<close> if it cannot be parsed), and \<open>parse\<close>, which decodes the parameters of a
  method from the rest of the message. The result is the value of \<open>HandleRpc\<close> and what it writes.
\<close>

definition HandleRpc :: "(string \<Rightarrow> string \<Rightarrow> nn_request option) \<Rightarrow> nat \<Rightarrow> 's nn_ops \<Rightarrow>
    (rpc_header \<times> string option \<times> string) option \<Rightarrow> 's name_node \<Rightarrow>
    ('s name_node \<times> int \<times> (rpc_response \<times> nn_reply option) option) option" where
  "HandleRpc parse depth ops msg nn =
     (case msg of
        None \<Rightarrow> Some (nn, -1, None)
      | Some (h, name, buf) \<Rightarrow>
          if rq_callid h < 0 then Some (nn, 0, None)
          else case name of
            None \<Rightarrow> Some (nn, -1, None)
          | Some name \<Rightarrow>
              (case find (strcasecmp_eq name) methods of
                 None \<Rightarrow> Some (nn, -1, Some ((response h ERROR (Some ''Method not supported''))\<lparr>rs_no_such_method := True\<rparr>, None))
               | Some m \<Rightarrow>
                   (case parse m buf of
                      None \<Rightarrow> Some (nn, -1, None)
                    | Some q \<Rightarrow> do {
                        (nn, r) \<leftarrow> handle_request depth ops q nn;
                        (case r of
                           Resp a \<Rightarrow> Some (nn, 0, Some (response h SUCCESS None, Some a))
                         | Throw e \<Rightarrow> Some (nn, 0, Some (response h ERROR (Some e), None)))
                      })))"

text \<open>A connection: requests are handled until one returns something else than 0.\<close>

fun serve :: "(string \<Rightarrow> string \<Rightarrow> nn_request option) \<Rightarrow> nat \<Rightarrow> 's nn_ops \<Rightarrow>
    (rpc_header \<times> string option \<times> string) option list \<Rightarrow> 's name_node \<Rightarrow>
    ('s name_node \<times> (rpc_response \<times> nn_reply option) list) option" where
  "serve parse depth ops [] nn = Some (nn, [])"
| "serve parse depth ops (msg # msgs) nn =
     do {
       (nn, r, out) \<leftarrow> HandleRpc parse depth ops msg nn;
       let out = (case out of None \<Rightarrow> [] | Some x \<Rightarrow> [x]);
       (if r \<noteq> 0 then Some (nn, out)
        else do { (nn, outs) \<leftarrow> serve parse depth ops msgs nn; Some (nn, out @ outs) })
     }"

definition worker :: "(string \<Rightarrow> string \<Rightarrow> nn_request option) \<Rightarrow> nat \<Rightarrow> 's nn_ops \<Rightarrow> string \<Rightarrow>
    (rpc_header \<times> string option \<times> string) option list \<Rightarrow> 's name_node \<Rightarrow>
    ('s name_node \<times> (rpc_response \<times> nn_reply option) list) option" where
  "worker parse depth ops hdr msgs nn = (if ReadHeader hdr \<noteq> 0 then Some (nn, []) else serve parse depth ops msgs nn)"

section \<open>The instance on the extent server and the lock server\<close>

definition local_nn_ops :: "(nat \<Rightarrow> env) \<Rightarrow> nat \<Rightarrow> attr \<Rightarrow> yfs_sys nn_ops" where
  "local_nn_ops envs clt a =
     \<lparr>nn_fs = local_ops envs clt,
      nn_get_block_ids = (\<lambda>eid l. on_ext (cl_get_block_ids (\<lambda>_. Delivered) envs eid l)),
      nn_append_block = (\<lambda>eid bid. on_ext (cl_append_block (\<lambda>_. Delivered) envs eid bid)),
      nn_complete = (\<lambda>eid sz. on_ext (cl_complete (\<lambda>_. Delivered) envs eid sz)),
      nn_attr = a\<rparr>"

end
