(* ===== verification/Inode_Theorems.thy ===== *)
theory Inode_Theorems
  imports File_Blocks
begin

text \<open>
  The theorems about the block layer and the inode layer, each with a state that shows its
  hypotheses can hold. The sample states are the freshly formatted disk \<open>im0\<close>, and \<open>im3\<close>,
  the same disk after three bytes went into the root directory.
\<close>

section \<open>Sample states\<close>

text \<open>An environment in which the clock stands at 0 and fresh memory is zero.\<close>

definition env0 :: env where
  "env0 = \<lparr>now = (\<lambda>_. 0), junk = (\<lambda>_. zeros)\<rparr>"

definition im0 :: inode_manager where
  "im0 = the (new_inode_manager env0)"

definition im3 :: inode_manager where
  "im3 = the (write_file env0 im0 1 zeros 3)"

lemma im0_facts:
  "new_inode_manager env0 = Some im0" "fs_inv im0" "bm_ok im0" "abs_fs im0 = [1 \<mapsto> (T_DIR, [])]"
  "bm_free im0 = data_range" "inode_at im0 1 = Some (fresh_inode env0 T_DIR)"
  using new_inode_manager_ok [of env0] fs_inv_ok by (auto simp: im0_def)

lemma card_data_range: "card data_range = 1020"
proof -
  have "data_range = {1028..<2048}" by (auto simp: data_range_def first_data_def BLOCK_NUM_eq)
  show ?thesis unfolding \<open>data_range = {1028..<2048}\<close> by simp
qed

lemma card_im0 [simp]: "card (bm_free im0) = 1020"
  by (simp add: im0_facts(5) card_data_range)

lemma inode_at_im0: "inode_at im0 i = (if i = 1 then Some (fresh_inode env0 T_DIR) else None)"
proof (cases "i = 1")
  case False
  then have "abs_fs im0 i = None" by (simp add: im0_facts(4))
  then show ?thesis using False by (simp add: abs_fs_def)
qed (simp only: im0_facts(6) refl if_True)

lemma block_count_3 [simp]: "block_count 3 = 1"
  by (simp add: block_count_def BLOCK_SIZE_def)

lemma im3_facts:
  "write_file env0 im0 1 zeros 3 = Some im3" "written im0 1 T_DIR [0, 0, 0] im3" "fs_inv im3" "bm_ok im3"
proof -
  have eqs: "map zeros [0..<nat 3] = [0, 0, 0]" "i_type (fresh_inode env0 T_DIR) = T_DIR"
    by (simp_all add: zeros_def upt_rec fresh_inode_views T_DIR_def)
  have "\<exists>im'. write_file env0 im0 1 zeros 3 = Some im'
      \<and> written im0 1 (i_type (fresh_inode env0 T_DIR)) (map zeros [0..<nat 3]) im'"
    by (rule write_file_small [OF im0_facts(2,6)]) (simp_all add: NDIRECT_def fresh_inode_views)
  then have "write_file env0 im0 1 zeros 3 = Some im3 \<and> written im0 1 T_DIR [0, 0, 0] im3"
    unfolding eqs im3_def by force
  then show "write_file env0 im0 1 zeros 3 = Some im3" "written im0 1 T_DIR [0, 0, 0] im3" "fs_inv im3" "bm_ok im3"
    by (simp_all add: written_def fs_inv_ok)
qed

lemma im3_inode: obtains ino where "inode_at im3 1 = Some ino" "i_type ino = T_DIR" "i_size ino = 3"
  "file_bytes im3 ino = [0, 0, 0]"
proof -
  have "abs_fs im3 1 = Some (T_DIR, [0, 0, 0])"
    using im3_facts(2) by (simp add: written_def)
  then obtain ino where i: "inode_at im3 1 = Some ino" "i_type ino = T_DIR" "file_bytes im3 ino = [0, 0, 0]"
    by (auto simp: abs_fs_def)
  moreover have "i_size ino = length (file_bytes im3 ino)" by (simp add: file_bytes_def)
  ultimately show ?thesis using that by simp
qed

section \<open>The block layer\<close>

text \<open>
  C23. \<open>block_manager::alloc_block\<close> on a formatted disk returns the least unmarked block id
  from the first data block on and marks exactly that id, writing no block but the bitmap
  block; it returns 0 and changes nothing exactly when every bit of the bitmap block from
  there on is marked.
\<close>

theorem alloc_block_least:
  assumes "bm_ok bm" and "alloc_block mem bm = (bm', j)"
  shows "(\<forall>b. b \<noteq> 2 \<longrightarrow> bm_blocks bm' b = bm_blocks bm b) \<and> bm_sb bm' = bm_sb bm
    \<and> (if \<exists>i. first_data \<le> i \<and> i < BPB \<and> \<not> bm_used bm i
       then j = (LEAST i. first_data \<le> i \<and> \<not> bm_used bm i) \<and> (\<forall>b. bm_used bm' b = (b = j \<or> bm_used bm b))
       else j = 0 \<and> bm' = bm)"
  using assms(1)
proof (cases rule: alloc_block_cases [of bm mem])
  case (found k bm1)
  then have eq: "bm1 = bm'" "k = j" using assms(2) by simp_all
  have "j = (LEAST i. first_data \<le> i \<and> \<not> bm_used bm i)"
    using found unfolding eq by (intro Least_equality [symmetric]) (auto simp: not_less [symmetric])
  then show ?thesis using found unfolding eq by auto
next
  case none
  then show ?thesis using assms(2) by auto
qed

theorem alloc_block_least_witness:
  "snd (alloc_block zeros im0) = first_data \<and> bm_used (fst (alloc_block zeros im0)) first_data"
proof -
  have free: "\<not> bm_used im0 b" if "first_data \<le> b" "b < BLOCK_NUM" for b
    using im0_facts(5) that by (auto simp: bm_free_data_range data_range_def)
  have fd: "first_data < BLOCK_NUM" "first_data < BPB" by (simp_all add: first_data_def layout_defs)
  have l: "(LEAST i. first_data \<le> i \<and> \<not> bm_used im0 i) = first_data"
    by (rule Least_equality) (use free fd in auto)
  show ?thesis
    using alloc_block_least [OF im0_facts(3) prod.collapse [symmetric], of zeros] free [of first_data] fd l
    by (auto split: if_splits)
qed

text \<open>
  The search of \<open>alloc_block\<close> runs to the end of the bitmap block and not to the end of the disk.
  Once every data block is in use it hands out an id behind the last block, as long as such
  an id is unmarked, and what is written to that block is lost: the write has no effect.
\<close>

lemma alloc_block_beyond_disk:
  assumes "bm_ok bm" and "bm_free bm = {}" and "BLOCK_NUM \<le> i" and "i < BPB" and "\<not> bm_used bm i"
  shows "\<exists>bm' j. alloc_block mem bm = (bm', j) \<and> BLOCK_NUM \<le> j \<and> j \<le> i \<and> bm_write_block bm' j buf = bm'"
  using assms(1)
proof (cases rule: alloc_block_cases [of bm mem])
  case (found j bm')
  have "BLOCK_NUM \<le> j" 
  proof (rule ccontr)
    assume "\<not> BLOCK_NUM \<le> j"
    then have "j \<in> bm_free bm" using found(2,4) by (simp add: bm_free_def)
    then show False using assms(2) by simp
  qed
  moreover have "first_data < BLOCK_NUM" by (simp add: first_data_def layout_defs)
  then have "j \<le> i" using found(5) [of i] assms(3,5) by (meson le_trans less_imp_le_nat not_le)
  ultimately show ?thesis using found(1) by (auto simp: bm.wr_out)
next
  case none
  then show ?thesis using assms(3-5) by (auto simp: first_data_def layout_defs)
qed

text \<open>A disk whose bitmap marks all blocks of the disk and no others.\<close>

definition full_disk :: block_manager where
  "full_disk = new_block_manager\<lparr>bm_disk := \<lparr>blocks = (\<lambda>b k. if k < 256 then - 1 else 0)\<rparr>\<rparr>"

lemma full_disk_used: "b < BPB \<Longrightarrow> bm_used full_disk b = (b < BLOCK_NUM)"
proof -
  assume b: "b < BPB"
  have "(b div 8 < 256) = (b < BLOCK_NUM)" by (simp add: div_less_iff_less_mult BLOCK_NUM_eq)
  moreover have "7 - b mod 8 < 8" by (rule le_less_trans [of _ 7]) simp_all
  ultimately show ?thesis
    using b by (simp add: bm_used_small bit_of_def full_disk_def)
qed

lemma alloc_block_beyond_disk_witness:
  "\<exists>bm' j. alloc_block zeros full_disk = (bm', j) \<and> BLOCK_NUM \<le> j \<and> j \<le> BLOCK_NUM
     \<and> bm_write_block bm' j zeros = bm'"
proof (rule alloc_block_beyond_disk)
  show "bm_ok full_disk" by (simp add: full_disk_def bm_ok_def new_block_manager_def)
  have "bm_used full_disk b" if "b < BLOCK_NUM" for b
    using that by (subst full_disk_used) (simp_all add: layout_defs)
  then show "bm_free full_disk = {}" by (auto simp: bm_free_def)
  show "\<not> bm_used full_disk BLOCK_NUM" by (subst full_disk_used) (simp_all add: layout_defs)
qed (simp_all add: layout_defs)

text \<open>
  Freeing a block undoes allocating it: after \<open>alloc_block\<close> has handed out a data block,
  \<open>free_block\<close> of that id gives back the bitmap as it was, bit for bit.
\<close>

lemma free_undoes_alloc:
  assumes "bm_ok bm" and "bm_free bm \<noteq> {}" and "alloc_block mem bm = (bm', b)"
  shows "b \<in> bm_free bm \<and> bm_used (free_block mem' b bm') = bm_used bm \<and> bm_free (free_block mem' b bm') = bm_free bm"
proof -
  note st = alloc_block_step [OF assms]
  have b: "BBLOCK b = 2" "\<not> bm_used bm b"
    using bm_free_data [OF st(2)] data_range_bounds by auto
  then have "bm_used (free_block mem' b bm') c = bm_used bm c" for c
    by (subst free_block_used) (auto simp: st(4) layout_defs)
  then have "bm_used (free_block mem' b bm') = bm_used bm" by blast
  then show ?thesis using st(2) by (simp add: bm_free_def)
qed

lemma free_undoes_alloc_witness:
  "bm_free (free_block zeros (snd (alloc_block zeros im0)) (fst (alloc_block zeros im0))) = data_range"
proof -
  have "bm_free im0 \<noteq> {}" using card_im0 by (metis card.empty zero_neq_numeral)
  then show ?thesis
    using free_undoes_alloc [OF im0_facts(3) _ prod.collapse [symmetric], of zeros zeros] by (simp add: im0_facts(5))
qed

section \<open>Inodes\<close>

text \<open>
  Writing an inode and reading it back gives the same inode, whatever lay in the buffers,
  and no other inode changes.
\<close>

lemma inode_roundtrip:
  assumes "bm_ok im" and "i < INODE_NUM" and "inode_wf ino" and "i_type ino \<noteq> 0"
  shows "get_inode m' (put_inode m im i (Some ino)) i = Some ino
    \<and> (\<forall>j. j \<noteq> i \<longrightarrow> get_inode m' (put_inode m im i (Some ino)) j = get_inode m' im j)"
  using assms by (simp add: get_inode_eq put_inode_same put_inode_at_other)

theorem inode_roundtrip_witness:
  "get_inode zeros (put_inode zeros im0 5 (Some (fresh_inode env0 T_FILE))) 5 = Some (fresh_inode env0 T_FILE)
   \<and> get_inode zeros (put_inode zeros im0 5 (Some (fresh_inode env0 T_FILE))) 1 = Some (fresh_inode env0 T_DIR)"
  using inode_roundtrip [OF im0_facts(3) _ fresh_inode_wf, of 5 env0 T_FILE zeros zeros]
  by (simp add: get_inode_eq im0_facts(3) inode_at_im0 INODE_NUM_def fresh_inode_views T_FILE_def)

text \<open>
  C32. The constructor of the inode manager succeeds, establishes the invariant, and leaves a disk with one
  file, the empty root directory with inode number 1, and all 1020 data blocks free.
\<close>

theorem format_disk:
  "\<exists>im. new_inode_manager e = Some im \<and> fs_inv im \<and> abs_fs im = [1 \<mapsto> (T_DIR, [])] \<and> card (bm_free im) = 1020"
  using new_inode_manager_ok [of e] card_data_range by auto

text \<open>
  C22. \<open>alloc_inode\<close> gives out the least inode number from 1 on that is not in use, for an
  empty file of the type asked for; the invariant, all other files and the set of free
  blocks are kept. When all 1023 numbers are in use it returns 0 and changes nothing.
\<close>

theorem alloc_inode_least:
  assumes "fs_inv im" and "0 < ty" and "ty < 2 ^ 16" and "alloc_inode e im ty = (im', j)"
  shows "if \<exists>k. 1 \<le> k \<and> k < INODE_NUM \<and> abs_fs im k = None
    then j = (LEAST k. 1 \<le> k \<and> abs_fs im k = None) \<and> fs_inv im' \<and> abs_fs im' = (abs_fs im)(j \<mapsto> (ty, []))
      \<and> bm_free im' = bm_free im
    else j = 0 \<and> im' = im"
proof -
  have n: "abs_fs im k = None \<longleftrightarrow> inode_at im k = None" for k by (simp add: abs_fs_def)
  show ?thesis
    using alloc_inode_ok [OF assms(1-3), of e]
  proof (elim disjE exE conjE)
    fix k im1
    assume a: "alloc_inode e im ty = (im1, k)" "1 \<le> k" "k < INODE_NUM" "inode_at im k = None"
      "\<forall>l. 1 \<le> l \<and> l < k \<longrightarrow> inode_at im l \<noteq> None" "written im k ty [] im1"
      "\<forall>b \<in> data_range. bm_used im1 b = bm_used im b"
    have "(LEAST k. 1 \<le> k \<and> abs_fs im k = None) = k"
      using a(2,4,5) by (intro Least_equality) (auto simp: n not_less [symmetric])
    moreover have "bm_free im1 = bm_free im" using a(7) by (auto simp: bm_free_data_range)
    ultimately show ?thesis
      using a(1-4,6) assms(4) by (auto simp: n written_def)
  qed (use assms(4) in \<open>auto simp: n\<close>)
qed

theorem alloc_inode_least_witness:
  "\<exists>im'. alloc_inode env0 im0 T_FILE = (im', 2) \<and> abs_fs im' = [1 \<mapsto> (T_DIR, []), 2 \<mapsto> (T_FILE, [])]"
proof -
  obtain im' j where a: "alloc_inode env0 im0 T_FILE = (im', j)" by force
  have l: "(LEAST k. 1 \<le> k \<and> abs_fs im0 k = None) = 2"
    by (rule Least_equality) (auto simp: im0_facts(4) le_Suc_eq not_less_eq_eq split: if_splits)
  have e: "\<exists>k. 1 \<le> k \<and> k < INODE_NUM \<and> abs_fs im0 k = None"
    by (rule exI [of _ 2]) (simp add: im0_facts(4) INODE_NUM_def)
  have ty: "0 < T_FILE" "T_FILE < 2 ^ 16" by (simp_all add: T_FILE_def)
  show ?thesis
    using alloc_inode_least [OF im0_facts(2) ty a] e l a by (simp only: if_True im0_facts(4)) blast
qed

section \<open>Files\<close>

text \<open>
  C1. Writing a file of at most 100 blocks and reading it back returns exactly the bytes that
  were written, if the blocks the file has to gain are free. The invariant holds and every other file keeps its type and its bytes.
\<close>

theorem write_then_read:
  assumes inv: "fs_inv im" and at: "inode_at im i = Some ino" and sz: "0 \<le> sz" "block_count (nat sz) \<le> NDIRECT"
    and free: "block_count (nat sz) - block_count (i_size ino) \<le> card (bm_free im)"
  shows "\<exists>im' im'' out. write_file e im i buf sz = Some im' \<and> read_file e' im' i = Some (im'', Some (out, nat sz))
    \<and> map out [0..<nat sz] = map buf [0..<nat sz] \<and> fs_inv im''
    \<and> abs_fs im'' = (abs_fs im)(i \<mapsto> (i_type ino, map buf [0..<nat sz]))"
proof -
  obtain im' where w: "write_file e im i buf sz = Some im'" "written im i (i_type ino) (map buf [0..<nat sz]) im'"
    using write_file_small [OF assms] by blast
  then have a: "abs_fs im' i = Some (i_type ino, map buf [0..<nat sz])" "fs_inv im'"
    by (simp_all add: written_def)
  then obtain ino' where i': "inode_at im' i = Some ino'" "file_bytes im' ino' = map buf [0..<nat sz]"
    by (auto simp: abs_fs_def)
  have "i_size ino' = length (file_bytes im' ino')" by (simp add: file_bytes_def)
  then have n: "i_size ino' = nat sz" by (simp add: i'(2))
  show ?thesis
    using w read_file_ok [OF a(2) i'(1), of e'] unfolding n i'(2) written_def by (metis (no_types, lifting))
qed

theorem write_then_read_witness:
  "\<exists>im' im'' out. write_file env0 im0 1 (\<lambda>k. of_nat k) 20000 = Some im' \<and> read_file env0 im' 1 = Some (im'', Some (out, 20000))
     \<and> map out [0..<20000] = map of_nat [0..<20000]"
  using write_then_read [OF im0_facts(2,6), of 20000 env0 "\<lambda>k. of_nat k" env0]
  by (auto simp: block_count_def BLOCK_SIZE_def NDIRECT_def fresh_inode_views)

lemma concat_chunks:
  assumes "0 < N"
  shows "concat (map (\<lambda>b. map (f b) [0..<N]) bs) = map (\<lambda>k. f (bs ! (k div N)) (k mod N)) [0..<length bs * N]"
proof (induction bs rule: rev_induct)
  case (snoc b bs)
  let ?g = "\<lambda>k. f ((bs @ [b]) ! (k div N)) (k mod N)" and ?m = "length bs"
  have "map ?g [0..<?m * N] = map (\<lambda>k. f (bs ! (k div N)) (k mod N)) [0..<?m * N]"
    using assms by (intro map_cong) (simp_all add: nth_append div_less_iff_less_mult)
  moreover have "map ?g [?m * N..<?m * N + N] = map (f b) [0..<N]"
  proof -
    have "[?m * N..<?m * N + N] = map (\<lambda>j. j + ?m * N) [0..<N]"
      by (simp only: map_add_upt add.commute)
    then have "map ?g [?m * N..<?m * N + N] = map (\<lambda>j. ?g (j + ?m * N)) [0..<N]"
      by (simp only: map_map comp_def)
    also have "\<dots> = map (f b) [0..<N]"
      using assms by (intro map_cong) simp_all
    finally show ?thesis .
  qed
  moreover have "[0..<length (bs @ [b]) * N] = [0..<?m * N] @ [?m * N..<?m * N + N]"
    using upt_add_eq_append [of 0 "?m * N" N] by (simp add: add.commute)
  ultimately show ?case using snoc.IH by (simp only: map_append concat_append) simp
qed simp

lemma concat_blocks:
  "n \<le> length bs * BLOCK_SIZE \<Longrightarrow> take n (concat (map (\<lambda>b. map (f b) [0..<BLOCK_SIZE]) bs))
    = map (\<lambda>k. f (bs ! (k div BLOCK_SIZE)) (k mod BLOCK_SIZE)) [0..<n]"
  by (simp add: concat_chunks take_map)

text \<open>
  C9. The two views of a file agree. For a file of any size, direct and indirect blocks alike,
  \<open>read_file\<close> returns the concatenation of the blocks that \<open>get_block_ids\<close> lists and
  \<open>read_block\<close> reads, cut to the size of the file; it changes nothing but the access time.
\<close>

theorem read_is_blocks:
  assumes inv: "fs_inv im" and at: "inode_at im i = Some ino"
  shows "\<exists>im' out ids. read_file e im i = Some (im', Some (out, i_size ino)) \<and> get_block_ids e' im i [] = Some ids
    \<and> map out [0..<i_size ino]
      = take (i_size ino) (concat (map (\<lambda>b. map (im_read_block im b m) [0..<BLOCK_SIZE]) ids))
    \<and> fs_inv im' \<and> abs_fs im' = abs_fs im"
proof -
  let ?ids = "data_blocks im ino"
  have len: "i_size ino \<le> length ?ids * BLOCK_SIZE"
    using length_data_blocks [OF inode_at_blocks [OF at]] block_count_le_iff by (metis order_refl)
  have "b < BLOCK_NUM" if "b \<in> set ?ids" for b
    using that fs_inv_data(1) [OF inv at] data_range_bounds by blast
  then have "map (im_read_block im b m) [0..<BLOCK_SIZE] = map (bm_blocks im b) [0..<BLOCK_SIZE]"
      if "b \<in> set ?ids" for b
    using that by (auto simp: im_read_block_def bm.rd_in)
  then have "concat (map (\<lambda>b. map (im_read_block im b m) [0..<BLOCK_SIZE]) ?ids)
      = concat (map (\<lambda>b. map (bm_blocks im b) [0..<BLOCK_SIZE]) ?ids)"
    by (metis (no_types, lifting) map_cong)
  then show ?thesis
    using read_file_ok [OF inv at, of e] get_block_ids_ok [OF inv at, of e' "[]"]
      concat_blocks [OF len, of "bm_blocks im"] by (auto simp: file_bytes_def)
qed

theorem read_is_blocks_witness:
  "\<exists>im' out ids. read_file env0 im3 1 = Some (im', Some (out, 3)) \<and> get_block_ids env0 im3 1 [] = Some ids
     \<and> map out [0..<3] = take 3 (concat (map (\<lambda>b. map (im_read_block im3 b zeros) [0..<BLOCK_SIZE]) ids))"
proof -
  obtain ino where "inode_at im3 1 = Some ino" "i_size ino = 3" using im3_inode by blast
  then show ?thesis using read_is_blocks [OF im3_facts(3), of 1 ino env0 env0 zeros] by auto
qed



text \<open>
  C40. A write of more than 201 blocks, up to the 4196 that the size check admits, runs behind the end of the
  array of 101 block ids: it never completes normally.
\<close>

theorem write_overrun:
  assumes ok: "bm_ok im" and at: "inode_at im i = Some ino" and sz: "0 \<le> sz" "sz < 2 ^ 31"
    and n: "2 * NDIRECT + 1 < block_count (nat sz)" "block_count (nat sz) \<le> MAXFILE"
  shows "write_file e im i buf sz = None"
proof -
  let ?n = "block_count (nat sz)"
  have len: "length (i_blocks ino) = NDIRECT + 1" by (rule inode_at_blocks [OF at])
  have out: "write_indirect bs ids buf (?n - NDIRECT) st = None" if "length bs = NDIRECT + 1" for bs ids st
    using that n(1) by (intro write_indirect_out) simp
  have "write_case2_1 e im i ino buf sz ?n o' = None" for o'
    using out len by (simp add: alloc_direct_length write_case2_1_def Let_def case_prod_beta)
  moreover have "write_case2_2 e im i ino buf sz ?n o' = None" "write_case2_3 e im i ino buf sz ?n = None"
    "write_case2_4 e im i ino buf sz ?n o' = None" for o'
    using out [OF len]
    by (simp_all add: write_case2_2_def write_case2_3_def write_case2_4_def Let_def case_prod_beta)
  ultimately show ?thesis
    using n at by (auto simp: write_file_def get_inode_eq [OF ok] need_blocks_eq [OF sz] Let_def)
qed

theorem write_overrun_witness: "write_file env0 im0 1 zeros 3309568 = None"
  by (rule write_overrun [OF im0_facts(3,6)])
    (simp_all add: block_count_def BLOCK_SIZE_def NDIRECT_def MAXFILE_def NINDIRECT_def)

section \<open>Removing files\<close>



text \<open>
  Removing an empty file frees the block that its \<open>blocks[0]\<close> happens to name, a slot
  that \<open>alloc_inode\<close> never initialises. If that block belongs to another file, the block is
  marked free while that file still uses it, and the invariant is broken.
\<close>

lemma remove_frees_foreign_block:
  assumes inv: "fs_inv im" and at: "inode_at im i = Some ino" and z: "i_size ino = 0"
    and j: "j \<noteq> i" "i_blocks ino ! 0 \<in> set (own im j)"
  shows "\<exists>im'. remove_file e im i = Some im' \<and> i_blocks ino ! 0 \<in> set (own im' j)
    \<and> i_blocks ino ! 0 \<in> bm_free im' \<and> \<not> fs_inv im'"
proof -
  have d: "i_blocks ino ! 0 \<in> data_range" by (rule fs_inv_own(2) [OF inv j(2)])
  obtain im' where r: "remove_file e im i = Some im'" "\<forall>j. j \<noteq> i \<longrightarrow> own im' j = own im j"
    "\<not> bm_used im' (i_blocks ino ! 0)"
    using remove_file_empty [OF inv at z d, of e] by blast
  then have o: "i_blocks ino ! 0 \<in> set (own im' j)" using j by simp
  then have "\<not> fs_inv im'" using fs_inv_own(3) r(3) by blast
  then show ?thesis using r o d by (auto simp: bm_free_data_range)
qed

text \<open>Fresh memory in which the first block id of an inode is \<open>b\<close>.\<close>

definition env_stale :: "nat \<Rightarrow> env" where
  "env_stale b = \<lparr>now = (\<lambda>_. 0), junk = (\<lambda>_. put_u32 zeros 20 b)\<rparr>"

lemma fresh_stale: "b < 2 ^ 32 \<Longrightarrow> i_blocks (fresh_inode (env_stale b) ty) ! 0 = b"
  by (simp add: fresh_inode_def env_stale_def inode_of_bytes_def mem_simps del: upt_Suc)

lemma remove_frees_foreign_block_witness:
  "\<exists>im i im' b. b \<in> set (own im 1) \<and> remove_file env0 im i = Some im' \<and> b \<in> bm_free im' \<and> \<not> fs_inv im'"
proof -
  obtain ino where i: "inode_at im3 1 = Some ino" "i_size ino = 3" using im3_inode by blast
  then have "length (own im3 1) = 1"
    using length_data_blocks [OF inode_at_blocks [OF i(1)], of im3] by (simp add: own_Some own_blocks_def NDIRECT_def)
  then obtain b where b: "own im3 1 = [b]" by (auto simp: length_Suc_conv)
  then have "b \<in> data_range" by (intro fs_inv_own(2) [OF im3_facts(3), of b 1]) simp
  then have b32: "b < 2 ^ 32" by (rule order_less_trans [OF data_range_bounds(2)]) (simp add: BLOCK_NUM_eq)
  have ty: "0 < T_FILE" "T_FILE < 2 ^ 16" by (simp_all add: T_FILE_def)
  have "abs_fs im3 2 = None" using im3_facts(2) by (simp add: written_def im0_facts(4))
  then have none: "inode_at im3 2 = None" by (simp add: abs_fs_def)
  obtain k im where a: "inode_at im3 k = None" "written im3 k T_FILE [] im"
      "inode_at im k = Some (fresh_inode (env_stale b) T_FILE)"
    using alloc_inode_ok [OF im3_facts(3) ty, of "env_stale b"]
  proof (elim disjE exE conjE)
    assume "\<forall>k. 1 \<le> k \<and> k < INODE_NUM \<longrightarrow> inode_at im3 k \<noteq> None"
    then show thesis using none by (auto simp: INODE_NUM_def dest: spec [of _ 2])
  qed (rule that)
  have k: "1 \<noteq> k" using a(1) i(1) by auto
  have o: "own im 1 = [b]" "fs_inv im" using a(2) k b by (simp_all add: written_def)
  have "\<exists>im'. remove_file env0 im k = Some im' \<and> i_blocks (fresh_inode (env_stale b) T_FILE) ! 0 \<in> set (own im' 1)
      \<and> i_blocks (fresh_inode (env_stale b) T_FILE) ! 0 \<in> bm_free im' \<and> \<not> fs_inv im'"
    by (rule remove_frees_foreign_block [OF o(2) a(3) _ k]) (simp_all add: fresh_inode_views fresh_stale [OF b32] o(1) del: One_nat_def)
  moreover have "b \<in> set (own im 1)" by (simp only: o(1)) simp
  ultimately show ?thesis unfolding fresh_stale [OF b32] by blast
qed

section \<open>The block interface\<close>

text \<open>
  C24. \<open>append_block\<close> on a file that is not full gives it one more block at the end: the block was
  free, it is the last of the ids \<open>get_block_ids\<close> then lists and the others are listed as before, no data block is
  written, and the invariant and all other files are kept.
\<close>

theorem append_block_extends:
  assumes inv: "fs_inv im" and at: "inode_at im i = Some ino" and n: "block_count (i_size ino) < MAXFILE"
    and free: "2 \<le> card (bm_free im)"
  shows "\<exists>im' bid ids. append_block e im i bid0 = Some (im', bid) \<and> bid \<in> bm_free im
    \<and> get_block_ids e' im i [] = Some ids \<and> get_block_ids e' im' i [] = Some (ids @ [bid])
    \<and> (\<forall>b \<in> set (ids @ [bid]). bm_blocks im' b = bm_blocks im b)
    \<and> fs_inv im' \<and> (\<forall>j. j \<noteq> i \<longrightarrow> abs_fs im' j = abs_fs im j)"
proof -
  obtain im' bid where a: "append_block e im i bid0 = Some (im', bid)" "appended im i ino bid im'"
    using append_block_ok [OF assms, of e bid0] by blast
  then obtain ino' where i': "inode_at im' i = Some ino'" "data_blocks im' ino' = data_blocks im ino @ [bid]" "fs_inv im'"
    by (auto simp: appended_def)
  show ?thesis
    using a get_block_ids_ok [OF inv at, of e' "[]"] get_block_ids_ok [OF i'(3,1), of e' "[]"] i'(2)
    by (auto simp: appended_def)
qed

theorem append_block_extends_witness:
  "\<exists>im' bid ids. append_block env0 im0 1 0 = Some (im', bid) \<and> get_block_ids env0 im' 1 [] = Some (ids @ [bid])"
  using append_block_extends [OF im0_facts(2,6), of env0 0 env0] by (auto simp: fresh_inode_views MAXFILE_def NDIRECT_def)

text \<open>
  A file of \<open>MAXFILE\<close> blocks passes the test of \<open>append_block\<close> (\<open>>\<close> where \<open>>=\<close> is meant), and the call then
  writes behind the end of the indirect block.
\<close>

lemma append_block_full:
  assumes "bm_ok im" and "inode_at im i = Some ino" and "block_count (i_size ino) = MAXFILE"
  shows "append_block e im i bid0 = None"
  using assms by (simp add: append_block_def get_inode_eq Let_def case_prod_beta MAXFILE_def NDIRECT_facts)

lemma append_block_full_witness:
  "append_block env0 (put_inode zeros im0 1 (Some ((fresh_inode env0 T_DIR)\<lparr>i_size := 68747264\<rparr>))) 1 0 = None"
proof -
  let ?ino = "(fresh_inode env0 T_DIR)\<lparr>i_size := 68747264\<rparr>"
  have wf: "inode_wf ?ino" using fresh_inode_wf [of env0 T_DIR] by (simp add: inode_wf_def)
  have "inode_at (put_inode zeros im0 1 (Some ?ino)) 1 = Some ?ino"
    by (subst put_inode_same [OF im0_facts(3) _ wf]) (simp_all add: INODE_NUM_def fresh_inode_views T_DIR_def)
  then show ?thesis
    by (rule append_block_full [rotated])
      (simp_all add: im0_facts(3) block_count_def BLOCK_SIZE_def MAXFILE_def NDIRECT_def NINDIRECT_def)
qed

text \<open>
  \<open>complete\<close> with a size that needs as many blocks as the file has, sets the size and leaves the blocks and every
  other file alone: \<open>read_file\<close> then returns that many bytes from the blocks of the file.
\<close>

lemma complete_then_read:
  assumes inv: "fs_inv im" and at: "inode_at im i = Some ino" and sz: "sz < 2 ^ 32" "block_count sz = block_count (i_size ino)"
  shows "\<exists>im' im'' out ids. im_complete e im i sz = Some im' \<and> read_file e' im' i = Some (im'', Some (out, sz))
    \<and> get_block_ids e im i [] = Some ids
    \<and> map out [0..<sz] = map (\<lambda>k. bm_blocks im (ids ! (k div BLOCK_SIZE)) (k mod BLOCK_SIZE)) [0..<sz]
    \<and> fs_inv im' \<and> (\<forall>j. j \<noteq> i \<longrightarrow> abs_fs im' j = abs_fs im j)"
proof -
  obtain im' ino' where c: "im_complete e im i sz = Some im'" "fs_inv im'" "inode_at im' = (inode_at im)(i \<mapsto> ino')" "i_size ino' = sz"
    "abs_fs im' = (abs_fs im)(i \<mapsto> (i_type ino,
        map (\<lambda>k. bm_blocks im (data_blocks im ino ! (k div BLOCK_SIZE)) (k mod BLOCK_SIZE)) [0..<sz]))"
    using im_complete_ok [OF assms, of e] by blast
  then have i': "inode_at im' i = Some ino'" by simp
  have b: "file_bytes im' ino' = map (\<lambda>k. bm_blocks im (data_blocks im ino ! (k div BLOCK_SIZE)) (k mod BLOCK_SIZE)) [0..<sz]"
    using fun_cong [OF c(5), of i] i' by (simp add: abs_fs_def)
  show ?thesis
    using c read_file_ok [OF c(2) i', of e'] get_block_ids_ok [OF inv at, of e "[]"] by (auto simp: b)
qed

lemma complete_then_read_witness:
  "\<exists>im' im'' out. im_complete env0 im3 1 2 = Some im' \<and> read_file env0 im' 1 = Some (im'', Some (out, 2))"
proof -
  obtain ino where i: "inode_at im3 1 = Some ino" "i_size ino = 3" using im3_inode by blast
  have "block_count 2 = block_count (i_size ino)" by (simp add: i(2) block_count_def BLOCK_SIZE_def)
  then show ?thesis using complete_then_read [OF im3_facts(3) i(1), of 2 env0 env0] by auto
qed

text \<open>
  \<open>getattr\<close> of an existing file reports its type, size, access and change time, and the access time once more in
  place of the modification time; all zero for an inode that does not exist.
\<close>

lemma getattr_exact:
  assumes "bm_ok im"
  shows "im_getattr e im i = (case inode_at im i of
      None \<Rightarrow> \<lparr>a_type = 0, a_atime = 0, a_mtime = 0, a_ctime = 0, a_size = 0\<rparr>
    | Some ino \<Rightarrow> \<lparr>a_type = u32_of_short (i_type ino), a_atime = i_atime ino, a_mtime = i_atime ino,
                   a_ctime = i_ctime ino, a_size = i_size ino\<rparr>)"
  using im_getattr_at [OF assms] by (simp add: im_getattr_def get_inode_eq [OF assms])

end
