(* ===== verification/Yfs_Theorems.thy ===== *)
theory Yfs_Theorems
  imports Yfs_Ops Inode_Theorems
begin

text \<open>
  The theorems about the extent service and the file system operations. They are about the
  program itself: the operations of \<open>yfs_client\<close> run on the extent server and the lock
  server of the sources (\<open>local_ops\<close>), through the interpretation \<open>yfs\<close> of the contract
  \<open>extent_store\<close>. The sample state \<open>sys0\<close> is the freshly formatted system.
\<close>

section \<open>The sample state\<close>

definition sys0 :: yfs_sys where
  "sys0 = \<lparr>ext = \<lparr>x_im = im0, x_calls = 0\<rparr>, lks = \<lparr>l_srv = new_lock_server, l_calls = 0\<rparr>\<rparr>"

definition ops0 :: "yfs_sys fs_ops" where
  "ops0 = local_ops (\<lambda>_. env0) 0"

lemma ext_fs_im0: "ext_fs im0 = [1 \<mapsto> (T_DIR, [])]"
  by (rule ext) (simp add: ext_fs_def im0_facts(4) str_of_def)

lemma sys0_facts: "sys_inv sys0" "sys_fs sys0 = [1 \<mapsto> (T_DIR, dir_string [])]" "sys_held sys0 = {}" "sys_free sys0 = 1020"
  by (simp_all add: sys_defs sys0_def im0_facts(2) ext_fs_im0 room_def)

lemma dir_ok_Nil: "dir_ok []"
  by (simp add: dir_ok_def)

lemma sys0_room: "(1 :: nat) \<le> 2" "2 < INODE_NUM" "sys_fs sys0 2 = None" "(1 :: nat) < 2 ^ 31"
  by (simp_all add: sys0_facts(2) INODE_NUM_def)

section \<open>The extent service\<close>

text \<open>
  C6. The extent server implements a map from ids to a type and a string: after \<open>put\<close> of at most 100
  blocks, \<open>get\<close> returns the string and every other id keeps its type and contents; the number of free blocks changes by
  exactly the difference of the blocks the old and the new contents take.
\<close>

theorem put_then_get:
  assumes inv: "fs_inv im" and at: "ext_fs im (mask_id eid) = Some (t, old)"
    and fits: "length c \<le> NDIRECT * BLOCK_SIZE" "block_count (length c) - block_count (length old) \<le> room im"
  shows "\<exists>im' im''. es_put eid c e im = Some (im', ext_OK, ()) \<and> es_get eid e' im' = Some (im'', ext_OK, c)
    \<and> fs_inv im'' \<and> ext_fs im'' = (ext_fs im)(mask_id eid \<mapsto> (t, c))
    \<and> room im'' + blocks_of (length c) = room im + blocks_of (length old)"
proof -
  obtain im' where p: "es_put eid c e im = Some (im', ext_OK, ())" "fs_inv im'" "ext_fs im' = (ext_fs im)(mask_id eid \<mapsto> (t, c))"
    "room im' + blocks_of (length c) = room im + blocks_of (length old)"
    using es_put_ok [OF assms, of e] by blast
  then show ?thesis using es_get_ok [OF p(2), of eid e'] by auto
qed

theorem put_then_get_witness:
  "\<exists>im' im''. es_put (2 ^ 31 + 1) ''abc'' env0 im0 = Some (im', ext_OK, ())
     \<and> es_get (2 ^ 31 + 1) env0 im' = Some (im'', ext_OK, ''abc'') \<and> ext_fs im'' = [1 \<mapsto> (T_DIR, ''abc'')]"
proof -
  have m: "mask_id (2 ^ 31 + 1) = 1" by (simp add: mask_id_def)
  show ?thesis
    using put_then_get [OF im0_facts(2), of "2 ^ 31 + 1" T_DIR "[]" "''abc''" env0 env0]
    unfolding m by (auto simp: ext_fs_im0 NDIRECT_def BLOCK_SIZE_def room_def block_count_def)
qed

text \<open>
  An RPC is executed at most once, also on a network that loses requests and replies. The
  caller sees the status and the reply of the handler exactly when the call was delivered and answered; on a
  negative status its variable is left alone, and the server has run the handler once or not at all.
\<close>

lemma rpc_at_most_once:
  assumes "h (envs (x_calls s)) (x_im s) = Some (im', ret, r')" and "0 \<le> ret"
  shows "\<exists>s' st out. rpc_call net envs h r s = Some (s', st, out) \<and> x_calls s' = x_calls s + 1
    \<and> (if net (x_calls s) = Delivered then x_im s' = im' \<and> st = ret \<and> out = r'
       else (x_im s' = x_im s \<or> x_im s' = im') \<and> st < 0 \<and> out = r)"
  using assms by (cases "net (x_calls s)") (auto simp: rpc_call_def rpc_failure_def Let_def)

lemma rpc_at_most_once_witness:
  "\<exists>s' st out. rpc_call (\<lambda>_. Reply_lost 0) (\<lambda>_. env0) (es_getattr 1) attr0 \<lparr>x_im = im0, x_calls = 0\<rparr> = Some (s', st, out)
     \<and> st < 0 \<and> out = attr0"
  using rpc_at_most_once [of "es_getattr 1" "\<lambda>_. env0" "\<lparr>x_im = im0, x_calls = 0\<rparr>" im0 ext_OK _ "\<lambda>_. Reply_lost 0" attr0]
  by (auto simp: es_getattr_def yfs_OK_def)

section \<open>Directories\<close>

text \<open>
  C3. Creating a file with a name that the directory does not have yet makes an empty file under an unused inode number
  and one new entry at the end of the directory; a lookup of the name then finds that number. Nothing else
  changes and no lock stays held.
\<close>

theorem create_then_lookup:
  assumes "sys_inv s" and p: "p < 2 ^ 31" and "sys_fs s p = Some (T_DIR, dir_string es)" and "dir_ok es"
    and "name_ok name" and new: "map_of es name = None" and "1 \<le> k" and "k < INODE_NUM" and "sys_fs s k = None"
    and "length name + 6 \<le> BLOCK_SIZE" and "length (dir_string es) + length name + 6 \<le> NDIRECT * BLOCK_SIZE"
    and "1 \<le> sys_free s" and "p \<notin> sys_held s"
  shows "\<exists>s' s'' j. create (local_ops envs clt) p name ino s = Some (s', yfs_OK, j)
    \<and> lookup (local_ops envs clt) p name False 0 s' = Some (s'', yfs_OK, True, j) \<and> sys_fs s j = None
    \<and> sys_fs s'' = (sys_fs s)(j \<mapsto> (T_FILE, []), p \<mapsto> (T_DIR, dir_string (es @ [(name, j)])))
    \<and> sys_inv s'' \<and> sys_held s'' = sys_held s"
proof -
  obtain s' j where c: "create (local_ops envs clt) p name ino s = Some (s', yfs_OK, j)" "sys_fs s j = None" "sys_inv s'"
    "sys_held s' = sys_held s" "dir_ok (es @ [(name, j)])"
    "sys_fs s' = (sys_fs s)(j \<mapsto> (T_FILE, []), p \<mapsto> (T_DIR, dir_string (es @ [(name, j)])))"
    using yfs.create_ok [OF assms, of envs clt ino] by blast
  have "sys_fs s' p = Some (T_DIR, dir_string (es @ [(name, j)]))" using c(6) by simp
  from yfs.lookup_ok [OF c(3) p this c(5), of envs clt name False 0] map_of_entry [OF new, of j "[]"]
  show ?thesis using c by (auto simp: lookup_def)
qed

theorem create_then_lookup_witness:
  "\<exists>s' s'' j. create ops0 1 ''a'' 0 sys0 = Some (s', yfs_OK, j) \<and> lookup ops0 1 ''a'' False 0 s' = Some (s'', yfs_OK, True, j)"
  using create_then_lookup [OF sys0_facts(1) sys0_room(4) _ dir_ok_Nil _ _ sys0_room(1-3), of "''a''" "\<lambda>_. env0" 0 0]
  by (auto simp: sys0_facts ops0_def name_ok_def NDIRECT_def BLOCK_SIZE_def)

text \<open>
  Creating a name that exists returns \<open>EXIST\<close> and the inode number it has, and changes no file.
\<close>

lemma create_existing:
  assumes "sys_inv s" and "p < 2 ^ 31" and "sys_fs s p = Some (T_DIR, dir_string es)" and "dir_ok es"
    and "map_of es name = Some i" and "p \<notin> sys_held s"
  shows "\<exists>s'. create (local_ops envs clt) p name ino s = Some (s', yfs_EXIST, i)
    \<and> sys_inv s' \<and> sys_fs s' = sys_fs s \<and> sys_held s' = sys_held s"
  by (rule yfs.create_exists [OF assms])

lemma create_existing_witness:
  "\<exists>s s' j s''. create ops0 1 ''a'' 0 sys0 = Some (s, yfs_OK, j) \<and> create ops0 1 ''a'' 0 s = Some (s', yfs_EXIST, j)"
proof -
  obtain s j where c: "create ops0 1 ''a'' 0 sys0 = Some (s, yfs_OK, j)" "sys_inv s" "sys_held s = {}" "dir_ok [(''a'', j)]"
    "sys_fs s 1 = Some (T_DIR, dir_string [(''a'', j)])"
    using yfs.create_ok [OF sys0_facts(1) sys0_room(4) _ dir_ok_Nil _ _ sys0_room(1-3), of "''a''" "\<lambda>_. env0" 0 0]
    by (auto simp: sys0_facts ops0_def name_ok_def NDIRECT_def BLOCK_SIZE_def)
  then show ?thesis
    using create_existing [OF c(2) sys0_room(4) c(5,4), of "''a''" j "\<lambda>_. env0" 0 0] by (auto simp: ops0_def)
qed

text \<open>
  With all inodes in use the extent server answers the number 0 with status \<open>OK\<close>, and \<open>create\<close> reports success and
  adds an entry for inode 0, which does not exist.
\<close>

lemma create_without_inode:
  assumes "sys_inv s" and "p < 2 ^ 31" and "sys_fs s p = Some (T_DIR, dir_string es)" and "dir_ok es"
    and "map_of es name = None" and full: "\<And>k. 1 \<le> k \<Longrightarrow> k < INODE_NUM \<Longrightarrow> sys_fs s k \<noteq> None"
    and "length name + 6 \<le> BLOCK_SIZE" and "length (dir_string es) + length name + 6 \<le> NDIRECT * BLOCK_SIZE"
    and "1 \<le> sys_free s" and "p \<notin> sys_held s"
  shows "\<exists>s'. create (local_ops envs clt) p name ino s = Some (s', yfs_OK, 0) \<and> sys_inv s' \<and> sys_held s' = sys_held s
    \<and> sys_fs s' = (sys_fs s)(p \<mapsto> (T_DIR, dir_string (es @ [(name, 0)])))"
  using assms by (rule yfs.create_without_inodes)

text \<open>A disk on which every inode is an empty directory.\<close>

definition im_full :: inode_manager where
  "im_full = new_block_manager\<lparr>bm_disk := \<lparr>blocks = (\<lambda>b. if 2 < b then store_inode zeros (fresh_inode env0 T_DIR) else zeros)\<rparr>\<rparr>"

lemma im_full_facts: "fs_inv im_full" "ext_fs im_full k = (if k < INODE_NUM then Some (T_DIR, []) else None)" "room im_full = 1020"
proof -
  let ?ino = "fresh_inode env0 T_DIR"
  have ty: "i_type ?ino = T_DIR" by (simp add: fresh_inode_views T_DIR_def)
  have at: "inode_at im_full i = (if i < INODE_NUM then Some ?ino else None)" for i
    by (simp add: inode_at_def im_full_def ino_block_def inode_of_store_inode [OF fresh_inode_wf] ty Let_def)
      (simp add: T_DIR_def)
  have own: "own im_full i = []" for i by (simp add: own_def at fresh_inode_views)
  have "bm_ok im_full" by (simp add: im_full_def bm_ok_def new_block_manager_def)
  then show "fs_inv im_full" by (simp add: fs_inv_def own at fresh_inode_views)
  show "ext_fs im_full k = (if k < INODE_NUM then Some (T_DIR, []) else None)"
    by (simp add: ext_fs_def abs_fs_def at ty fresh_inode_views(4) str_of_def)
  have "\<not> bm_used im_full b" if "b < BPB" for b
    using that by (simp add: bm_used_small im_full_def bit_of_def zeros_def)
  then have "bm_free im_full = data_range" using data_range_bounds(3) by (auto simp: bm_free_data_range)
  then show "room im_full = 1020" by (simp add: room_def card_data_range)
qed

definition sys_full :: yfs_sys where
  "sys_full = \<lparr>ext = \<lparr>x_im = im_full, x_calls = 0\<rparr>, lks = \<lparr>l_srv = new_lock_server, l_calls = 0\<rparr>\<rparr>"

lemma create_without_inode_witness:
  "\<exists>s'. create ops0 1 ''a'' 7 sys_full = Some (s', yfs_OK, 0) \<and> sys_fs s' 1 = Some (T_DIR, ''a;0'')"
proof -
  have f: "sys_inv sys_full" "sys_held sys_full = {}" "sys_free sys_full = 1020"
    "sys_fs sys_full k = (if k < INODE_NUM then Some (T_DIR, []) else None)" for k
    by (simp_all add: sys_defs sys_full_def im_full_facts)
  have z: "filename 0 = ''0''" by code_simp
  have "\<exists>s'. create (local_ops (\<lambda>_. env0) 0) 1 ''a'' 7 sys_full = Some (s', yfs_OK, 0) \<and> sys_inv s' \<and> sys_held s' = sys_held sys_full
      \<and> sys_fs s' = (sys_fs sys_full)(1 \<mapsto> (T_DIR, dir_string ([] @ [(''a'', 0)])))"
    by (rule create_without_inode [OF f(1) sys0_room(4) _ dir_ok_Nil])
      (simp_all add: f INODE_NUM_def NDIRECT_def BLOCK_SIZE_def)
  then show ?thesis by (auto simp: ops0_def z)
qed

text \<open>
  C26. A new directory is empty, and it is the last entry of its parent's listing: \<open>mkdir\<close> followed by \<open>readdir\<close> of the
  parent returns the old entries in their order and the new one, and \<open>readdir\<close> of the new directory returns none.
\<close>

theorem mkdir_then_readdir:
  assumes "sys_inv s" and p: "p < 2 ^ 31" and "sys_fs s p = Some (T_DIR, dir_string es)" and "dir_ok es"
    and "name_ok name" and "map_of es name = None" and "1 \<le> k" and "k < INODE_NUM" and "sys_fs s k = None"
    and "length name + 6 \<le> BLOCK_SIZE" and "length (dir_string es) + length name + 6 \<le> NDIRECT * BLOCK_SIZE"
    and "1 \<le> sys_free s" and h: "p \<notin> sys_held s" "\<forall>j < INODE_NUM. j \<notin> sys_held s"
  shows "\<exists>s1 s2 s3 j. mkdir (local_ops envs clt) p name ino s = Some (s1, yfs_OK, j)
    \<and> readdir (local_ops envs clt) p [] s1 = Some (s2, yfs_OK, es @ [(name, j)])
    \<and> readdir (local_ops envs clt) j [] s2 = Some (s3, yfs_OK, [])
    \<and> sys_fs s3 = (sys_fs s)(j \<mapsto> (T_DIR, []), p \<mapsto> (T_DIR, dir_string (es @ [(name, j)]))) \<and> sys_held s3 = sys_held s"
proof -
  obtain s1 j where m: "mkdir (local_ops envs clt) p name ino s = Some (s1, yfs_OK, j)" "j < INODE_NUM" "j \<noteq> p" "sys_inv s1"
    "sys_held s1 = sys_held s" "dir_ok (es @ [(name, j)])"
    "sys_fs s1 = (sys_fs s)(j \<mapsto> (T_DIR, []), p \<mapsto> (T_DIR, dir_string (es @ [(name, j)])))"
    using yfs.mkdir_ok [OF assms(1-13), of envs clt ino] by blast
  have p1: "p \<notin> sys_held s1" "sys_fs s1 p = Some (T_DIR, dir_string (es @ [(name, j)]))" using m(5,7) h by simp_all
  obtain s2 where r: "readdir (local_ops envs clt) p [] s1 = Some (s2, yfs_OK, es @ [(name, j)])" "sys_inv s2" "sys_fs s2 = sys_fs s1"
    "sys_held s2 = sys_held s"
    using yfs.readdir_ok [OF m(4) p p1 m(6), of envs clt "[]"] m(5) by auto
  have j2: "j < 2 ^ 31" "j \<notin> sys_held s2" "sys_fs s2 j = Some (T_DIR, dir_string [])"
    using m(2,3,7) r(3,4) h(2) INODE_NUM_small by simp_all
  show ?thesis
    using yfs.readdir_ok [OF r(2) j2 dir_ok_Nil, of envs clt "[]"] m(1,7) r by auto
qed

theorem mkdir_then_readdir_witness:
  "\<exists>s1 s2 s3 j. mkdir ops0 1 ''d'' 0 sys0 = Some (s1, yfs_OK, j) \<and> readdir ops0 1 [] s1 = Some (s2, yfs_OK, [(''d'', j)])
     \<and> readdir ops0 j [] s2 = Some (s3, yfs_OK, [])"
  using mkdir_then_readdir [OF sys0_facts(1) sys0_room(4) _ dir_ok_Nil _ _ sys0_room(1-3), of "''d''" "\<lambda>_. env0" 0 0]
  by (auto simp: sys0_facts ops0_def name_ok_def NDIRECT_def BLOCK_SIZE_def)

text \<open>
  \<open>readdir\<close> of anything but a directory never returns: the lock of the inode is released inside and again by
  the caller, and the second release aborts the process.
\<close>

lemma readdir_of_non_directory:
  assumes "sys_inv s" and "p < 2 ^ 31" and "p \<notin> sys_held s" and "ftype (sys_fs s p) \<noteq> T_DIR"
  shows "readdir (local_ops envs clt) p l s = None"
  using assms by (rule yfs.readdir_not_dir)

theorem readdir_of_non_directory_witness: "readdir ops0 2 [] sys0 = None"
  unfolding ops0_def by (rule readdir_of_non_directory [OF sys0_facts(1)]) (simp_all add: sys0_facts T_DIR_def)

text \<open>
  C27. \<open>unlink\<close> of an entry whose name does not occur earlier in the text of the directory removes exactly that entry and the file it
  names, if the size of the file is not a multiple of the block size; the other entries keep their order, and no
  lock stays held.
\<close>

theorem unlink_entry:
  assumes "sys_inv s" and "p < 2 ^ 31" and "p \<notin> sys_held s" and "sys_fs s p = Some (T_DIR, dir_string (pre @ (n, i) # post))"
    and "dir_ok (pre @ (n, i) # post)" and "map_of pre n = None"
    and "find_str n (dir_string (pre @ (n, i) # post)) = Some (entry_pos pre)"
    and "length (dir_string (pre @ (n, i) # post)) \<le> NDIRECT * BLOCK_SIZE"
    and "i < 2 ^ 31" and "i \<noteq> p" and "i \<notin> sys_held s" and "sys_fs s i = Some (t, c)" and "length c mod BLOCK_SIZE \<noteq> 0"
  shows "\<exists>s'. unlink (local_ops envs clt) p n s = Some (s', yfs_OK) \<and> sys_inv s' \<and> sys_held s' = sys_held s
    \<and> sys_fs s' = (sys_fs s)(p \<mapsto> (T_DIR, dir_string (pre @ post)), i := None)"
  using assms by (rule yfs.unlink_ok)

text \<open>
  A system with the files \<open>ba\<close> and \<open>a\<close> in the root directory, under the numbers 2 and 3, each with one byte. Two
  steps make it from the formatted disk: taking the next inode number, and filling an empty file.
\<close>

lemma sample_create:
  assumes "fs_inv im" and j: "1 \<le> j" "j < INODE_NUM" "ext_fs im j = None" and below: "\<And>k. 1 \<le> k \<Longrightarrow> k < j \<Longrightarrow> ext_fs im k \<noteq> None"
  obtains im' where "fs_inv im'" "ext_fs im' = (ext_fs im)(j \<mapsto> (T_FILE, []))" "room im' = room im"
proof -
  have ty: "0 < T_FILE" "T_FILE < 2 ^ 16" by (simp_all add: T_FILE_def)
  from es_create_ok [OF assms(1) ty, of env0] show thesis
  proof (elim disjE exE conjE)
    fix i im'
    assume a: "1 \<le> i" "ext_fs im i = None" "\<forall>k. 1 \<le> k \<and> k < i \<longrightarrow> ext_fs im k \<noteq> None" "fs_inv im'"
      "ext_fs im' = (ext_fs im)(i \<mapsto> (T_FILE, []))" "room im' = room im"
    have "\<not> i < j" using below [of i] a(1,2) by blast
    moreover have "\<not> j < i" using a(3) j(1,3) by blast
    ultimately have "i = j" by simp
    then show thesis using a that by blast
  qed (use j in blast)
qed

lemma sample_put:
  assumes "fs_inv im" and i: "i < 2 ^ 31" "ext_fs im i = Some (t, [])" and c: "length c \<le> BLOCK_SIZE" and r: "0 < room im"
  obtains im' where "fs_inv im'" "ext_fs im' = (ext_fs im)(i \<mapsto> (t, c))" "room im \<le> room im' + 1"
proof -
  have n: "block_count (length c) \<le> 1" using c by (simp add: block_count_le_iff)
  have at: "ext_fs im (mask_id i) = Some (t, [])" using i by simp
  have "length c \<le> NDIRECT * BLOCK_SIZE" using c by (simp add: NDIRECT_def)
  moreover have "block_count (length c) - block_count (length ([] :: string)) \<le> room im" using n r by simp
  ultimately obtain im' where p: "fs_inv im'" "ext_fs im' = (ext_fs im)(mask_id i \<mapsto> (t, c))"
    "room im' + blocks_of (length c) = room im + blocks_of (length ([] :: string))"
    using es_put_ok [OF assms(1) at, of c env0] by blast
  have "blocks_of (length c) \<le> 1" "blocks_of (length ([] :: string)) = 0" using n by (simp_all add: blocks_of_def NDIRECT_def)
  then have "room im \<le> room im' + 1" using p(3) by simp
  then show thesis using that p(1,2) i(1) by simp
qed

lemma sample_length: "length (dir_string [(''ba'', 2), (''a'', 3)]) = 8"
  by code_simp

lemma sample_files:
  obtains s where "sys_inv s" "sys_held s = {}"
    "sys_fs s = [1 \<mapsto> (T_DIR, dir_string [(''ba'', 2), (''a'', 3)]), 2 \<mapsto> (T_FILE, ''x''), 3 \<mapsto> (T_FILE, ''y'')]"
proof -
  have n: "2 < INODE_NUM" "3 < INODE_NUM" by (simp_all add: INODE_NUM_def)
  obtain im1 where 1: "fs_inv im1" "ext_fs im1 = [1 \<mapsto> (T_DIR, []), 2 \<mapsto> (T_FILE, [])]" "room im1 = 1020"
    by (rule sample_create [OF im0_facts(2), of 2]) (auto simp: n ext_fs_im0 room_def le_Suc_eq)
  obtain im2 where 2: "fs_inv im2" "ext_fs im2 = [1 \<mapsto> (T_DIR, []), 2 \<mapsto> (T_FILE, []), 3 \<mapsto> (T_FILE, [])]" "room im2 = 1020"
  proof (rule sample_create [OF 1(1), of 3])
    fix k :: nat
    assume "1 \<le> k" "k < 3"
    then have "k = 1 \<or> k = 2" by linarith
    then show "ext_fs im1 k \<noteq> None" by (auto simp: 1)
  qed (simp_all add: n 1)
  let ?d = "dir_string [(''ba'', 2), (''a'', 3)]"
  have d: "length ?d \<le> BLOCK_SIZE" by (simp only: sample_length BLOCK_SIZE_def)
  obtain im3 where 3: "fs_inv im3" "ext_fs im3 = (ext_fs im2)(1 \<mapsto> (T_DIR, ?d))" "room im2 \<le> room im3 + 1"
    by (rule sample_put [OF 2(1) _ _ d, of 1 T_DIR]) (simp_all add: 2)
  obtain im4 where 4: "fs_inv im4" "ext_fs im4 = (ext_fs im3)(2 \<mapsto> (T_FILE, ''x''))" "room im3 \<le> room im4 + 1"
    by (rule sample_put [OF 3(1), of 2 T_FILE "''x''"]) (use 3 2 in \<open>simp_all add: BLOCK_SIZE_def\<close>)
  obtain im5 where 5: "fs_inv im5" "ext_fs im5 = (ext_fs im4)(3 \<mapsto> (T_FILE, ''y''))"
    by (rule sample_put [OF 4(1), of 3 T_FILE "''y''"]) (use 4 3 2 in \<open>simp_all add: BLOCK_SIZE_def\<close>)
  have "ext_fs im5 = [1 \<mapsto> (T_DIR, ?d), 2 \<mapsto> (T_FILE, ''x''), 3 \<mapsto> (T_FILE, ''y'')]"
    unfolding 5 4 3 2 by (rule ext) simp
  then show thesis
    using that [of "\<lparr>ext = \<lparr>x_im = im5, x_calls = 0\<rparr>, lks = \<lparr>l_srv = new_lock_server, l_calls = 0\<rparr>\<rparr>"] 5(1)
    by (simp add: sys_defs)
qed

theorem unlink_entry_witness:
  "\<exists>s s'. sys_fs s 2 = Some (T_FILE, ''x'') \<and> unlink ops0 1 ''ba'' s = Some (s', yfs_OK)
     \<and> sys_fs s' 1 = Some (T_DIR, dir_string [(''a'', 3)]) \<and> sys_fs s' 2 = None"
proof -
  obtain s where s: "sys_inv s" "sys_held s = {}"
    "sys_fs s = [1 \<mapsto> (T_DIR, dir_string [(''ba'', 2), (''a'', 3)]), 2 \<mapsto> (T_FILE, ''x''), 3 \<mapsto> (T_FILE, ''y'')]"
    by (rule sample_files)
  have f: "find_str ''ba'' (dir_string ([] @ (''ba'', 2) # [(''a'', 3)])) = Some (entry_pos [])" by code_simp
  have l: "length (dir_string ([] @ (''ba'', 2) # [(''a'', 3)])) \<le> NDIRECT * BLOCK_SIZE"
    unfolding append_Nil sample_length by (simp add: NDIRECT_def BLOCK_SIZE_def)
  have "\<exists>s'. unlink (local_ops (\<lambda>_. env0) 0) 1 ''ba'' s = Some (s', yfs_OK) \<and> sys_inv s' \<and> sys_held s' = sys_held s
      \<and> sys_fs s' = (sys_fs s)(1 \<mapsto> (T_DIR, dir_string ([] @ [(''a'', 3)])), 2 := None)"
    by (rule unlink_entry [where t = T_FILE and c = "''x''", OF s(1) sys0_room(4) _ _ _ _ f l])
      (simp_all add: s dir_ok_def name_ok_def BLOCK_SIZE_def)
  then obtain s' where "unlink ops0 1 ''ba'' s = Some (s', yfs_OK)"
    "sys_fs s' = (sys_fs s)(1 \<mapsto> (T_DIR, dir_string [(''a'', 3)]), 2 := None)"
    unfolding ops0_def append_Nil by blast
  then show ?thesis by (intro exI [of _ s] exI [of _ s']) (simp add: s(3))
qed



section \<open>Contents and symbolic links\<close>

lemma length_patch: "length (patch c off d) = max (length c) (off + length d)"
  by (simp add: patch_def max_def)

lemma read_patch: "take (length d) (drop off (patch c off d)) = d"
  by (simp add: patch_def)

lemma nth_patch:
  assumes "k < length (patch c off d)"
  shows "patch c off d ! k = (if off \<le> k \<and> k < off + length d then d ! (k - off)
    else if k < length c then c ! k else CHR 0x00)"
  using assms by (auto simp: patch_def nth_append)

text \<open>
  C2. \<open>write\<close> at an offset and \<open>read\<close> at the same offset: the read returns the bytes written, a gap behind the old end of the
  file is filled with zero characters, all other characters of the file and all other files stay as they were. The number of
  bytes \<open>write\<close> reports counts the gap as well.
\<close>

theorem yfs_write_then_read:
  assumes inv: "sys_inv s" and i: "i < 2 ^ 31" "i \<notin> sys_held s" "sys_fs s i = Some (t, c)"
    and off: "0 \<le> off" "off < 2 ^ 32" and sz: "sz < 2 ^ 31"
    and fits: "max (length c) (nat off + sz) \<le> NDIRECT * BLOCK_SIZE"
      "block_count (max (length c) (nat off + sz)) - block_count (length c) \<le> sys_free s"
  shows "\<exists>s' s'' c'. yfs_write (local_ops envs clt) i sz off data s = Some (s', yfs_OK, (nat off - length c) + sz)
    \<and> yfs_read (local_ops envs clt) i sz off d s' = Some (s'', yfs_OK, map data [0..<sz])
    \<and> sys_fs s'' = (sys_fs s)(i \<mapsto> (t, c')) \<and> length c' = max (length c) (nat off + sz)
    \<and> (\<forall>k < length c'. c' ! k = (if nat off \<le> k \<and> k < nat off + sz then data (k - nat off)
          else if k < length c then c ! k else CHR 0x00))
    \<and> sys_inv s'' \<and> sys_held s'' = sys_held s"
proof -
  let ?d = "map data [0..<sz]" and ?c' = "patch c (nat off) (map data [0..<sz])"
  have len: "length ?c' = max (length c) (nat off + sz)" by (simp add: length_patch)
  have w: "off < 2 ^ 63" "length ?c' \<le> NDIRECT * BLOCK_SIZE" "block_count (length ?c') - block_count (length c) \<le> sys_free s"
    using off fits by (simp_all only: len) simp
  obtain s' where s': "yfs_write (local_ops envs clt) i sz off data s = Some (s', yfs_OK, (nat off - length c) + sz)"
    "sys_inv s'" "sys_fs s' = (sys_fs s)(i \<mapsto> (t, ?c'))" "sys_held s' = sys_held s"
    using yfs.write_ok [OF inv i off(1) w(1) sz refl w(2,3), of envs clt] by blast
  have c': "content (sys_fs s' i) = ?c'" and h': "i \<notin> sys_held s'" using s'(3,4) i(2) by simp_all
  have "length (content (sys_fs s' i)) < 2 ^ 32"
    unfolding c' by (rule le_less_trans [OF w(2)]) (simp add: NDIRECT_def BLOCK_SIZE_def)
  then obtain s'' where s'': "yfs_read (local_ops envs clt) i sz off d s' = Some (s'', yfs_OK, take sz (drop (nat off) ?c'))"
    "sys_inv s''" "sys_fs s'' = sys_fs s'" "sys_held s'' = sys_held s'"
    using yfs.read_ok [OF s'(2) i(1) h' off, of envs clt sz d] unfolding c' by blast
  have "take sz (drop (nat off) ?c') = ?d" using read_patch [of ?d] by simp
  moreover have "?c' ! k = (if nat off \<le> k \<and> k < nat off + sz then data (k - nat off)
      else if k < length c then c ! k else CHR 0x00)" if "k < length ?c'" for k
    using nth_patch [OF that] by auto
  ultimately have "yfs_write (local_ops envs clt) i sz off data s = Some (s', yfs_OK, (nat off - length c) + sz)
    \<and> yfs_read (local_ops envs clt) i sz off d s' = Some (s'', yfs_OK, ?d)
    \<and> sys_fs s'' = (sys_fs s)(i \<mapsto> (t, ?c')) \<and> length ?c' = max (length c) (nat off + sz)
    \<and> (\<forall>k < length ?c'. ?c' ! k = (if nat off \<le> k \<and> k < nat off + sz then data (k - nat off)
          else if k < length c then c ! k else CHR 0x00))
    \<and> sys_inv s'' \<and> sys_held s'' = sys_held s"
    using s' s'' len by simp
  then show ?thesis by blast
qed

theorem yfs_write_then_read_witness:
  "\<exists>s' s''. yfs_write ops0 1 3 2 (\<lambda>_. CHR ''z'') sys0 = Some (s', yfs_OK, 5)
     \<and> yfs_read ops0 1 3 2 [] s' = Some (s'', yfs_OK, ''zzz'')"
  using yfs_write_then_read [OF sys0_facts(1) sys0_room(4), of T_DIR "[]" 2 3 "\<lambda>_. env0" 0 "\<lambda>_. CHR ''z''" "[]"]
  by (auto simp: sys0_facts ops0_def NDIRECT_def BLOCK_SIZE_def block_count_def upt_rec)

text \<open>
  \<open>setattr\<close> gives the file the size it is called with: \<open>getfile\<close> then reports that size, and the contents are the old ones cut off, or
  filled up with zero characters.
\<close>

lemma setattr_then_getfile:
  assumes inv: "sys_inv s" and i: "i < 2 ^ 31" "i \<notin> sys_held s" "sys_fs s i = Some (t, c)"
    and fits: "sz \<le> NDIRECT * BLOCK_SIZE" "block_count sz - block_count (length c) \<le> sys_free s"
  shows "\<exists>s' s'' fin'. setattr (local_ops envs clt) i sz s = Some (s', yfs_OK)
    \<and> getfile (local_ops envs clt) i fin s' = Some (s'', yfs_OK, fin') \<and> fi_size fin' = sz
    \<and> sys_fs s'' = (sys_fs s)(i \<mapsto> (t, take sz c @ replicate (sz - length c) (CHR 0x00)))
    \<and> sys_inv s'' \<and> sys_held s'' = sys_held s"
proof -
  obtain s' where s': "setattr (local_ops envs clt) i sz s = Some (s', yfs_OK)" "sys_inv s'"
    "sys_fs s' = (sys_fs s)(i \<mapsto> (t, resize c sz))" "sys_held s' = sys_held s"
    using yfs.setattr_ok [OF inv i fits, of envs clt] by blast
  have h': "i \<notin> sys_held s'" using s'(4) i(2) by simp
  have "length (content (sys_fs s' i)) = sz" using s'(3) by simp
  then show ?thesis
    using s' yfs.getfile_ok [OF s'(2) i(1) h', of envs clt "fin"] by (auto simp: resize_def)
qed

theorem setattr_then_getfile_witness:
  "\<exists>s' s'' fin'. setattr ops0 1 5 sys0 = Some (s', yfs_OK)
     \<and> getfile ops0 1 \<lparr>fi_size = 0, fi_atime = 0, fi_mtime = 0, fi_ctime = 0\<rparr> s' = Some (s'', yfs_OK, fin') \<and> fi_size fin' = 5"
  using setattr_then_getfile [OF sys0_facts(1) sys0_room(4), of T_DIR "[]" 5 "\<lambda>_. env0" 0 "\<lparr>fi_size = 0, fi_atime = 0, fi_mtime = 0, fi_ctime = 0\<rparr>"]
  by (auto simp: sys0_facts ops0_def NDIRECT_def BLOCK_SIZE_def block_count_def)

text \<open>
  C28. A symbolic link can be followed: after \<open>createlink\<close> a lookup of the link name finds an inode whose \<open>readlink\<close> is the
  target name, whatever characters it has.
\<close>

theorem symlink_roundtrip:
  assumes "sys_inv s" and p: "p < 2 ^ 31" and "sys_fs s p = Some (T_DIR, dir_string es)" and "dir_ok es"
    and "name_ok name" and new: "map_of es name = None" and "1 \<le> k" and "k < INODE_NUM" and "sys_fs s k = None"
    and "length name + 6 \<le> BLOCK_SIZE" and "length (dir_string es) + length name + 6 \<le> NDIRECT * BLOCK_SIZE"
    and "length target \<le> NDIRECT * BLOCK_SIZE" and "block_count (length target) + 1 \<le> sys_free s"
    and h: "p \<notin> sys_held s" "\<forall>j < INODE_NUM. j \<notin> sys_held s"
  shows "\<exists>s1 s2 s3 j. createlink (local_ops envs clt) p name target ino s = Some (s1, yfs_OK, j)
    \<and> lookup (local_ops envs clt) p name False 0 s1 = Some (s2, yfs_OK, True, j)
    \<and> yfs_readlink (local_ops envs clt) j l s2 = Some (s3, yfs_OK, target)
    \<and> sys_fs s3 = (sys_fs s)(p \<mapsto> (T_DIR, dir_string (es @ [(name, j)])), j \<mapsto> (T_SYMLINK, target))
    \<and> sys_inv s3 \<and> sys_held s3 = sys_held s"
proof -
  obtain s1 j where c: "createlink (local_ops envs clt) p name target ino s = Some (s1, yfs_OK, j)" "j < INODE_NUM" "j \<noteq> p"
    "sys_inv s1" "sys_held s1 = sys_held s" "dir_ok (es @ [(name, j)])"
    "sys_fs s1 = (sys_fs s)(p \<mapsto> (T_DIR, dir_string (es @ [(name, j)])), j \<mapsto> (T_SYMLINK, target))"
    using yfs.createlink_ok [OF assms(1-14), of envs clt ino] by blast
  have "sys_fs s1 p = Some (T_DIR, dir_string (es @ [(name, j)]))" using c(3,7) by simp
  from yfs.lookup_ok [OF c(4) p this c(6), of envs clt name False 0]
  obtain s2 where l: "lookup (local_ops envs clt) p name False 0 s1 = Some (s2, yfs_OK, True, j)" "sys_inv s2"
    "sys_fs s2 = sys_fs s1" "sys_held s2 = sys_held s1"
    using map_of_entry [OF new, of j "[]"] by (auto simp: lookup_def)
  have j2: "j < 2 ^ 31" "j \<notin> sys_held s2" "content (sys_fs s2 j) = target"
    using c(2,5,7) l(3,4) h(2) INODE_NUM_small by simp_all
  show ?thesis
    using c l yfs.readlink_ok [OF l(2) j2(1,2), of envs clt l] unfolding j2(3) by auto
qed

theorem symlink_roundtrip_witness:
  "\<exists>s1 s2 s3 j. createlink ops0 1 ''l'' ''/tmp;x'' 0 sys0 = Some (s1, yfs_OK, j)
     \<and> lookup ops0 1 ''l'' False 0 s1 = Some (s2, yfs_OK, True, j) \<and> yfs_readlink ops0 j [] s2 = Some (s3, yfs_OK, ''/tmp;x'')"
  using symlink_roundtrip [OF sys0_facts(1) sys0_room(4) _ dir_ok_Nil _ _ sys0_room(1-3), of "''l''" "''/tmp;x''" "\<lambda>_. env0" 0 0 "[]"]
  by (auto simp: sys0_facts ops0_def name_ok_def NDIRECT_def BLOCK_SIZE_def block_count_def)

end
