(* ===== verification/Namenode_Theorems.thy ===== *)
theory Namenode_Theorems
  imports Namenode Yfs_Theorems
begin

text \<open>
  The properties of the name node: resolving paths, renaming, making directories, and the data
  nodes it takes for alive. Those about files rest on the contract \<open>extent_store\<close> and hold for the
  instance \<open>local_nn_ops\<close> on the extent server and the lock server.
\<close>

section \<open>Renaming in the text of a directory\<close>

lemma find_str_semicolon:
  "CHR '';'' \<notin> set xs \<Longrightarrow> find_str '';'' (xs @ CHR '';'' # ys) = Some (length xs)"
  by (induction xs) (auto simp: find_str.simps [of "'';''"])

lemma find_str_no_semicolon: "CHR '';'' \<notin> set xs \<Longrightarrow> find_str '';'' xs = None"
  by (induction xs) (auto simp: find_str.simps [of "'';''"])

lemma filename_snoc: "0 < j \<Longrightarrow> d < 10 \<Longrightarrow> filename (10 * j + d) = filename j @ [digit_char d]"
  by (subst filename.simps) simp

lemma filename_last: "\<exists>ds. filename i = ds @ [digit_char (i mod 10)]"
  by (subst filename.simps) auto

lemma rename_cut_length: "rename_cut s n = Some t \<Longrightarrow> length t \<le> length s"
  unfolding rename_cut_def Let_def by (drule sym) (auto simp: erase_def split: if_splits)

text \<open>An entry in the middle of a directory, and an entry at its end.\<close>

lemma rename_cut_middle:
  assumes n: "CHR '';'' \<notin> set n" and p: "p \<noteq> []" and t: "t = p @ CHR '';'' # n @ CHR '';'' # filename i @ CHR '';'' # r"
    and first: "find_str n t = Some (Suc (length p))" and len: "length t < 2 ^ 32"
  shows "rename_cut t n = Some (p @ digit_char (i mod 10) # CHR '';'' # r)"
proof -
  let ?b = "Suc (length p)" and ?k = "length (filename i)"
  obtain ds where ds: "filename i = ds @ [digit_char (i mod 10)]" using filename_last by blast
  have len': "length t = ?b + length n + Suc ?k + Suc (length r)" by (simp add: t)
  have b: "u32_pos (find_from n t 0) = ?b" using first len by (simp add: find_from_def u32_pos_def len')
  have "drop ?b t = n @ CHR '';'' # filename i @ CHR '';'' # r" by (simp add: t)
  then have d1: "u32_pos (find_from '';'' t ?b) = ?b + length n"
    using find_str_semicolon [OF n] len by (simp add: find_from_def u32_pos_def len')
  have "drop (?b + length n + 1) t = filename i @ CHR '';'' # r" by (simp add: t)
  then have d2: "u32_pos (find_from '';'' t ((?b + length n + 1) mod 2 ^ 32)) = ?b + length n + 1 + ?k"
    using find_str_semicolon [OF filename_no_sep] len by (simp add: find_from_def u32_pos_def len')
  have "(?b + length n + 1 + ?k + 2 ^ 32 - ?b) mod 2 ^ 32 = (length n + 1 + ?k + 2 ^ 32) mod 2 ^ 32" by simp
  then have m: "(?b + length n + 1 + ?k + 2 ^ 32 - ?b) mod 2 ^ 32 = length n + 1 + ?k"
    using len unfolding mod_add_self2 by (simp add: len')
  have "rename_cut t n = erase t (length p) (length n + 1 + ?k)"
    unfolding rename_cut_def b d1 d2 m Let_def by simp
  also have "\<dots> = Some (p @ digit_char (i mod 10) # CHR '';'' # r)"
    by (simp add: erase_def t ds)
  finally show ?thesis .
qed

lemma rename_cut_last:
  assumes n: "CHR '';'' \<notin> set n" and t: "t = p @ n @ CHR '';'' # filename i"
    and p: "p = [] \<or> p = q @ '';''" and first: "find_str n t = Some (length p)" and len: "length t < 2 ^ 32 - 1"
  shows "rename_cut t n = Some (butlast p)"
proof -
  let ?b = "length p"
  have len': "length t = ?b + length n + Suc (length (filename i))" by (simp add: t)
  have b: "u32_pos (find_from n t 0) = ?b" using first len by (simp add: find_from_def u32_pos_def len')
  have "drop ?b t = n @ CHR '';'' # filename i" by (simp add: t)
  then have d1: "u32_pos (find_from '';'' t ?b) = ?b + length n"
    using find_str_semicolon [OF n] len by (simp add: find_from_def u32_pos_def len')
  have "drop (?b + length n + 1) t = filename i" by (simp add: t)
  then have d2: "u32_pos (find_from '';'' t ((?b + length n + 1) mod 2 ^ 32)) = 2 ^ 32 - 1"
    using find_str_no_semicolon [OF filename_no_sep] len by (simp add: find_from_def u32_pos_def len')
  have m: "(2 ^ 32 - 1 + 2 ^ 32 - ?b) mod 2 ^ 32 = 2 ^ 32 - 1 - ?b"
    using len by (simp add: len' mod_if)
  have "rename_cut t n = (if ?b \<noteq> 0 then erase t (?b - 1) (2 ^ 32 - 1 - ?b) else erase t ?b (2 ^ 32 - 1 - ?b))"
    unfolding rename_cut_def b d1 d2 m Let_def by simp
  also have "\<dots> = Some (butlast p)"
    using p len by (auto simp: erase_def t)
  finally show ?thesis .
qed

section \<open>Operations under the contract\<close>

lemma dir_ok_name: "dir_ok es \<Longrightarrow> map_of es n = Some i \<Longrightarrow> name_ok n"
  by (auto simp: dir_ok_def dest!: map_of_SomeD)

lemma first_entry_map_of: "first_entry n es = map_of es n"
  by (induction es) (auto simp: first_entry_def)

lemma blocks_of_mono: "m \<le> n \<Longrightarrow> blocks_of m \<le> blocks_of n"
  using block_count_mono [of m n] by (simp add: blocks_of_def)

lemma on_sys_Some: "f (nn_sys nn) = Some (s, r) \<Longrightarrow> on_sys f nn = Some (nn\<lparr>nn_sys := s\<rparr>, r)"
  by (simp add: on_sys_def)

context extent_store
begin

lemma nlock_readdir_ok:
  assumes inv: "inv s" and p: "p < 2 ^ 31" "fs s p = Some (T_DIR, dir_string es)" and ok: "dir_ok es"
  shows "\<exists>s'. nlock_readdir ops p l s = Some (s', yfs_OK, l @ es) \<and> inv s' \<and> fs s' = fs s \<and> free s' = free s \<and> held s' = held s"
proof -
  obtain s1 where s1: "nlock_isdir ops p s = Some (s1, True)" "inv s1" "fs s1 = fs s" "free s1 = free s" "held s1 = held s"
    using isdir_ok [OF inv p(1)] p(2) by auto
  obtain s2 where s2: "ec_get ops p [] s1 = Some (s2, ext_OK, dir_string es)" "inv s2" "fs s2 = fs s" "free s2 = free s" "held s2 = held s"
    using get_law [OF s1(2) p(1), of "[]"] s1(3-5) p(2) by auto
  show ?thesis
    using s1(1) s2 readdir_dir_string [OF ok, of l] by (simp add: nlock_readdir_def)
qed

text \<open>What \<open>Rename\<close> reads before it changes anything.\<close>

lemma rename_reads:
  assumes inv: "inv s" and p: "p < 2 ^ 31" "fs s p = Some (T_DIR, dir_string es)" and ok: "dir_ok es"
    and n: "map_of es n = Some i"
  obtains s1 s2 s3 where "nlock_lookup ops p (c_string n) False 0 s = Some (s1, yfs_OK, True, i)"
    "nlock_readdir ops p [] s1 = Some (s2, yfs_OK, es)" "ec_get ops p [] s2 = Some (s3, ext_OK, dir_string es)"
    "inv s3" "fs s3 = fs s" "free s3 = free s" "held s3 = held s"
proof -
  obtain s1 where s1: "nlock_lookup ops p (c_string n) False 0 s = Some (s1, yfs_OK, True, i)"
    "inv s1" "fs s1 = fs s" "free s1 = free s" "held s1 = held s"
    using lookup_ok [OF inv p ok, of n False 0] n c_string_name [OF dir_ok_name [OF ok n]] by auto
  have p1: "fs s1 p = Some (T_DIR, dir_string es)" using p(2) s1(3) by simp
  obtain s2 where s2: "nlock_readdir ops p [] s1 = Some (s2, yfs_OK, es)" "inv s2" "fs s2 = fs s" "free s2 = free s" "held s2 = held s"
    using nlock_readdir_ok [OF s1(2) p(1) p1 ok, of "[]"] s1(3-5) by auto
  obtain s3 where s3: "ec_get ops p [] s2 = Some (s3, ext_OK, dir_string es)" "inv s3" "fs s3 = fs s" "free s3 = free s" "held s3 = held s"
    using get_law [OF s2(2) p(1), of "[]"] s2(3-5) p(2) by auto
  show thesis by (rule that [OF s1(1) s2(1) s3])
qed

text \<open>
  \<open>Rename\<close>: whatever text \<open>t\<close> the surgery leaves goes to the source directory, and the entry under
  its new name to the end of the target directory.
\<close>

lemma Rename_ok:
  assumes nops: "nn_fs nops = ops" and inv: "inv (nn_sys nn)"
    and p: "p < 2 ^ 31" "fs (nn_sys nn) p = Some (T_DIR, dir_string es)" and ok: "dir_ok es"
    and n: "map_of es n = Some i" and cut: "rename_cut (dir_string es) n = Some t" "length t \<le> length (dir_string es)"
    and q: "q < 2 ^ 31" "fs (nn_sys nn) q = Some (T_DIR, d)" and d': "d' = add_entry (if p = q then t else d) m i"
    and fits: "length (dir_string es) \<le> NDIRECT * BLOCK_SIZE" "length d' \<le> NDIRECT * BLOCK_SIZE"
      "length m + length (filename i) + 2 \<le> BLOCK_SIZE" "1 \<le> free (nn_sys nn)"
  shows "\<exists>s'. Rename nops p n q m nn = Some (nn\<lparr>nn_sys := s'\<rparr>, True) \<and> inv s' \<and> held s' = held (nn_sys nn)
    \<and> fs s' = (fs (nn_sys nn))(p \<mapsto> (T_DIR, t), q \<mapsto> (T_DIR, d'))"
proof -
  let ?s = "nn_sys nn"
  obtain s1 s2 s3 where s: "nlock_lookup ops p (c_string n) False 0 ?s = Some (s1, yfs_OK, True, i)"
    "nlock_readdir ops p [] s1 = Some (s2, yfs_OK, es)" "ec_get ops p [] s2 = Some (s3, ext_OK, dir_string es)"
    "inv s3" "fs s3 = fs ?s" "free s3 = free ?s" "held s3 = held ?s"
    by (rule rename_reads [OF inv p ok n])
  have fit: "length t \<le> NDIRECT * BLOCK_SIZE" "block_count (length t) - block_count (length (dir_string es)) \<le> free s3"
    using fits(1) block_count_mono [OF cut(2)] cut(2) by simp_all
  have p3: "fs s3 p = Some (T_DIR, dir_string es)" using s(5) p(2) by simp
  obtain s4 where s4: "ec_put ops p t s3 = Some (s4, ext_OK)" "inv s4" "fs s4 = (fs ?s)(p \<mapsto> (T_DIR, t))"
    "free s4 + blocks_of (length t) = free ?s + blocks_of (length (dir_string es))" "held s4 = held ?s"
    using put_law [OF s(4) p(1) p3 fit] s(5-7) by auto
  define b where "b = (if p = q then t else d)"
  obtain s5 where s5: "(if p = q then Some (s4, ext_OK, t) else ec_get ops q [] s4) = Some (s5, ext_OK, b)"
    "inv s5" "fs s5 = fs s4" "free s5 = free s4" "held s5 = held s4"
    using get_law [OF s4(2) q(1), of "[]"] s4 q(2) unfolding b_def by (cases "p = q") auto
  have q5: "fs s5 q = Some (T_DIR, b)" using s5(3) s4(3) q(2) by (simp add: b_def)
  have "1 \<le> free s5" using s4(4) s5(4) fits(4) blocks_of_mono [OF cut(2)] by linarith
  moreover have "block_count (length d') - block_count (length b) \<le> 1"
    using block_count_grow [of "length d'" "length b"] length_add_entry [of b m i] fits(3) by (simp add: d' b_def)
  ultimately obtain s6 where s6: "ec_put ops q d' s5 = Some (s6, ext_OK)" "inv s6" "fs s6 = (fs s5)(q \<mapsto> (T_DIR, d'))" "held s6 = held s5"
    using put_law [OF s5(2) q(1) q5 fits(2)] by auto
  have "Rename nops p n q m nn = Some (nn\<lparr>nn_sys := s6\<rparr>, True)"
    using s(1-3) s4(1) s5(1) s6(1) cut(1) n
    by (cases "p = q") (auto simp: Rename_def nops on_sys_def first_entry_map_of b_def d')
  then show ?thesis using s6 s5(3,5) s4(3,5) by auto
qed

end

lemma local_nn_fs [simp]: "nn_fs (local_nn_ops envs clt a) = local_ops envs clt"
  by (simp add: local_nn_ops_def)

lemma dir_small: "n \<le> NDIRECT * BLOCK_SIZE \<Longrightarrow> n < 2 ^ 32 - 1"
  by (simp add: NDIRECT_def BLOCK_SIZE_def)

lemma entry_pos_last:
  "\<exists>x. dir_string (pre @ [(n, i)]) = x @ n @ CHR '';'' # filename i \<and> length x = entry_pos pre
     \<and> butlast x = dir_string pre \<and> (x = [] \<or> x = dir_string pre @ '';'')"
proof (cases "pre = []")
  case False
  then show ?thesis
    by (intro exI [of _ "dir_string pre @ '';''"]) (simp add: dir_string_append entry_pos_def)
qed (simp add: entry_pos_def)

lemma rename_cut_last_entry:
  assumes "dir_ok (pre @ [(n, i)])" and "find_str n (dir_string (pre @ [(n, i)])) = Some (entry_pos pre)"
    and "length (dir_string (pre @ [(n, i)])) \<le> NDIRECT * BLOCK_SIZE"
  shows "rename_cut (dir_string (pre @ [(n, i)])) n = Some (dir_string pre)"
proof -
  obtain x where x: "dir_string (pre @ [(n, i)]) = x @ n @ CHR '';'' # filename i" "length x = entry_pos pre"
    "butlast x = dir_string pre" "x = [] \<or> x = dir_string pre @ '';''"
    using entry_pos_last by blast
  have "CHR '';'' \<notin> set n" using assms(1) by (auto simp: dir_ok_def name_ok_def)
  from rename_cut_last [OF this x(1,4)] show ?thesis
    using assms(2,3) x(2,3) dir_small by simp
qed

lemma rename_cut_middle_entry:
  assumes "dir_ok (pre @ (k, j) # (n, i) # post)" and j: "0 < j" and post: "post \<noteq> []"
    and "find_str n (dir_string (pre @ (k, j) # (n, i) # post)) = Some (entry_pos (pre @ [(k, j)]))"
    and "length (dir_string (pre @ (k, j) # (n, i) # post)) \<le> NDIRECT * BLOCK_SIZE"
  shows "rename_cut (dir_string (pre @ (k, j) # (n, i) # post)) n = Some (dir_string (pre @ (k, 10 * j + i mod 10) # post))"
proof -
  let ?p = "dir_string (pre @ [(k, j)])"
  obtain e es where es: "post = e # es" using post by (cases post) simp_all
  have t: "dir_string (pre @ (k, j) # (n, i) # post) = ?p @ CHR '';'' # n @ CHR '';'' # filename i @ CHR '';'' # dir_string post"
    using dir_string_append [of "pre @ [(k, j)]" "(n, i) # post"] es by simp
  obtain x where x: "?p = x @ k @ CHR '';'' # filename j" "x = [] \<or> x = dir_string pre @ '';''" "length x = entry_pos pre"
    using entry_pos_last by blast
  obtain y where y: "dir_string (pre @ [(k, 10 * j + i mod 10)]) = y @ k @ CHR '';'' # filename (10 * j + i mod 10)"
    "y = [] \<or> y = dir_string pre @ '';''" "length y = entry_pos pre"
    using entry_pos_last by blast
  have "x = y" using x(2,3) y(2,3) by auto
  then have new: "?p @ digit_char (i mod 10) # CHR '';'' # dir_string post = dir_string (pre @ (k, 10 * j + i mod 10) # post)"
    using x(1) y(1) dir_string_append [of "pre @ [(k, 10 * j + i mod 10)]" post] post filename_snoc [OF j, of "i mod 10"] by simp
  have n: "CHR '';'' \<notin> set n" using assms(1) by (auto simp: dir_ok_def name_ok_def)
  have pos: "entry_pos (pre @ [(k, j)]) = Suc (length ?p)" by (simp add: entry_pos_def)
  show ?thesis
    using rename_cut_middle [OF n _ t] assms(4,5) dir_small [OF assms(5)] unfolding pos new by simp
qed

section \<open>Paths\<close>

text \<open>The pieces of a path between separators; its components are those that are not empty.\<close>

fun split_path :: "string \<Rightarrow> string list" where
  "split_path [] = [[]]"
| "split_path (c # cs) =
     (if c = CHR ''/'' then [] # split_path cs
      else case split_path cs of [] \<Rightarrow> [[c]] | p # ps \<Rightarrow> (c # p) # ps)"

definition components :: "string \<Rightarrow> string list" where
  "components path = filter (\<lambda>p. p \<noteq> []) (split_path path)"

fun fold_step :: "(string \<Rightarrow> 'a \<Rightarrow> ('a + 'e) option) \<Rightarrow> string list \<Rightarrow> 'a \<Rightarrow> ('a + 'e) option" where
  "fold_step step [] x = Some (Inl x)"
| "fold_step step (c # cs) x =
     (case step c x of None \<Rightarrow> None | Some (Inr e) \<Rightarrow> Some (Inr e) | Some (Inl x) \<Rightarrow> fold_step step cs x)"

lemma fold_step_append:
  "fold_step step (cs @ ds) x =
     (case fold_step step cs x of None \<Rightarrow> None | Some (Inr e) \<Rightarrow> Some (Inr e) | Some (Inl x) \<Rightarrow> fold_step step ds x)"
  by (induction cs arbitrary: x) (auto split: option.splits sum.splits)

lemma split_path_not_Nil [simp]: "split_path r \<noteq> []"
  by (cases r) (auto split: list.splits)

lemma split_path_find:
  "split_path r = (case find_str ''/'' r of None \<Rightarrow> [r] | Some k \<Rightarrow> take k r # split_path (drop (Suc k) r))"
  by (induction r) (auto simp: find_str.simps [of "''/''"] split: option.splits)

lemma split_path_last: "\<exists>r'. r = r' @ last (split_path r)"
proof (induction r)
  case (Cons c r)
  then obtain r' where r': "r = r' @ last (split_path r)" by blast
  show ?case
  proof (cases "c = CHR ''/'' \<or> tl (split_path r) \<noteq> []")
    case True
    then have "last (split_path (c # r)) = last (split_path r)"
      by (cases "split_path r") auto
    then show ?thesis using r' by (intro exI [of _ "c # r'"]) simp
  next
    case False
    then have "last (split_path (c # r)) = c # last (split_path r)"
      by (cases "split_path r") auto
    moreover have "split_path r = [last (split_path r)]" using False by (cases "split_path r") auto
    moreover have "split_path r = [x] \<Longrightarrow> r = x" for x
      using split_path_find [of r] by (auto split: option.splits)
    ultimately show ?thesis by (intro exI [of _ "[]"]) auto
  qed
qed simp

lemma path_loop_split:
  "p \<le> length path \<Longrightarrow>
     path_loop path step p p x =
       (case fold_step step (filter (\<lambda>c. c \<noteq> []) (butlast (split_path (drop p path)))) x of
          None \<Rightarrow> None | Some (Inr e) \<Rightarrow> Some (Inr e)
        | Some (Inl x) \<Rightarrow> Some (Inl (x, length path - length (last (split_path (drop p path))))))"
proof (induction "length path - p" arbitrary: p x rule: less_induct)
  case less
  show ?case
  proof (cases "find_slash path p")
    case None
    then have "split_path (drop p path) = [drop p path]"
      using split_path_find [of "drop p path"] less.prems by (auto simp: find_slash_def find_from_def split: option.splits)
    then show ?thesis using None less.prems by (simp add: path_loop.simps [of path step p])
  next
    case (Some k)
    have k: "p \<le> k" "k < length path" using find_slash_bounds [OF Some] by auto
    have "find_str ''/'' (drop p path) = Some (k - p)"
      using Some k(1) less.prems by (auto simp: find_slash_def find_from_def)
    then have s: "split_path (drop p path) = take (k - p) (drop p path) # split_path (drop (Suc k) path)"
      using split_path_find [of "drop p path"] k(1) by simp
    have IH: "path_loop path step (Suc k) (Suc k) y =
       (case fold_step step (filter (\<lambda>c. c \<noteq> []) (butlast (split_path (drop (Suc k) path)))) y of
          None \<Rightarrow> None | Some (Inr e) \<Rightarrow> Some (Inr e)
        | Some (Inl x) \<Rightarrow> Some (Inl (x, length path - length (last (split_path (drop (Suc k) path))))))" for y
      using less.hyps [of "Suc k" y] k by simp
    have step: "path_loop path step p p x = (if k \<noteq> p
        then (case step (take (k - p) (drop p path)) x of None \<Rightarrow> None | Some (Inr e) \<Rightarrow> Some (Inr e)
              | Some (Inl x) \<Rightarrow> path_loop path step (Suc k) (Suc k) x)
        else path_loop path step (Suc k) (Suc k) x)"
      by (subst path_loop.simps) (simp add: Some split: option.split sum.split)
    show ?thesis
    proof (cases "k = p")
      case True
      then show ?thesis using IH [of x] by (simp add: step s split: option.split sum.split)
    next
      case False
      then have "take (k - p) (drop p path) \<noteq> []" using k by simp
      then show ?thesis using False unfolding step s IH by (auto split: option.splits sum.splits)
    qed
  qed
qed

definition path_dirs :: "string \<Rightarrow> string list" where
  "path_dirs r = filter (\<lambda>c. c \<noteq> []) (butlast (split_path r))"

lemma drop_one_Cons: "drop 1 (c # r) = r"
  by simp

text \<open>\<open>RecursiveLookup\<close> looks up the components of the path one after the other.\<close>

lemma RecursiveLookup_components:
  assumes "path = CHR ''/'' # r"
  shows "RecursiveLookup nops path ino prev nn =
    (case fold_step (lookup_step nops) (components r) (nn, 1, 1, False) of None \<Rightarrow> None
     | Some (Inr (nn, ino, prev)) \<Rightarrow> Some (nn, False, ino, prev)
     | Some (Inl (nn, ino, prev, _)) \<Rightarrow> Some (nn, True, ino, prev))"
proof -
  let ?l = "last (split_path r)" and ?d = "filter (\<lambda>c. c \<noteq> []) (butlast (split_path r))"
  obtain r' where r': "r = r' @ ?l" using split_path_last by blast
  have "split_path r = butlast (split_path r) @ [?l]" by simp
  then have c: "components r = ?d @ filter (\<lambda>c. c \<noteq> []) [?l]" unfolding components_def by (metis filter_append)
  have pos: "length path - length ?l \<noteq> length path \<longleftrightarrow> ?l \<noteq> []" using assms by (cases "?l") auto
  have "length path - length ?l = Suc (length r')" using r' assms by (metis add_diff_cancel_right' length_Cons length_append Suc_diff_le le_add2)
  then have d: "drop (length path - length ?l) path = ?l" using r' assms by (metis append_eq_conv_conj drop_Suc_Cons)
  have "path_loop path (lookup_step nops) 1 1 (nn, 1, 1, False) =
       (case fold_step (lookup_step nops) ?d (nn, 1, 1, False) of
          None \<Rightarrow> None | Some (Inr e) \<Rightarrow> Some (Inr e) | Some (Inl x) \<Rightarrow> Some (Inl (x, length path - length ?l)))"
    using path_loop_split [of 1 path "lookup_step nops" "(nn, 1, 1, False)"] unfolding assms drop_one_Cons by simp
  then show ?thesis
    using assms pos d unfolding RecursiveLookup_def c fold_step_append
    by (cases "?l = []") (auto simp: ch_at_def bind_eq_None_conv split: option.splits sum.splits prod.splits)
qed

text \<open>Following names from a directory to the next, in the files themselves.\<close>

fun walk :: "(nat \<Rightarrow> (nat \<times> string) option) \<Rightarrow> nat \<Rightarrow> string list \<Rightarrow> nat option" where
  "walk f i [] = Some i"
| "walk f i (c # cs) =
     (if ftype (f i) \<noteq> T_DIR then None
      else case lookup_scan (content (f i)) c 0 FILENAME [] [] of
        Some (Some j) \<Rightarrow> walk f j cs | _ \<Rightarrow> None)"

lemma walk_append: "walk f i (cs @ ds) = (case walk f i cs of None \<Rightarrow> None | Some j \<Rightarrow> walk f j ds)"
  by (induction cs arbitrary: i) (auto split: option.splits)

lemma walk_butlast: "walk f i cs = Some j \<Longrightarrow> cs \<noteq> [] \<Longrightarrow> \<exists>d. walk f i (butlast cs) = Some d"
  using walk_append [of f i "butlast cs" "[last cs]"] by (auto split: option.splits)

text \<open>All directories are well-formed, and their entries have inode numbers that fit.\<close>

definition dirs_ok :: "(nat \<Rightarrow> (nat \<times> string) option) \<Rightarrow> bool" where
  "dirs_ok f \<longleftrightarrow> (\<forall>i d. f i = Some (T_DIR, d) \<longrightarrow>
     (\<exists>es. d = dir_string es \<and> dir_ok es \<and> (\<forall>(n, j) \<in> set es. j < 2 ^ 31)))"

lemma dirs_okD:
  assumes "dirs_ok f" and "ftype (f i) = T_DIR"
  obtains es where "f i = Some (T_DIR, dir_string es)" "dir_ok es" "\<forall>n j. map_of es n = Some j \<longrightarrow> j < 2 ^ 31"
proof -
  obtain d where d: "f i = Some (T_DIR, d)" using assms(2) by (cases "f i") (auto simp: T_DIR_def)
  then obtain es where es: "d = dir_string es" "dir_ok es" "\<forall>(n, j) \<in> set es. j < 2 ^ 31"
    using assms(1) unfolding dirs_ok_def by blast
  show thesis by (rule that [of es]) (use d es in \<open>auto dest!: map_of_SomeD\<close>)
qed

lemma nn_upd:
  "nn_sys (nn\<lparr>nn_sys := s\<rparr>) = s" "nn\<lparr>nn_sys := s, nn_sys := s'\<rparr> = nn\<lparr>nn_sys := s'\<rparr>"
  by simp_all

context extent_store
begin

lemma lookup_step_ok:
  assumes nops: "nn_fs nops = ops" and inv: "inv (nn_sys nn)" and i: "i < 2 ^ 31"
    and ok: "dirs_ok (fs (nn_sys nn))" and c: "c_string c = c"
  shows "\<exists>s' ino. lookup_step nops c (nn, i, prev, found) =
      Some (case walk (fs (nn_sys nn)) i [c] of
              None \<Rightarrow> Inr (nn\<lparr>nn_sys := s'\<rparr>, ino, i) | Some j \<Rightarrow> Inl (nn\<lparr>nn_sys := s'\<rparr>, j, i, True))
    \<and> inv s' \<and> fs s' = fs (nn_sys nn) \<and> free s' = free (nn_sys nn) \<and> held s' = held (nn_sys nn)"
proof (cases "ftype (fs (nn_sys nn) i) = T_DIR")
  case True
  then obtain es where es: "fs (nn_sys nn) i = Some (T_DIR, dir_string es)" "dir_ok es"
    by (rule dirs_okD [OF ok])
  then show ?thesis
    using lookup_ok [OF inv i es, of c found i] lookup_dir_string [OF es(2), of c]
    by (auto simp: lookup_step_def lookup_def nops on_sys_def c split: option.splits)
next
  case False
  then show ?thesis
    using lookup_not_dir [OF inv i False, of c found i]
    by (auto simp: lookup_step_def lookup_def nops on_sys_def c)
qed

lemma walk_small:
  "dirs_ok f \<Longrightarrow> i < 2 ^ 31 \<Longrightarrow> walk f i cs = Some j \<Longrightarrow> j < 2 ^ 31"
proof (induction cs arbitrary: i)
  case (Cons c cs)
  then have "ftype (f i) = T_DIR" by (auto split: if_splits)
  then obtain es where es: "f i = Some (T_DIR, dir_string es)" "dir_ok es" "\<forall>n j. map_of es n = Some j \<longrightarrow> j < 2 ^ 31"
    by (rule dirs_okD [OF Cons.prems(1)])
  then show ?case using Cons lookup_dir_string [OF es(2), of c] by (auto split: option.splits)
qed simp

lemma lookup_walk:
  assumes nops: "nn_fs nops = ops"
  shows "inv (nn_sys nn) \<Longrightarrow> i < 2 ^ 31 \<Longrightarrow> dirs_ok (fs (nn_sys nn)) \<Longrightarrow> \<forall>c \<in> set cs. c_string c = c \<Longrightarrow>
    \<exists>s' ino d b. fold_step (lookup_step nops) cs (nn, i, prev, found) =
      Some (case walk (fs (nn_sys nn)) i cs of
              None \<Rightarrow> Inr (nn\<lparr>nn_sys := s'\<rparr>, ino, d)
            | Some j \<Rightarrow> Inl (nn\<lparr>nn_sys := s'\<rparr>, j, if cs = [] then prev else the (walk (fs (nn_sys nn)) i (butlast cs)), b))
    \<and> inv s' \<and> fs s' = fs (nn_sys nn) \<and> free s' = free (nn_sys nn) \<and> held s' = held (nn_sys nn)"
proof (induction cs arbitrary: nn i prev found)
  case Nil
  then show ?case by (intro exI [of _ "nn_sys nn"]) simp
next
  case (Cons c cs)
  have c: "c_string c = c" using Cons.prems(4) by simp
  obtain s1 ino where s1: "lookup_step nops c (nn, i, prev, found) =
      Some (case walk (fs (nn_sys nn)) i [c] of
              None \<Rightarrow> Inr (nn\<lparr>nn_sys := s1\<rparr>, ino, i) | Some j \<Rightarrow> Inl (nn\<lparr>nn_sys := s1\<rparr>, j, i, True))"
    "inv s1" "fs s1 = fs (nn_sys nn)" "free s1 = free (nn_sys nn)" "held s1 = held (nn_sys nn)"
    using lookup_step_ok [OF nops Cons.prems(1-3) c, of prev found] by blast
  have w: "walk f i (c # ds) = (case walk f i [c] of None \<Rightarrow> None | Some j \<Rightarrow> walk f j ds)" for f ds
    by (auto split: option.splits)
  show ?case
  proof (cases "walk (fs (nn_sys nn)) i [c]")
    case None
    then show ?thesis using s1 w [of _ cs] by (auto simp del: walk.simps)
  next
    case (Some j)
    have j: "j < 2 ^ 31" by (rule walk_small [OF Cons.prems(3,2) Some])
    have "\<exists>s' ino d b. fold_step (lookup_step nops) cs (nn\<lparr>nn_sys := s1\<rparr>, j, i, True) =
      Some (case walk (fs (nn_sys nn)) j cs of
              None \<Rightarrow> Inr (nn\<lparr>nn_sys := s'\<rparr>, ino, d)
            | Some k \<Rightarrow> Inl (nn\<lparr>nn_sys := s'\<rparr>, k, if cs = [] then i else the (walk (fs (nn_sys nn)) j (butlast cs)), b))
      \<and> inv s' \<and> fs s' = fs (nn_sys nn) \<and> free s' = free (nn_sys nn) \<and> held s' = held (nn_sys nn)"
      by (rule Cons.IH [of "nn\<lparr>nn_sys := s1\<rparr>" j i True, unfolded nn_upd s1(3-5), OF s1(2) j Cons.prems(3)])
        (use Cons.prems(4) in simp)
    moreover have "fold_step (lookup_step nops) (c # cs) (nn, i, prev, found) =
        fold_step (lookup_step nops) cs (nn\<lparr>nn_sys := s1\<rparr>, j, i, True)"
      using s1(1) Some by (simp del: walk.simps(2))
    moreover have "walk (fs (nn_sys nn)) i (c # cs) = walk (fs (nn_sys nn)) j cs"
      using Some w [of "fs (nn_sys nn)" cs] by (simp del: walk.simps(2))
    moreover have "(if c # cs = [] then prev else the (walk (fs (nn_sys nn)) i (butlast (c # cs)))) =
        (if cs = [] then i else the (walk (fs (nn_sys nn)) j (butlast cs)))"
      using Some w [of "fs (nn_sys nn)" "butlast cs"] by (cases "cs = []") (simp_all del: walk.simps(2))
    ultimately show ?thesis by (simp only:)
  qed
qed

end

section \<open>Data nodes\<close>

lemma map_set_in:
  "sorted_wrt (<) (map fst m) \<Longrightarrow> (i, v) \<in> set (map_set i b m) \<longleftrightarrow> v = b"
proof (induction m)
  case (Cons e m)
  obtain k x where e: "e = (k, x)" by (cases e)
  have "(i, v) \<notin> set m" if "i \<le> k" for v using Cons.prems that by (force simp: e)
  then show ?case using Cons by (auto simp: e)
qed auto

lemma live_iff:
  assumes "c + k < 2 ^ 31"
  shows "live (c + k) (int c) \<longleftrightarrow> k \<le> 3 \<and> 3 \<le> c + k"
proof (cases "3 \<le> c + k")
  case True
  then have "(int (c + k) - 3) mod 2 ^ 64 = int (c + k) - 3" using assms by (intro mod_pos_pos_trivial) simp_all
  moreover have "int c mod 2 ^ 64 = int c" using assms by (intro mod_pos_pos_trivial) simp_all
  ultimately show ?thesis using True by (simp add: live_def)
next
  case False
  then have "(int (c + k) - 3 + 2 ^ 64) mod 2 ^ 64 = int (c + k) - 3 + 2 ^ 64" by (intro mod_pos_pos_trivial) simp_all
  then have "(int (c + k) - 3) mod 2 ^ 64 = int (c + k) - 3 + 2 ^ 64" by (simp only: mod_add_self2)
  moreover have "int c mod 2 ^ 64 = int c" using assms by (intro mod_pos_pos_trivial) simp_all
  ultimately show ?thesis using False by (simp add: live_def)
qed

section \<open>Sample states\<close>

text \<open>A system whose root directory has the given text, and a name node on it.\<close>

lemma sample_dir:
  assumes "length c \<le> BLOCK_SIZE"
  obtains s where "sys_inv s" "sys_held s = {}" "sys_fs s = [1 \<mapsto> (T_DIR, c)]" "1 \<le> sys_free s"
proof -
  obtain im where im: "fs_inv im" "ext_fs im = [1 \<mapsto> (T_DIR, c)]" "1020 \<le> room im + 1"
    by (rule sample_put [OF im0_facts(2) _ _ assms, of 1 T_DIR]) (auto simp: ext_fs_im0 room_def)
  then show thesis
    using that [of "\<lparr>ext = \<lparr>x_im = im, x_calls = 0\<rparr>, lks = \<lparr>l_srv = new_lock_server, l_calls = 0\<rparr>\<rparr>"]
      sys0_facts(3) by (simp add: sys_defs sys0_def)
qed

definition nn_on :: "yfs_sys \<Rightarrow> yfs_sys name_node" where
  "nn_on s = \<lparr>nn_sys = s, master_datanode = DatanodeID [] [] 0, pendingWrite = Map.empty, HDFS_block = [],
     datanode = [], heartbeat_count = 0, registering = [], transfers = []\<rparr>"

definition nn_ops0 :: "yfs_sys nn_ops" where
  "nn_ops0 = local_nn_ops (\<lambda>_. env0) 0 attr0"

abbreviation xyz :: "(string \<times> nat) list" where
  "xyz \<equiv> [(''x'', 2), (''y'', 3), (''z'', 4)]"

lemma sample_xyz:
  "length (dir_string xyz) = 11" "length (dir_string [(''x'', 2), (''y'', 3), (''w'', 4)]) = 11"
  "find_str ''z'' (dir_string xyz) = Some (entry_pos [(''x'', 2), (''y'', 3)])"
  "find_str ''y'' (dir_string xyz) = Some (entry_pos [(''x'', 2)])"
  "length (dir_string [(''x'', 23), (''z'', 4), (''w'', 3)]) = 12"
  "length (filename 4) = 1" "length (filename 3) = 1"
  by code_simp+

lemma sample_ok: "dir_ok xyz"
  by (simp add: dir_ok_def name_ok_def)

lemma sample_fits:
  "length (dir_string xyz) \<le> BLOCK_SIZE" "length (dir_string xyz) \<le> NDIRECT * BLOCK_SIZE"
  "length (dir_string ([(''x'', 2), (''y'', 3)] @ [(''w'', 4)])) \<le> NDIRECT * BLOCK_SIZE"
  "length (dir_string ((''x'', 23) # [(''z'', 4)] @ [(''w'', 3)])) \<le> NDIRECT * BLOCK_SIZE"
  "length ''w'' + length (filename 4) + 2 \<le> BLOCK_SIZE" "length ''w'' + length (filename 3) + 2 \<le> BLOCK_SIZE"
  unfolding append_Cons append_Nil sample_xyz by (simp_all add: NDIRECT_def BLOCK_SIZE_def)

section \<open>Properties\<close>

text \<open>
  C16. \<open>RecursiveLookup\<close> resolves an absolute path: it succeeds if and only if the components of the
  path, empty ones left out, lead from the root directory from entry to entry, and then gives the
  inode number they lead to, and that of the directory before it. No file and no lock changes.
\<close>

theorem recursive_lookup_walks:
  assumes "sys_inv (nn_sys nn)" and "dirs_ok (sys_fs (nn_sys nn))" and "\<forall>c \<in> set (components r). c_string c = c"
  shows "\<exists>s' ok i d. RecursiveLookup (local_nn_ops envs clt a) (CHR ''/'' # r) ino prev nn = Some (nn\<lparr>nn_sys := s'\<rparr>, ok, i, d)
    \<and> sys_inv s' \<and> sys_fs s' = sys_fs (nn_sys nn) \<and> sys_held s' = sys_held (nn_sys nn)
    \<and> (case walk (sys_fs (nn_sys nn)) 1 (components r) of None \<Rightarrow> \<not> ok
       | Some j \<Rightarrow> ok \<and> i = j \<and> (components r \<noteq> [] \<longrightarrow> walk (sys_fs (nn_sys nn)) 1 (butlast (components r)) = Some d))"
proof -
  let ?cs = "components r" and ?f = "sys_fs (nn_sys nn)" and ?nops = "local_nn_ops envs clt a"
  have one: "(1 :: nat) < 2 ^ 31" by simp
  obtain s' i d b where s': "fold_step (lookup_step ?nops) ?cs (nn, 1, 1, False) =
      Some (case walk ?f 1 ?cs of None \<Rightarrow> Inr (nn\<lparr>nn_sys := s'\<rparr>, i, d)
            | Some j \<Rightarrow> Inl (nn\<lparr>nn_sys := s'\<rparr>, j, if ?cs = [] then 1 else the (walk ?f 1 (butlast ?cs)), b))"
    "sys_inv s'" "sys_fs s' = ?f" "sys_held s' = sys_held (nn_sys nn)"
    using yfs.lookup_walk [OF local_nn_fs assms(1) one assms(2,3), where prev = 1 and found = False] by blast
  note R = RecursiveLookup_components [OF refl, of ?nops r ino prev nn, unfolded s'(1)]
  show ?thesis
  proof (cases "walk ?f 1 ?cs")
    case None
    then have "RecursiveLookup ?nops (CHR ''/'' # r) ino prev nn = Some (nn\<lparr>nn_sys := s'\<rparr>, False, i, d)"
      using R by simp
    then show ?thesis using s'(2-4) None by auto
  next
    case (Some j)
    then have "?cs \<noteq> [] \<Longrightarrow> \<exists>d. walk ?f 1 (butlast ?cs) = Some d"
      using walk_butlast by blast
    then show ?thesis using R s'(2-4) Some by auto
  qed
qed

theorem recursive_lookup_walks_witness:
  "\<exists>s s'. sys_fs s 1 = Some (T_DIR, ''x;2;y;3;z;4'')
     \<and> RecursiveLookup nn_ops0 ''//y'' 0 0 (nn_on s) = Some (nn_on s', True, 3, 1)"
proof -
  obtain s where s: "sys_inv s" "sys_held s = {}" "sys_fs s = [1 \<mapsto> (T_DIR, dir_string xyz)]" "1 \<le> sys_free s"
    by (rule sample_dir [OF sample_fits(1)])
  have d: "sys_fs s 1 = Some (T_DIR, dir_string xyz)" by (simp only: s(3)) simp
  have ok: "dirs_ok (sys_fs s)"
    unfolding dirs_ok_def s(3) by (auto intro!: exI [of _ xyz] simp: sample_ok simp del: dir_string.simps split: if_splits)
  have c: "components ''/y'' = [''y'']" "c_string ''y'' = ''y''" by code_simp+
  have w: "walk (sys_fs s) 1 [''y''] = Some 3" "walk (sys_fs s) 1 [] = Some 1"
    using d lookup_dir_string [OF sample_ok, of "''y''"] by (simp_all del: dir_string.simps)
  have "\<exists>s'. RecursiveLookup nn_ops0 ''//y'' 0 0 (nn_on s) = Some (nn_on s', True, 3, 1)"
    using recursive_lookup_walks [of "nn_on s" "''/y''" "\<lambda>_. env0" 0 attr0 0 0] s(1) ok c w
    by (auto simp: nn_on_def nn_ops0_def simp del: walk.simps)
  moreover have "dir_string xyz = ''x;2;y;3;z;4''" by code_simp
  ultimately show ?thesis using d by metis
qed

text \<open>
  C29. \<open>Rename\<close> of the last entry of a directory moves it: the source directory loses the entry, the
  target directory, which may be the same, gets it under the new name at its end, and no other
  file changes; provided the old name occurs first at its own entry in the text of the directory.
\<close>

theorem rename_last_entry:
  assumes "sys_inv (nn_sys nn)" and "p < 2 ^ 31" and "sys_fs (nn_sys nn) p = Some (T_DIR, dir_string (pre @ [(n, i)]))"
    and "dir_ok (pre @ [(n, i)])" and "map_of pre n = None"
    and "find_str n (dir_string (pre @ [(n, i)])) = Some (entry_pos pre)"
    and "q < 2 ^ 31" and "sys_fs (nn_sys nn) q = Some (T_DIR, dir_string qs)"
    and "length (dir_string (pre @ [(n, i)])) \<le> NDIRECT * BLOCK_SIZE"
    and "length (dir_string ((if p = q then pre else qs) @ [(m, i)])) \<le> NDIRECT * BLOCK_SIZE"
    and "length m + length (filename i) + 2 \<le> BLOCK_SIZE" and "1 \<le> sys_free (nn_sys nn)"
  shows "\<exists>s'. Rename (local_nn_ops envs clt a) p n q m nn = Some (nn\<lparr>nn_sys := s'\<rparr>, True) \<and> sys_inv s'
    \<and> sys_held s' = sys_held (nn_sys nn)
    \<and> sys_fs s' = (sys_fs (nn_sys nn))(p \<mapsto> (T_DIR, dir_string pre),
                                         q \<mapsto> (T_DIR, dir_string ((if p = q then pre else qs) @ [(m, i)])))"
proof -
  have d': "dir_string ((if p = q then pre else qs) @ [(m, i)]) = add_entry (if p = q then dir_string pre else dir_string qs) m i"
    by (simp add: add_entry_dir_string)
  have len: "length (dir_string pre) \<le> length (dir_string (pre @ [(n, i)]))"
    using length_dir_string_remove [of pre "[]"] by simp
  show ?thesis
    by (rule yfs.Rename_ok [OF local_nn_fs assms(1-4) map_of_entry [OF assms(5), of i "[]"]
          rename_cut_last_entry [OF assms(4,6,9)] len assms(7,8) d' assms(9-12)])
qed

theorem rename_last_entry_witness:
  "\<exists>s s'. sys_fs s 1 = Some (T_DIR, ''x;2;y;3;z;4'')
     \<and> Rename nn_ops0 1 ''z'' 1 ''w'' (nn_on s) = Some (nn_on s', True) \<and> sys_fs s' 1 = Some (T_DIR, ''x;2;y;3;w;4'')"
proof -
  obtain s where s: "sys_inv s" "sys_held s = {}" "sys_fs s = [1 \<mapsto> (T_DIR, dir_string xyz)]" "1 \<le> sys_free s"
    by (rule sample_dir [OF sample_fits(1)])
  have d: "sys_fs s 1 = Some (T_DIR, dir_string xyz)" by (simp only: s(3)) simp
  note r = rename_last_entry [of "nn_on s" 1 "[(''x'', 2), (''y'', 3)]" "''z''" 4 1 xyz "''w''" "\<lambda>_. env0" 0 attr0]
  have "\<exists>s'. Rename nn_ops0 1 ''z'' 1 ''w'' (nn_on s) = Some (nn_on s', True)
    \<and> sys_fs s' 1 = Some (T_DIR, dir_string [(''x'', 2), (''y'', 3), (''w'', 4)])"
    using r s(1,4) d sample_xyz(3) sample_ok sample_fits(2,3,5)
    by (auto simp: nn_on_def nn_ops0_def simp del: dir_string.simps)
  moreover have "dir_string xyz = ''x;2;y;3;z;4''" "dir_string [(''x'', 2), (''y'', 3), (''w'', 4)] = ''x;2;y;3;w;4''"
    by code_simp+
  ultimately show ?thesis using d by metis
qed

text \<open>
  C37. \<open>Rename\<close> of an entry between two others damages the directory: the last digit of its inode
  number stays behind and is appended to the inode number of the entry before it, which from then
  on names another file. \<open>Rename\<close> reports success.
\<close>

theorem rename_corrupts_neighbour:
  assumes "sys_inv (nn_sys nn)" and "p < 2 ^ 31"
    and "sys_fs (nn_sys nn) p = Some (T_DIR, dir_string (pre @ (k, j) # (n, i) # post))"
    and "dir_ok (pre @ (k, j) # (n, i) # post)" and "map_of (pre @ [(k, j)]) n = None" and "0 < j" and "post \<noteq> []"
    and "find_str n (dir_string (pre @ (k, j) # (n, i) # post)) = Some (entry_pos (pre @ [(k, j)]))"
    and "q < 2 ^ 31" and "sys_fs (nn_sys nn) q = Some (T_DIR, dir_string qs)"
    and "length (dir_string (pre @ (k, j) # (n, i) # post)) \<le> NDIRECT * BLOCK_SIZE"
    and "length (dir_string ((if p = q then pre @ (k, 10 * j + i mod 10) # post else qs) @ [(m, i)])) \<le> NDIRECT * BLOCK_SIZE"
    and "length m + length (filename i) + 2 \<le> BLOCK_SIZE" and "1 \<le> sys_free (nn_sys nn)"
  shows "\<exists>s'. Rename (local_nn_ops envs clt a) p n q m nn = Some (nn\<lparr>nn_sys := s'\<rparr>, True)
    \<and> sys_fs s' = (sys_fs (nn_sys nn))(p \<mapsto> (T_DIR, dir_string (pre @ (k, 10 * j + i mod 10) # post)),
         q \<mapsto> (T_DIR, dir_string ((if p = q then pre @ (k, 10 * j + i mod 10) # post else qs) @ [(m, i)])))"
proof -
  let ?t = "pre @ (k, 10 * j + i mod 10) # post"
  have d': "dir_string ((if p = q then ?t else qs) @ [(m, i)]) = add_entry (if p = q then dir_string ?t else dir_string qs) m i"
    using add_entry_dir_string [of ?t] add_entry_dir_string [of qs] by simp
  have e: "pre @ (k, j) # (n, i) # post = (pre @ [(k, j)]) @ (n, i) # post" by simp
  have len: "length (dir_string ?t) \<le> length (dir_string (pre @ (k, j) # (n, i) # post))"
    by (rule rename_cut_length [OF rename_cut_middle_entry [OF assms(4,6,7,8,11)]])
  have n: "map_of (pre @ (k, j) # (n, i) # post) n = Some i" unfolding e by (rule map_of_entry [OF assms(5)])
  show ?thesis
    using yfs.Rename_ok [OF local_nn_fs assms(1-4) n rename_cut_middle_entry [OF assms(4,6,7,8,11)] len assms(9,10) d' assms(11-14)]
    by blast
qed

theorem rename_corrupts_neighbour_witness:
  "\<exists>s s'. sys_fs s 1 = Some (T_DIR, ''x;2;y;3;z;4'')
     \<and> Rename nn_ops0 1 ''y'' 1 ''w'' (nn_on s) = Some (nn_on s', True) \<and> sys_fs s' 1 = Some (T_DIR, ''x;23;z;4;w;3'')"
proof -
  obtain s where s: "sys_inv s" "sys_held s = {}" "sys_fs s = [1 \<mapsto> (T_DIR, dir_string xyz)]" "1 \<le> sys_free s"
    by (rule sample_dir [OF sample_fits(1)])
  have d: "sys_fs s 1 = Some (T_DIR, dir_string xyz)" by (simp only: s(3)) simp
  note r = rename_corrupts_neighbour [of "nn_on s" 1 "[]" "''x''" 2 "''y''" 3 "[(''z'', 4)]" 1 xyz "''w''" "\<lambda>_. env0" 0 attr0]
  have "\<exists>s'. Rename nn_ops0 1 ''y'' 1 ''w'' (nn_on s) = Some (nn_on s', True)
    \<and> sys_fs s' 1 = Some (T_DIR, dir_string [(''x'', 23), (''z'', 4), (''w'', 3)])"
    using r s(1,4) d sample_xyz(4) sample_ok sample_fits(2,4,6)
    by (auto simp: nn_on_def nn_ops0_def simp del: dir_string.simps)
  moreover have "dir_string xyz = ''x;2;y;3;z;4''" "dir_string [(''x'', 23), (''z'', 4), (''w'', 3)] = ''x;23;z;4;w;3''"
    by code_simp+
  ultimately show ?thesis using d by metis
qed

text \<open>
  Missing parent directories are never made, although \<open>createparent\<close> asks for it: \<open>lookup\<close> answers
  \<open>NOENT\<close> for a name that is not in the directory, which \<open>PBMkdirs\<close> and \<open>PBCreate\<close> take for a failure
  before they look at \<open>found\<close>. For a path whose first directory is not in the root directory both throw
  \<open>Traverse failed\<close> and change no file.
\<close>

lemma createparent_ignored:
  assumes "sys_inv (nn_sys nn)" and "sys_fs (nn_sys nn) 1 = Some (T_DIR, dir_string es)" and "dir_ok es"
    and "path_dirs r = c # cs" and "c_string c = c" and "map_of es c = None"
  shows "\<exists>s'. PBMkdirs (local_nn_ops envs clt a) (CHR ''/'' # r) True nn = Some (nn\<lparr>nn_sys := s'\<rparr>, Throw ''Traverse failed'')
    \<and> PBCreate (local_nn_ops envs clt a) (CHR ''/'' # r) True nn = Some (nn\<lparr>nn_sys := s'\<rparr>, Throw ''Traverse failed'')
    \<and> sys_fs s' = sys_fs (nn_sys nn)"
proof -
  let ?nops = "local_nn_ops envs clt a"
  have one: "(1 :: nat) < 2 ^ 31" by simp
  obtain s' where s': "nlock_lookup (local_ops envs clt) 1 c False 1 (nn_sys nn) = Some (s', yfs_NOENT, False, 1)"
    "sys_fs s' = sys_fs (nn_sys nn)"
    using yfs.lookup_ok [OF assms(1) one assms(2,3), where name = c and found = False and ino = 1 and envs = envs and clt = clt] assms(6) by auto
  have "parent_step ?nops True c (nn, 1) = Some (Inr (nn\<lparr>nn_sys := s'\<rparr>, ''Traverse failed''))"
    using s'(1) assms(5) by (simp add: parent_step_def lookup_def on_sys_def yfs_NOENT_def yfs_OK_def)
  then have "path_loop (CHR ''/'' # r) (parent_step ?nops True) 1 1 (nn, 1) = Some (Inr (nn\<lparr>nn_sys := s'\<rparr>, ''Traverse failed''))"
    using path_loop_split [of 1 "CHR ''/'' # r" "parent_step ?nops True" "(nn, 1)"] assms(4)
    unfolding drop_one_Cons path_dirs_def by simp
  then show ?thesis using s'(2) by (auto simp: PBMkdirs_def PBCreate_def ch_at_def)
qed

lemma createparent_ignored_witness:
  "\<exists>s'. PBMkdirs nn_ops0 ''/d/e'' True (nn_on sys0) = Some (nn_on s', Throw ''Traverse failed'')"
proof -
  have "path_dirs ''d/e'' = [''d'']" "c_string ''d'' = ''d''" by code_simp+
  then show ?thesis
    using createparent_ignored [of "nn_on sys0" "[]" "''d/e''" "''d''" "[]" "\<lambda>_. env0" 0 attr0] sys0_facts(1,2) dir_ok_Nil
    by (auto simp: nn_on_def nn_ops0_def)
qed

text \<open>
  C39. A data node counts as alive for three ticks of the counter after its last heartbeat, and not
  longer; but while the counter is below 3 no data node does, because the subtraction wraps around.
\<close>

theorem heartbeat_window:
  assumes "sorted_wrt (<) (map fst (datanode nn))" and "heartbeat_count nn + k < 2 ^ 31"
  shows "i \<in> set (GetDatanodes ((SendHeartbeat ^^ k) (DatanodeHeartbeat i nn))) \<longleftrightarrow> k \<le> 3 \<and> 3 \<le> heartbeat_count nn + k"
proof -
  let ?c = "heartbeat_count nn"
  have n: "datanode ((SendHeartbeat ^^ k) m) = datanode m" for m :: "'a name_node"
    by (induction k) (simp_all add: SendHeartbeat_def)
  have "heartbeat_count ((SendHeartbeat ^^ k) m) = (heartbeat_count m + k)" if "heartbeat_count m + k < 2 ^ 31" for m :: "'a name_node"
    using that by (induction k) (simp_all add: SendHeartbeat_def)
  then have c: "heartbeat_count ((SendHeartbeat ^^ k) (DatanodeHeartbeat i nn)) = ?c + k"
    using assms(2) by (simp add: DatanodeHeartbeat_def)
  have "c_int ?c = int ?c" using assms(2) by (simp add: c_int_def)
  then have d: "datanode (DatanodeHeartbeat i nn) = map_set i (int ?c) (datanode nn)"
    by (simp add: DatanodeHeartbeat_def)
  have "i \<in> set (GetDatanodes ((SendHeartbeat ^^ k) (DatanodeHeartbeat i nn))) \<longleftrightarrow> live (?c + k) (int ?c)"
    using map_set_in [OF assms(1), of i _ "int ?c"]
    unfolding GetDatanodes_def n c d by (auto simp: image_iff Bex_def)
  then show ?thesis using live_iff [OF assms(2)] by simp
qed

theorem heartbeat_window_witness:
  "DatanodeID ''ip'' ''h'' 1 \<in> set (GetDatanodes ((SendHeartbeat ^^ 3) (DatanodeHeartbeat (DatanodeID ''ip'' ''h'' 1) (nn_on sys0))))"
  using heartbeat_window [of "nn_on sys0" 3 "DatanodeID ''ip'' ''h'' 1"] by (simp add: nn_on_def)

end
