(* ===== verification/Handle.thy ===== *)
theory Handle
  imports Yfs_Prelude
begin

text \<open>
  The cache of RPC connections, \<open>src/yfs/handle.cc\<close>: a \<open>handle\<close> object points to the
  reference-counted \<open>hinfo\<close> of its server, which owns the connection (\<open>rpcc\<close>). Objects on the
  C++ heap are addresses, and what \<open>new\<close> returns is an argument of the operations; \<open>None\<close> is a
  use of freed memory or the destruction of a locked mutex. The operations of \<open>handle_mgr\<close> run
  under its mutex and are atomic; \<open>safebind\<close> only holds the mutex of the \<open>hinfo\<close>, across the
  blocking call of \<open>bind\<close>, and is split there. The invariant shows that handles of many threads
  never see freed memory.
\<close>

record hinfo =
  hi_cl :: "nat option"
  refcnt :: int
  hi_del :: bool
  hi_m :: string
  cl_mutex :: bool

record handle_mgr =
  hmap :: "string \<rightharpoonup> nat"
  heap :: "nat \<rightharpoonup> hinfo"
  rpccs :: "nat list"

section \<open>Operations\<close>

definition get_handle :: "nat \<Rightarrow> string \<Rightarrow> handle_mgr \<Rightarrow> (handle_mgr \<times> nat option) option" where
  "get_handle a m g =
     (case hmap g m of
        None \<Rightarrow>
          Some (g\<lparr>heap := (heap g)(a \<mapsto> \<lparr>hi_cl = None, refcnt = 1, hi_del = False, hi_m = m, cl_mutex = False\<rparr>),
                  hmap := (hmap g)(m \<mapsto> a)\<rparr>, Some a)
      | Some h \<Rightarrow>
          do {
            i \<leftarrow> heap g h;
            (if hi_del i then Some (g, None)
             else Some (g\<lparr>heap := (heap g)(h \<mapsto> i\<lparr>refcnt := refcnt i + 1\<rparr>)\<rparr>, Some h))
          })"

text \<open>\<open>delete h->cl\<close> frees a live connection, \<open>pthread_mutex_destroy\<close> needs the mutex unlocked.\<close>

definition delete_cl :: "nat option \<Rightarrow> nat list \<Rightarrow> nat list option" where
  "delete_cl cl cs =
     (case cl of None \<Rightarrow> Some cs | Some c \<Rightarrow> if c \<in> set cs then Some (removeAll c cs) else None)"

definition delete_handle_wo :: "string \<Rightarrow> handle_mgr \<Rightarrow> handle_mgr option" where
  "delete_handle_wo m g =
     (case hmap g m of
        None \<Rightarrow> Some g
      | Some h \<Rightarrow>
          do {
            i \<leftarrow> heap g h;
            (if refcnt i = 0
             then do {
               cs \<leftarrow> delete_cl (hi_cl i) (rpccs g);
               (if cl_mutex i then None
                else Some (g\<lparr>rpccs := cs, hmap := (hmap g)(m := None), heap := (heap g)(h := None)\<rparr>))
             }
             else Some (g\<lparr>heap := (heap g)(h \<mapsto> i\<lparr>hi_del := True\<rparr>)\<rparr>))
          })"

definition delete_handle :: "string \<Rightarrow> handle_mgr \<Rightarrow> handle_mgr option" where
  "delete_handle m g = delete_handle_wo m g"

definition done_handle :: "nat \<Rightarrow> handle_mgr \<Rightarrow> handle_mgr option" where
  "done_handle h g =
     do {
       i \<leftarrow> heap g h;
       let i = i\<lparr>refcnt := refcnt i - 1\<rparr>;
       let g = g\<lparr>heap := (heap g)(h \<mapsto> i)\<rparr>;
       (if refcnt i = 0 \<and> hi_del i then delete_handle_wo (hi_m i) g else Some g)
     }"

text \<open>The destructor of \<open>handle\<close>.\<close>

definition destroy_handle :: "nat option \<Rightarrow> handle_mgr \<Rightarrow> handle_mgr option" where
  "destroy_handle h g = (case h of None \<Rightarrow> Some g | Some h \<Rightarrow> done_handle h g)"

text \<open>
  \<open>safebind\<close> up to the call of \<open>bind\<close>: either it returns, or it holds the mutex and binds.
  The mutex is free, or the thread would wait.
\<close>

datatype bind_result = Bound "nat option" | Binding

definition safebind_enter :: "nat option \<Rightarrow> handle_mgr \<Rightarrow> (handle_mgr \<times> bind_result) option" where
  "safebind_enter h g =
     (case h of
        None \<Rightarrow> Some (g, Bound None)
      | Some h \<Rightarrow>
          do {
            i \<leftarrow> heap g h;
            (if hi_del i then Some (g, Bound None)
             else case hi_cl i of
                    Some c \<Rightarrow> if c \<in> set (rpccs g) then Some (g, Bound (Some c)) else None
                  | None \<Rightarrow> Some (g\<lparr>heap := (heap g)(h \<mapsto> i\<lparr>cl_mutex := True\<rparr>)\<rparr>, Binding))
          })"

text \<open>After \<open>bind\<close>: \<open>c\<close> is the new connection, \<open>ret\<close> what \<open>bind\<close> returned.\<close>

definition safebind_finish :: "nat \<Rightarrow> nat \<Rightarrow> int \<Rightarrow> handle_mgr \<Rightarrow> (handle_mgr \<times> nat option) option" where
  "safebind_finish h c ret g =
     do {
       i \<leftarrow> heap g h;
       (if ret < 0
        then Some (g\<lparr>heap := (heap g)(h \<mapsto> i\<lparr>hi_del := True, cl_mutex := False\<rparr>)\<rparr>, hi_cl i)
        else Some (g\<lparr>rpccs := c # rpccs g, heap := (heap g)(h \<mapsto> i\<lparr>hi_cl := Some c, cl_mutex := False\<rparr>)\<rparr>,
                   Some c))
     }"

section \<open>Programs with handles\<close>

text \<open>
  \<open>objs\<close> are the \<open>handle\<close> objects that exist, with their pointer \<open>h\<close>, and \<open>busy\<close> those inside
  \<open>bind\<close>. A program constructs and destroys them, in any number of threads, and calls
  \<open>delete_handle\<close> at any time; it does not destroy an object it is calling. \<open>new\<close> returns
  memory that is not in use.
\<close>

record handle_sys =
  hmgr :: handle_mgr
  objs :: "nat \<rightharpoonup> nat option"
  busy :: "nat list"

datatype handle_event =
  Construct nat string nat
| Destroy nat
| Delete string
| Enter nat
| Finish nat nat int

definition handle_init :: handle_sys where
  "handle_init = \<lparr>hmgr = \<lparr>hmap = Map.empty, heap = Map.empty, rpccs = []\<rparr>, objs = Map.empty, busy = []\<rparr>"

definition mutex_free :: "nat option \<Rightarrow> handle_mgr \<Rightarrow> bool" where
  "mutex_free h g = (case h of None \<Rightarrow> True | Some h \<Rightarrow> (case heap g h of None \<Rightarrow> True | Some i \<Rightarrow> \<not> cl_mutex i))"

fun handle_enabled :: "handle_event \<Rightarrow> handle_sys \<Rightarrow> bool" where
  "handle_enabled (Construct ob m a) s \<longleftrightarrow> objs s ob = None \<and> heap (hmgr s) a = None"
| "handle_enabled (Destroy ob) s \<longleftrightarrow> objs s ob \<noteq> None \<and> ob \<notin> set (busy s)"
| "handle_enabled (Delete m) s \<longleftrightarrow> True"
| "handle_enabled (Enter ob) s \<longleftrightarrow> (case objs s ob of None \<Rightarrow> False | Some h \<Rightarrow> ob \<notin> set (busy s) \<and> mutex_free h (hmgr s))"
| "handle_enabled (Finish ob c ret) s \<longleftrightarrow> ob \<in> set (busy s) \<and> c \<notin> set (rpccs (hmgr s))"

fun handle_run :: "handle_event \<Rightarrow> handle_sys \<Rightarrow> handle_sys option" where
  "handle_run (Construct ob m a) s =
     do { (g, h) \<leftarrow> get_handle a m (hmgr s); Some (s\<lparr>hmgr := g, objs := (objs s)(ob \<mapsto> h)\<rparr>) }"
| "handle_run (Destroy ob) s =
     do {
       h \<leftarrow> objs s ob;
       g \<leftarrow> destroy_handle h (hmgr s);
       Some (s\<lparr>hmgr := g, objs := (objs s)(ob := None)\<rparr>)
     }"
| "handle_run (Delete m) s = do { g \<leftarrow> delete_handle m (hmgr s); Some (s\<lparr>hmgr := g\<rparr>) }"
| "handle_run (Enter ob) s =
     do {
       h \<leftarrow> objs s ob;
       (g, r) \<leftarrow> safebind_enter h (hmgr s);
       Some (s\<lparr>hmgr := g, busy := (case r of Binding \<Rightarrow> ob # busy s | Bound _ \<Rightarrow> busy s)\<rparr>)
     }"
| "handle_run (Finish ob c ret) s =
     do {
       p \<leftarrow> objs s ob;
       h \<leftarrow> p;
       (g, r) \<leftarrow> safebind_finish h c ret (hmgr s);
       Some (s\<lparr>hmgr := g, busy := removeAll ob (busy s)\<rparr>)
     }"

inductive handle_reach :: "handle_sys \<Rightarrow> bool" where
  init: "handle_reach handle_init"
| step: "handle_reach s \<Longrightarrow> handle_enabled e s \<Longrightarrow> handle_run e s = Some s' \<Longrightarrow> handle_reach s'"

fun handle_runs :: "handle_event list \<Rightarrow> handle_sys \<Rightarrow> handle_sys option" where
  "handle_runs [] s = Some s"
| "handle_runs (e # es) s = (if handle_enabled e s then do { s \<leftarrow> handle_run e s; handle_runs es s } else None)"

lemma handle_runs_reach: "handle_reach s \<Longrightarrow> handle_runs es s = Some s' \<Longrightarrow> handle_reach s'"
  by (induction es arbitrary: s) (auto split: if_splits bind_splits intro: handle_reach.step)

section \<open>The invariant\<close>

definition refs :: "handle_sys \<Rightarrow> nat \<Rightarrow> nat set" where
  "refs s h = {ob. objs s ob = Some (Some h)}"

text \<open>
  What holds of one \<open>hinfo\<close>: its count is the number of handles, it is the one the map has
  for its name, only handles keep a deleted one alive, its mutex is held by a thread that binds, and
  its connection is its own.
\<close>

definition cl_ok :: "handle_mgr \<Rightarrow> nat \<Rightarrow> hinfo \<Rightarrow> bool" where
  "cl_ok g h i \<longleftrightarrow>
     (\<forall>c. hi_cl i = Some c \<longrightarrow> c \<in> set (rpccs g) \<and> (\<forall>h' i'. heap g h' = Some i' \<and> hi_cl i' = Some c \<longrightarrow> h' = h))"

definition hinfo_ok :: "handle_sys \<Rightarrow> nat \<Rightarrow> hinfo \<Rightarrow> bool" where
  "hinfo_ok s h i \<longleftrightarrow>
     refcnt i = int (card (refs s h)) \<and> hmap (hmgr s) (hi_m i) = Some h \<and>
     (hi_del i \<longrightarrow> refs s h \<noteq> {}) \<and> (cl_mutex i \<longrightarrow> refs s h \<inter> set (busy s) \<noteq> {}) \<and>
     cl_ok (hmgr s) h i"

definition handle_inv :: "handle_sys \<Rightarrow> bool" where
  "handle_inv s \<longleftrightarrow>
     finite (dom (objs s)) \<and>
     (\<forall>ob h. objs s ob = Some (Some h) \<longrightarrow> heap (hmgr s) h \<noteq> None) \<and>
     (\<forall>m h. hmap (hmgr s) m = Some h \<longrightarrow> (\<exists>i. heap (hmgr s) h = Some i \<and> hi_m i = m)) \<and>
     (\<forall>h i. heap (hmgr s) h = Some i \<longrightarrow> hinfo_ok s h i) \<and>
     (\<forall>ob \<in> set (busy s). \<exists>h. objs s ob = Some (Some h))"

lemma handle_init_inv: "handle_inv handle_init"
  by (simp add: handle_inv_def handle_init_def)

lemma handle_invD:
  assumes "handle_inv s"
  shows "finite (refs s h)"
    and "objs s ob = Some (Some h) \<Longrightarrow> \<exists>i. heap (hmgr s) h = Some i"
    and "hmap (hmgr s) m = Some h \<Longrightarrow> \<exists>i. heap (hmgr s) h = Some i \<and> hi_m i = m"
    and "heap (hmgr s) h = Some i \<Longrightarrow> hinfo_ok s h i"
    and "ob \<in> set (busy s) \<Longrightarrow> \<exists>h. objs s ob = Some (Some h)"
proof -
  have "refs s h \<subseteq> dom (objs s)"
    by (auto simp: refs_def)
  then show "finite (refs s h)"
    using assms finite_subset by (auto simp: handle_inv_def)
qed (use assms in \<open>auto simp: handle_inv_def\<close>)

lemma refs_add:
  "objs s ob = None \<Longrightarrow> refs (s\<lparr>hmgr := g, objs := (objs s)(ob \<mapsto> p)\<rparr>) h = (if p = Some h then insert ob (refs s h) else refs s h)"
  by (auto simp: refs_def)

lemma refs_remove: "refs (s\<lparr>hmgr := g, objs := (objs s)(ob := None)\<rparr>) h = refs s h - {ob}"
  by (auto simp: refs_def)

lemma refs_same: "refs (s\<lparr>hmgr := g\<rparr>) h = refs s h" "refs (s\<lparr>hmgr := g, busy := b\<rparr>) h = refs s h"
  by (simp_all add: refs_def)

lemma not_in_refs: "objs s ob = None \<Longrightarrow> ob \<notin> refs s h"
  by (simp add: refs_def)

lemma refs_freed: "handle_inv s \<Longrightarrow> heap (hmgr s) a = None \<Longrightarrow> refs s a = {}"
  using handle_invD(2) by (fastforce simp: refs_def)

lemma construct_new:
  assumes inv: "handle_inv s" and ob: "objs s ob = None" and a: "heap (hmgr s) a = None" and m: "hmap (hmgr s) m = None"
  shows "\<exists>s'. handle_run (Construct ob m a) s = Some s' \<and> handle_inv s'"
proof -
  let ?g = "(hmgr s)\<lparr>heap := (heap (hmgr s))(a \<mapsto> \<lparr>hi_cl = None, refcnt = 1, hi_del = False, hi_m = m, cl_mutex = False\<rparr>),
              hmap := (hmap (hmgr s))(m \<mapsto> a)\<rparr>"
  let ?s = "s\<lparr>hmgr := ?g, objs := (objs s)(ob \<mapsto> Some a)\<rparr>"
  have ok: "hinfo_ok ?s h i" if "heap ?g h = Some i" for h i
  proof (cases "h = a")
    case True
    then show ?thesis
      using that refs_freed [OF inv a] ob by (auto simp: hinfo_ok_def cl_ok_def refs_add)
  next
    case False
    then have h: "heap (hmgr s) h = Some i"
      using that by simp
    then show ?thesis
      using handle_invD(4) [OF inv h] False m ob by (auto simp: hinfo_ok_def cl_ok_def refs_add split: if_splits)
  qed
  have "handle_inv ?s"
    unfolding handle_inv_def
  proof (intro conjI allI impI ballI)
    show "finite (dom (objs ?s))"
      using inv by (simp add: handle_inv_def)
    show "heap (hmgr ?s) h \<noteq> None" if "objs ?s ob' = Some (Some h)" for ob' h
      using that handle_invD(2) [OF inv, of ob' h] by (auto split: if_splits)
    show "\<exists>i. heap (hmgr ?s) h = Some i \<and> hi_m i = k" if "hmap (hmgr ?s) k = Some h" for k h
      using that handle_invD(3) [OF inv, of k h] a by (auto split: if_splits)
    show "hinfo_ok ?s h i" if "heap (hmgr ?s) h = Some i" for h i
      using ok that by simp
    show "\<exists>h. objs ?s ob' = Some (Some h)" if "ob' \<in> set (busy ?s)" for ob'
      using that handle_invD(5) [OF inv, of ob'] ob by auto
  qed
  then show ?thesis
    using m by (simp add: get_handle_def)
qed

text \<open>
  All other events replace one \<open>hinfo\<close> in place or free it, so the invariant has to be shown
  for the new one only.
\<close>

lemma cl_ok_replace:
  assumes old: "\<And>k j. heap g k = Some j \<Longrightarrow> cl_ok g k j" and h: "heap g h = Some i"
    and g': "g' = g\<lparr>heap := (heap g)(h \<mapsto> i'), rpccs := cs\<rparr>" and cs: "set (rpccs g) \<subseteq> set cs"
    and cl: "hi_cl i' = hi_cl i \<or> hi_cl i' = Some c \<and> c \<notin> set (rpccs g) \<and> c \<in> set cs"
    and k: "heap g' k = Some j"
  shows "cl_ok g' k j"
  unfolding cl_ok_def
proof (intro allI impI)
  fix c' assume j: "hi_cl j = Some c'"
  have src: "k = h \<and> c' = c \<and> c \<notin> set (rpccs g) \<and> c \<in> set cs \<or> (\<exists>j0. heap g k = Some j0 \<and> hi_cl j0 = Some c')"
    if "heap g' k = Some j" "hi_cl j = Some c'" for k j
    using that cl h g' by (auto split: if_splits)
  have live: "c' \<in> set (rpccs g)" if "heap g k = Some j0" "hi_cl j0 = Some c'" for k j0
    using old [OF that(1)] that(2) by (simp add: cl_ok_def)
  have uniq: "k' = k" if "heap g k = Some j0" "hi_cl j0 = Some c'" "heap g k' = Some j1" "hi_cl j1 = Some c'" for k j0 k' j1
    using old [OF that(1)] that(2-4) by (simp add: cl_ok_def)
  show "c' \<in> set (rpccs g') \<and> (\<forall>h' i'. heap g' h' = Some i' \<and> hi_cl i' = Some c' \<longrightarrow> h' = k)"
    using src [OF k j] src live uniq cs g' by (intro conjI allI impI) (fastforce, metis)
qed

lemma handle_inv_replace:
  assumes inv: "handle_inv s" and h: "heap (hmgr s) h = Some i" and m: "hi_m i' = hi_m i"
    and s': "hmgr s' = (hmgr s)\<lparr>heap := (heap (hmgr s))(h \<mapsto> i'), rpccs := cs\<rparr>"
    and fin: "finite (dom (objs s'))"
    and obj: "\<forall>ob h. objs s' ob = Some (Some h) \<longrightarrow> heap (hmgr s') h \<noteq> None"
    and busy: "\<forall>ob \<in> set (busy s'). \<exists>h. objs s' ob = Some (Some h)"
    and refs: "\<forall>k. k \<noteq> h \<longrightarrow> refs s' k = refs s k \<and> refs s k \<inter> set (busy s) \<subseteq> set (busy s')"
    and cs: "set (rpccs (hmgr s)) \<subseteq> set cs"
    and cl: "hi_cl i' = hi_cl i \<or> hi_cl i' = Some c \<and> c \<notin> set (rpccs (hmgr s)) \<and> c \<in> set cs"
    and new: "refcnt i' = int (card (refs s' h))" "hi_del i' \<longrightarrow> refs s' h \<noteq> {}"
      "cl_mutex i' \<longrightarrow> refs s' h \<inter> set (busy s') \<noteq> {}"
  shows "handle_inv s'"
proof -
  have own: "hmap (hmgr s) (hi_m i) = Some h"
    using handle_invD(4) [OF inv h] by (simp add: hinfo_ok_def)
  have cls: "cl_ok (hmgr s) k j" if "heap (hmgr s) k = Some j" for k j
    using handle_invD(4) [OF inv that] by (simp add: hinfo_ok_def)
  have ok: "hinfo_ok s' k j" if k: "heap (hmgr s') k = Some j" for k j
  proof (cases "k = h")
    case True
    then have "j = i'"
      using that s' by simp
    then show ?thesis
      using True new own m s' cl_ok_replace [OF cls h s' cs cl k] by (simp add: hinfo_ok_def)
  next
    case False
    then have "heap (hmgr s) k = Some j"
      using that s' by simp
    then show ?thesis
      using handle_invD(4) [OF inv, of k j] refs [rule_format, OF False] s' cl_ok_replace [OF cls h s' cs cl k]
      by (auto simp: hinfo_ok_def)
  qed
  have "\<exists>i. heap (hmgr s') h = Some i \<and> hi_m i = k" if "hmap (hmgr s') k = Some h" for k h
    using that handle_invD(3) [OF inv, of k h] s' m h by auto
  then show ?thesis
    unfolding handle_inv_def using fin obj busy ok by blast
qed

lemma handle_inv_free:
  assumes inv: "handle_inv s" and h: "heap (hmgr s) h = Some i"
    and s': "hmgr s' = (hmgr s)\<lparr>rpccs := cs, hmap := (hmap (hmgr s))(hi_m i := None), heap := (heap (hmgr s))(h := None)\<rparr>"
    and cs: "set cs = set (rpccs (hmgr s)) - set_option (hi_cl i)"
    and fin: "finite (dom (objs s'))" and busy: "busy s' = busy s" "\<forall>ob \<in> set (busy s). objs s' ob = objs s ob"
    and obj: "\<forall>ob. objs s' ob = None \<or> objs s' ob = objs s ob"
    and refs: "refs s' h = {}" "\<forall>k. k \<noteq> h \<longrightarrow> refs s' k = refs s k"
  shows "handle_inv s'"
proof -
  have own: "hmap (hmgr s) (hi_m i) = Some h"
    using handle_invD(4) [OF inv h] by (simp add: hinfo_ok_def)
  have ok: "hinfo_ok s' k j" if "heap (hmgr s') k = Some j" for k j
  proof -
    have k: "k \<noteq> h" "heap (hmgr s) k = Some j"
      using that s' by (auto split: if_splits)
    have "hi_cl i \<noteq> hi_cl j" if "hi_cl j = Some c" for c
      using handle_invD(4) [OF inv k(2)] that h k(1) by (auto simp: hinfo_ok_def cl_ok_def)
    then have "cl_ok (hmgr s') k j"
      using handle_invD(4) [OF inv k(2)] cs s' by (auto simp: hinfo_ok_def cl_ok_def split: if_splits)
    moreover have "hi_m j \<noteq> hi_m i"
      using handle_invD(4) [OF inv k(2)] own k(1) by (auto simp: hinfo_ok_def)
    ultimately show ?thesis
      using handle_invD(4) [OF inv k(2)] refs(2) k(1) s' busy(1) by (simp add: hinfo_ok_def)
  qed
  have "heap (hmgr s') k \<noteq> None" if ob: "objs s' ob = Some (Some k)" for ob k
  proof -
    have "objs s ob = Some (Some k)" "k \<noteq> h"
      using ob obj [rule_format, of ob] refs(1) by (auto simp: refs_def)
    then show ?thesis
      using handle_invD(2) [OF inv, of ob k] s' by simp
  qed
  moreover have "\<exists>i. heap (hmgr s') k = Some i \<and> hi_m i = m" if "hmap (hmgr s') m = Some k" for m k
    using that handle_invD(3) [OF inv, of m k] s' h by (auto split: if_splits)
  moreover have "\<exists>h. objs s' ob = Some (Some h)" if "ob \<in> set (busy s')" for ob
    using that busy handle_invD(5) [OF inv, of ob] by simp
  ultimately show ?thesis
    unfolding handle_inv_def using fin ok by blast
qed

lemma handle_inv_same:
  assumes inv: "handle_inv s" and s': "hmgr s' = hmgr s" "busy s' = busy s"
    and fin: "finite (dom (objs s'))" and obj: "\<forall>ob h. objs s' ob = Some (Some h) \<longleftrightarrow> objs s ob = Some (Some h)"
  shows "handle_inv s'"
proof -
  have "refs s' = refs s"
    using obj by (simp add: refs_def fun_eq_iff)
  then show ?thesis
    using inv fin obj s' by (simp add: handle_inv_def hinfo_ok_def)
qed

text \<open>Freeing a connection that \<open>i\<close> owns, as \<open>delete_handle_wo\<close> does.\<close>

lemma free_cl:
  assumes "handle_inv s" and "heap (hmgr s) h = Some i"
  shows "\<exists>cs. delete_cl (hi_cl i) (rpccs (hmgr s)) = Some cs \<and>
           set cs = set (rpccs (hmgr s)) - set_option (hi_cl i)"
  using handle_invD(4) [OF assms] by (auto simp: delete_cl_def hinfo_ok_def cl_ok_def split: option.split)

section \<open>Every event keeps the invariant\<close>

lemma construct_ok:
  assumes inv: "handle_inv s" and en: "handle_enabled (Construct ob m a) s"
  shows "\<exists>s'. handle_run (Construct ob m a) s = Some s' \<and> handle_inv s'"
proof (cases "hmap (hmgr s) m")
  case None
  then show ?thesis
    using construct_new [OF inv _ _ None] en by simp
next
  case (Some h)
  have ob: "objs s ob = None"
    using en by simp
  obtain i where i: "heap (hmgr s) h = Some i"
    using handle_invD(3) [OF inv Some] by blast
  note ok = handle_invD(4) [OF inv i, unfolded hinfo_ok_def]
  have fin: "finite (dom (objs s))"
    using inv by (simp add: handle_inv_def)
  show ?thesis
  proof (cases "hi_del i")
    case True
    have "handle_inv (s\<lparr>objs := (objs s)(ob \<mapsto> None)\<rparr>)"
      using fin ob by (intro handle_inv_same [OF inv]) simp_all
    then show ?thesis
      using Some i True by (simp add: get_handle_def)
  next
    case False
    let ?g = "(hmgr s)\<lparr>heap := (heap (hmgr s))(h \<mapsto> i\<lparr>refcnt := refcnt i + 1\<rparr>)\<rparr>"
    have "handle_inv (s\<lparr>hmgr := ?g, objs := (objs s)(ob \<mapsto> Some h)\<rparr>)"
      by (rule handle_inv_replace [OF inv i, where i' = "i\<lparr>refcnt := refcnt i + 1\<rparr>" and cs = "rpccs (hmgr s)"])
        (use fin ok ob not_in_refs [OF ob] handle_invD(1,2,5) [OF inv] in \<open>auto simp: refs_add\<close>)
    then show ?thesis
      using Some i False by (simp add: get_handle_def)
  qed
qed

lemma delete_ok:
  assumes inv: "handle_inv s"
  shows "\<exists>s'. handle_run (Delete m) s = Some s' \<and> handle_inv s'"
proof (cases "hmap (hmgr s) m")
  case None
  then show ?thesis
    using inv by (simp add: delete_handle_def delete_handle_wo_def)
next
  case (Some h)
  obtain i where i: "heap (hmgr s) h = Some i" "hi_m i = m"
    using handle_invD(3) [OF inv Some] by blast
  note ok = handle_invD(4) [OF inv i(1), unfolded hinfo_ok_def]
  have fin: "finite (dom (objs s))"
    using inv by (simp add: handle_inv_def)
  show ?thesis
  proof (cases "refcnt i = 0")
    case True
    then have empty: "refs s h = {}" "\<not> cl_mutex i"
      using ok handle_invD(1) [OF inv, of h] by auto
    obtain cs where cs: "delete_cl (hi_cl i) (rpccs (hmgr s)) = Some cs"
        "set cs = set (rpccs (hmgr s)) - set_option (hi_cl i)"
      using free_cl [OF inv i(1)] by blast
    let ?g = "(hmgr s)\<lparr>rpccs := cs, hmap := (hmap (hmgr s))(m := None), heap := (heap (hmgr s))(h := None)\<rparr>"
    have "handle_inv (s\<lparr>hmgr := ?g\<rparr>)"
      using fin empty i(2) cs(2) by (intro handle_inv_free [OF inv i(1)]) (simp_all add: refs_same)
    then show ?thesis
      using Some i True empty(2) cs(1) by (simp add: delete_handle_def delete_handle_wo_def)
  next
    case False
    let ?g = "(hmgr s)\<lparr>heap := (heap (hmgr s))(h \<mapsto> i\<lparr>hi_del := True\<rparr>)\<rparr>"
    have "handle_inv (s\<lparr>hmgr := ?g\<rparr>)"
      by (rule handle_inv_replace [OF inv i(1), where i' = "i\<lparr>hi_del := True\<rparr>" and cs = "rpccs (hmgr s)"])
        (use fin ok False handle_invD(2,5) [OF inv] in \<open>auto simp: refs_same\<close>)
    then show ?thesis
      using Some i False by (simp add: delete_handle_def delete_handle_wo_def)
  qed
qed

text \<open>One handle of \<open>h\<close> less.\<close>

lemma refs_less:
  assumes inv: "handle_inv s" and ob: "objs s ob = Some (Some h)" and i: "heap (hmgr s) h = Some i"
  shows "refcnt i - 1 = int (card (refs s h - {ob}))" and "k \<noteq> h \<Longrightarrow> refs s k - {ob} = refs s k"
proof -
  have "ob \<in> refs s h" "refcnt i = int (card (refs s h))"
    using ob handle_invD(4) [OF inv i] by (simp_all add: refs_def hinfo_ok_def)
  then show "refcnt i - 1 = int (card (refs s h - {ob}))"
    using card.remove [OF handle_invD(1) [OF inv, of h], of ob] by linarith
  show "refs s k - {ob} = refs s k" if "k \<noteq> h"
    using ob that by (auto simp: refs_def)
qed

lemma destroy_last:
  assumes inv: "handle_inv s" and ob: "objs s ob = Some (Some h)" "ob \<notin> set (busy s)" and i: "heap (hmgr s) h = Some i"
    and last: "refcnt i = 1" "hi_del i"
  shows "\<exists>s'. handle_run (Destroy ob) s = Some s' \<and> handle_inv s'"
proof -
  note ok = handle_invD(4) [OF inv i, unfolded hinfo_ok_def]
  have "card (refs s h - {ob}) = 0"
    using refs_less(1) [OF inv ob(1) i] last(1) by linarith
  then have empty: "refs s h - {ob} = {}"
    using handle_invD(1) [OF inv, of h] by (simp add: card_eq_0_iff)
  then have free: "\<not> cl_mutex i"
    using ok ob(2) by auto
  obtain cs where cs: "delete_cl (hi_cl i) (rpccs (hmgr s)) = Some cs" "set cs = set (rpccs (hmgr s)) - set_option (hi_cl i)"
    using free_cl [OF inv i] by blast
  let ?g = "(hmgr s)\<lparr>rpccs := cs, hmap := (hmap (hmgr s))(hi_m i := None), heap := (heap (hmgr s))(h := None)\<rparr>"
  have "handle_inv (s\<lparr>hmgr := ?g, objs := (objs s)(ob := None)\<rparr>)"
  proof (rule handle_inv_free [OF inv i], goal_cases)
    case 5
    show ?case
      using ob(2) by auto
  next
    case 7
    show ?case
      using empty by (simp only: refs_remove)
  qed (use inv cs(2) refs_less(2) [OF inv ob(1) i] in \<open>simp_all add: refs_remove handle_inv_def\<close>)
  then show ?thesis
    using ob(1) i last free cs(1) ok by (simp add: destroy_handle_def done_handle_def delete_handle_wo_def)
qed

lemma destroy_shared:
  assumes inv: "handle_inv s" and ob: "objs s ob = Some (Some h)" "ob \<notin> set (busy s)" and i: "heap (hmgr s) h = Some i"
    and more: "\<not> (refcnt i = 1 \<and> hi_del i)"
  shows "\<exists>s'. handle_run (Destroy ob) s = Some s' \<and> handle_inv s'"
proof -
  note ok = handle_invD(4) [OF inv i, unfolded hinfo_ok_def]
  let ?i = "i\<lparr>refcnt := refcnt i - 1\<rparr>"
  let ?g = "(hmgr s)\<lparr>heap := (heap (hmgr s))(h \<mapsto> ?i)\<rparr>"
  have "handle_inv (s\<lparr>hmgr := ?g, objs := (objs s)(ob := None)\<rparr>)"
  proof (rule handle_inv_replace [OF inv i, where i' = ?i and cs = "rpccs (hmgr s)"], goal_cases)
    case 4
    show ?case
      using handle_invD(2) [OF inv] by (auto split: if_splits)
  next
    case 5
    show ?case
      using handle_invD(5) [OF inv] ob(2) by (auto split: if_splits)
  next
    case 10
    have "refcnt i = 1" if "refs s h - {ob} = {}"
      using refs_less(1) [OF inv ob(1) i] unfolding that by simp
    then show ?case
      using more unfolding refs_remove by auto
  next
    case 11
    show ?case
      using ok ob(2) by (auto simp: refs_remove)
  qed (use inv refs_less [OF inv ob(1) i] in \<open>simp_all add: refs_remove handle_inv_def\<close>)
  then show ?thesis
    using ob(1) i more by (auto simp: destroy_handle_def done_handle_def Let_def)
qed

lemma destroy_ok:
  assumes inv: "handle_inv s" and en: "handle_enabled (Destroy ob) s"
  shows "\<exists>s'. handle_run (Destroy ob) s = Some s' \<and> handle_inv s'"
proof -
  obtain p where p: "objs s ob = Some p" and nb: "ob \<notin> set (busy s)"
    using en by auto
  show ?thesis
  proof (cases p)
    case None
    have "handle_inv (s\<lparr>objs := (objs s)(ob := None)\<rparr>)"
      using inv p None by (intro handle_inv_same [OF inv]) (simp_all add: handle_inv_def)
    then show ?thesis
      using p None by (simp add: destroy_handle_def)
  next
    case (Some h)
    then obtain i where "heap (hmgr s) h = Some i"
      using handle_invD(2) [OF inv] p by blast
    then show ?thesis
      using destroy_last [OF inv _ nb] destroy_shared [OF inv _ nb] p Some by blast
  qed
qed

lemma enter_ok:
  assumes inv: "handle_inv s" and en: "handle_enabled (Enter ob) s"
  shows "\<exists>s'. handle_run (Enter ob) s = Some s' \<and> handle_inv s'"
proof -
  obtain p where p: "objs s ob = Some p" and nb: "ob \<notin> set (busy s)"
    using en by (auto split: option.splits)
  have fin: "finite (dom (objs s))"
    using inv by (simp add: handle_inv_def)
  show ?thesis
  proof (cases p)
    case None
    then show ?thesis
      using p inv by (simp add: safebind_enter_def)
  next
    case (Some h)
    then obtain i where i: "heap (hmgr s) h = Some i"
      using handle_invD(2) [OF inv] p by blast
    note ok = handle_invD(4) [OF inv i, unfolded hinfo_ok_def]
    let ?g = "(hmgr s)\<lparr>heap := (heap (hmgr s))(h \<mapsto> i\<lparr>cl_mutex := True\<rparr>)\<rparr>"
    have "handle_inv (s\<lparr>hmgr := ?g, busy := ob # busy s\<rparr>)"
      by (rule handle_inv_replace [OF inv i, where i' = "i\<lparr>cl_mutex := True\<rparr>" and cs = "rpccs (hmgr s)"])
        (use fin ok p Some handle_invD(2,5) [OF inv] in \<open>auto simp: refs_same refs_def\<close>)
    then show ?thesis
      using p Some i inv ok by (auto simp: safebind_enter_def cl_ok_def split: option.split)
  qed
qed

lemma finish_ok:
  assumes inv: "handle_inv s" and en: "handle_enabled (Finish ob c ret) s"
  shows "\<exists>s'. handle_run (Finish ob c ret) s = Some s' \<and> handle_inv s'"
proof -
  have b: "ob \<in> set (busy s)" and c: "c \<notin> set (rpccs (hmgr s))"
    using en by simp_all
  have fin: "finite (dom (objs s))"
    using inv by (simp add: handle_inv_def)
  obtain h where h: "objs s ob = Some (Some h)"
    using handle_invD(5) [OF inv b] by blast
  obtain i where i: "heap (hmgr s) h = Some i"
    using handle_invD(2) [OF inv h] by blast
  note ok = handle_invD(4) [OF inv i, unfolded hinfo_ok_def]
  let ?del = "i\<lparr>hi_del := True, cl_mutex := False\<rparr>" and ?new = "i\<lparr>hi_cl := Some c, cl_mutex := False\<rparr>"
  have ob: "ob \<in> refs s h" "\<forall>k. k \<noteq> h \<longrightarrow> ob \<notin> refs s k"
    using h by (auto simp: refs_def)
  have "handle_inv (s\<lparr>hmgr := (hmgr s)\<lparr>heap := (heap (hmgr s))(h \<mapsto> ?del)\<rparr>, busy := removeAll ob (busy s)\<rparr>)"
    by (rule handle_inv_replace [OF inv i, where i' = ?del and cs = "rpccs (hmgr s)"])
      (use fin ok ob handle_invD(2,5) [OF inv] in \<open>auto simp: refs_same\<close>)
  moreover have "handle_inv (s\<lparr>hmgr := (hmgr s)\<lparr>rpccs := c # rpccs (hmgr s), heap := (heap (hmgr s))(h \<mapsto> ?new)\<rparr>,
                              busy := removeAll ob (busy s)\<rparr>)"
    by (rule handle_inv_replace [OF inv i, where i' = ?new and cs = "c # rpccs (hmgr s)" and c = c])
      (use fin ok ob c handle_invD(2,5) [OF inv] in \<open>auto simp: refs_same\<close>)
  ultimately show ?thesis
    using h i by (simp add: safebind_finish_def)
qed

lemma handle_event_ok:
  "handle_inv s \<Longrightarrow> handle_enabled e s \<Longrightarrow> \<exists>s'. handle_run e s = Some s' \<and> handle_inv s'"
  by (cases e) (simp_all only: construct_ok destroy_ok delete_ok enter_ok finish_ok)

lemma handle_reach_inv: "handle_reach s \<Longrightarrow> handle_inv s"
proof (induction rule: handle_reach.induct)
  case init
  then show ?case
    by (rule handle_init_inv)
next
  case (step s e s')
  then show ?case
    using handle_event_ok [of s e] by auto
qed

text \<open>
  C12. Whatever threads do with handles, and whenever a server is deleted from the cache, no
  operation uses freed memory, frees a connection twice or destroys a locked mutex; the reference count of an
  \<open>hinfo\<close> is the number of handles that point to it, a handle points to memory that is not freed, and
  one that is marked as deleted is kept by a handle only.
\<close>

theorem handles_safe:
  assumes "handle_reach s" and "handle_enabled e s"
  shows "handle_run e s \<noteq> None \<and>
    (\<forall>h i. heap (hmgr s) h = Some i \<longrightarrow>
       refcnt i = int (card {ob. objs s ob = Some (Some h)}) \<and> (hi_del i \<longrightarrow> 0 < refcnt i)) \<and>
    (\<forall>ob h. objs s ob = Some (Some h) \<longrightarrow> heap (hmgr s) h \<noteq> None)"
proof (intro conjI allI impI)
  note inv = handle_reach_inv [OF assms(1)]
  show "handle_run e s \<noteq> None"
    using handle_event_ok [OF inv assms(2)] by auto
  show "heap (hmgr s) h \<noteq> None" if "objs s ob = Some (Some h)" for ob h
    using handle_invD(2) [OF inv that] by simp
  fix h i assume h: "heap (hmgr s) h = Some i"
  show "refcnt i = int (card {ob. objs s ob = Some (Some h)})"
    using handle_invD(4) [OF inv h] by (simp add: hinfo_ok_def refs_def)
  show "0 < refcnt i" if "hi_del i"
    using handle_invD(4) [OF inv h] that handle_invD(1) [OF inv, of h] by (simp add: hinfo_ok_def card_gt_0_iff)
qed

text \<open>
  Two handles for one server; the first binds, the server is deleted from the cache meanwhile, and
  both handles go. The last one frees everything.
\<close>

definition handle_sample :: "handle_event list" where
  "handle_sample = [Construct 0 ''a:1'' 10, Construct 1 ''a:1'' 11, Enter 0, Delete ''a:1'', Finish 0 20 0, Destroy 0]"

lemma handle_sample_runs:
  "\<exists>s. handle_runs handle_sample handle_init = Some s \<and> handle_enabled (Destroy 1) s \<and>
     objs s 1 = Some (Some 10) \<and> rpccs (hmgr s) = [20]"
  by (simp add: handle_sample_def handle_init_def get_handle_def safebind_enter_def safebind_finish_def
      mutex_free_def delete_handle_def delete_handle_wo_def destroy_handle_def done_handle_def)

theorem handles_safe_witness:
  "\<exists>s. handle_reach s \<and> handle_run (Destroy 1) s \<noteq> None \<and> objs s 1 = Some (Some 10) \<and> heap (hmgr s) 10 \<noteq> None"
proof -
  obtain s where s: "handle_runs handle_sample handle_init = Some s" "handle_enabled (Destroy 1) s" "objs s 1 = Some (Some 10)"
    using handle_sample_runs by blast
  have r: "handle_reach s"
    by (rule handle_runs_reach [OF handle_reach.init s(1)])
  show ?thesis
    using handles_safe [OF r s(2)] r s(3) by blast
qed

end
