(* ===== verification/Fuse.thy ===== *)
theory Fuse
  imports Yfs_Theorems
begin

text \<open>
  The front end that the kernel's requests come in at, \<open>src/yfs/fuse.cc\<close>: one handler per request,
  each of which calls \<open>yfs_client\<close> and sends one reply. A reply is the call of
  \<open>fuse_reply_\<dots>\<close> with its arguments. Layout and size of a directory entry in the reply to \<open>readdir\<close>
  (\<open>fuse_add_dirent\<close>, \<open>fuse_dirent_size\<close>) and the bit \<open>FUSE_SET_ATTR_SIZE\<close> are of the FUSE
  library and parameters. Uninitialised variables are arguments.
\<close>

section \<open>Replies\<close>

record stat =
  st_ino :: nat
  st_mode :: nat
  st_nlink :: nat
  st_atime :: nat
  st_mtime :: nat
  st_ctime :: nat
  st_size :: nat

definition stat0 :: stat where
  "stat0 = \<lparr>st_ino = 0, st_mode = 0, st_nlink = 0, st_atime = 0, st_mtime = 0, st_ctime = 0, st_size = 0\<rparr>"

record fuse_entry_param =
  e_ino :: nat
  e_generation :: nat
  e_attr :: stat
  e_attr_timeout :: nat
  e_entry_timeout :: nat

record statvfs =
  f_bsize :: nat
  f_namemax :: nat

datatype errno = Success | ENOENT | EEXIST | ENOTDIR | ENOTEMPTY | ENOSYS

datatype reply =
  Reply_err errno
| Reply_attr stat nat
| Reply_buf string
| Reply_write nat
| Reply_create fuse_entry_param
| Reply_entry fuse_entry_param
| Reply_open
| Reply_statfs statvfs
| Reply_readlink string

definition S_IFREG :: nat where "S_IFREG = 0x8000"
definition S_IFDIR :: nat where "S_IFDIR = 0x4000"
definition S_IFLNK :: nat where "S_IFLNK = 0xA000"

text \<open>\<open>0666\<close> and \<open>0777\<close>, octal.\<close>

definition rw_mode :: nat where "rw_mode = 0x1B6"
definition rwx_mode :: nat where "rwx_mode = 0x1FF"

definition entry0 :: "stat \<Rightarrow> fuse_entry_param" where
  "entry0 st = \<lparr>e_ino = 0, e_generation = 0, e_attr = st, e_attr_timeout = 0, e_entry_timeout = 0\<rparr>"

section \<open>Attributes\<close>

definition stat_file :: "nat \<Rightarrow> fileinfo \<Rightarrow> stat \<Rightarrow> stat" where
  "stat_file mode info st =
     st\<lparr>st_mode := mode, st_nlink := 1, st_atime := fi_atime info, st_mtime := fi_mtime info,
        st_ctime := fi_ctime info, st_size := fi_size info\<rparr>"

definition stat_dir :: "dirinfo \<Rightarrow> stat \<Rightarrow> stat" where
  "stat_dir info st =
     st\<lparr>st_mode := S_IFDIR OR rwx_mode, st_nlink := 2, st_atime := di_atime info, st_mtime := di_mtime info,
        st_ctime := di_ctime info\<rparr>"

definition fileinfo0 :: fileinfo where
  "fileinfo0 = \<lparr>fi_size = 0, fi_atime = 0, fi_mtime = 0, fi_ctime = 0\<rparr>"

definition dirinfo0 :: dirinfo where
  "dirinfo0 = \<lparr>di_atime = 0, di_mtime = 0, di_ctime = 0\<rparr>"

text \<open>The argument of the \<open>printf\<close> asks for the type once more.\<close>

definition fuse_getattr :: "'s fs_ops \<Rightarrow> nat \<Rightarrow> 's \<Rightarrow> ('s \<times> status \<times> stat) option" where
  "fuse_getattr ops inum s =
     do {
       let st = stat0\<lparr>st_ino := inum\<rparr>;
       (s, _) \<leftarrow> isfile ops inum s;
       (s, f) \<leftarrow> isfile ops inum s;
       (if f then do {
          (s, ret, info) \<leftarrow> getfile ops inum fileinfo0 s;
          (if ret \<noteq> yfs_OK then Some (s, ret, st) else Some (s, yfs_OK, stat_file (S_IFREG OR rw_mode) info st))
        }
        else do {
          (s, d) \<leftarrow> isdir ops inum s;
          (if d then do {
             (s, ret, info) \<leftarrow> getdir ops inum dirinfo0 s;
             (if ret \<noteq> yfs_OK then Some (s, ret, st) else Some (s, yfs_OK, stat_dir info st))
           }
           else do {
             (s, ret, info) \<leftarrow> getfile ops inum fileinfo0 s;
             (if ret \<noteq> yfs_OK then Some (s, ret, st) else Some (s, yfs_OK, stat_file (S_IFLNK OR rwx_mode) info st))
           })
        })
     }"

definition fuseserver_getattr :: "'s fs_ops \<Rightarrow> nat \<Rightarrow> 's \<Rightarrow> ('s \<times> reply) option" where
  "fuseserver_getattr ops ino s =
     do {
       (s, ret, st) \<leftarrow> fuse_getattr ops ino s;
       Some (s, if ret \<noteq> yfs_OK then Reply_err ENOENT else Reply_attr st 0)
     }"

definition fuseserver_setattr :: "nat \<Rightarrow> 's fs_ops \<Rightarrow> nat \<Rightarrow> nat \<Rightarrow> nat \<Rightarrow> 's \<Rightarrow> ('s \<times> reply) option" where
  "fuseserver_setattr FUSE_SET_ATTR_SIZE ops ino attr_size to_set s =
     (if FUSE_SET_ATTR_SIZE AND to_set \<noteq> 0
      then do {
        (s, _) \<leftarrow> setattr ops ino attr_size s;
        (s, _, st) \<leftarrow> fuse_getattr ops ino s;
        Some (s, Reply_attr st 0)
      }
      else Some (s, Reply_err ENOSYS))"

section \<open>Contents\<close>

definition fuseserver_read :: "'s fs_ops \<Rightarrow> nat \<Rightarrow> nat \<Rightarrow> int \<Rightarrow> 's \<Rightarrow> ('s \<times> reply) option" where
  "fuseserver_read ops ino sz off s =
     do {
       (s, r, buf) \<leftarrow> yfs_read ops ino sz off [] s;
       Some (s, if r = yfs_OK then Reply_buf buf else Reply_err ENOENT)
     }"

text \<open>\<open>size\<close> (here \<open>sz\<close>) is also the variable that \<open>write\<close> returns its count in, and is read again for the reply.\<close>

definition fuseserver_write :: "'s fs_ops \<Rightarrow> nat \<Rightarrow> (nat \<Rightarrow> char) \<Rightarrow> nat \<Rightarrow> int \<Rightarrow> 's \<Rightarrow> ('s \<times> reply) option" where
  "fuseserver_write ops ino buf sz off s =
     do {
       (s, r, sz) \<leftarrow> yfs_write ops ino sz off buf s;
       Some (s, if r = yfs_OK then Reply_write sz else Reply_err ENOENT)
     }"

section \<open>Names\<close>

definition fuseserver_createhelper ::
  "'s fs_ops \<Rightarrow> nat \<Rightarrow> string \<Rightarrow> fuse_entry_param \<Rightarrow> nat \<Rightarrow> nat \<Rightarrow> 's \<Rightarrow> ('s \<times> status \<times> fuse_entry_param) option" where
  "fuseserver_createhelper ops parent name e type inum s =
     do {
       let e = e\<lparr>e_attr_timeout := 0, e_entry_timeout := 0, e_generation := 0\<rparr>;
       (s, ret, inum) \<leftarrow> (if type = T_FILE then create ops parent name inum s else mkdir ops parent name inum s);
       (if ret \<noteq> yfs_OK then Some (s, ret, e)
        else do {
          (s, ret, st) \<leftarrow> fuse_getattr ops inum s;
          Some (s, ret, e\<lparr>e_ino := inum, e_attr := st\<rparr>)
        })
     }"

definition create_error :: "status \<Rightarrow> reply" where
  "create_error ret = (if ret = yfs_EXIST then Reply_err EEXIST else Reply_err ENOENT)"

definition fuseserver_create :: "'s fs_ops \<Rightarrow> nat \<Rightarrow> string \<Rightarrow> fuse_entry_param \<Rightarrow> nat \<Rightarrow> 's \<Rightarrow> ('s \<times> reply) option" where
  "fuseserver_create ops parent name e inum s =
     do {
       (s, ret, e) \<leftarrow> fuseserver_createhelper ops parent name e T_FILE inum s;
       Some (s, if ret = yfs_OK then Reply_create e else create_error ret)
     }"

definition fuseserver_mknod :: "'s fs_ops \<Rightarrow> nat \<Rightarrow> string \<Rightarrow> fuse_entry_param \<Rightarrow> nat \<Rightarrow> 's \<Rightarrow> ('s \<times> reply) option" where
  "fuseserver_mknod ops parent name e inum s =
     do {
       (s, ret, e) \<leftarrow> fuseserver_createhelper ops parent name e T_FILE inum s;
       Some (s, if ret = yfs_OK then Reply_entry e else create_error ret)
     }"

definition fuseserver_mkdir :: "'s fs_ops \<Rightarrow> nat \<Rightarrow> string \<Rightarrow> fuse_entry_param \<Rightarrow> nat \<Rightarrow> 's \<Rightarrow> ('s \<times> reply) option" where
  "fuseserver_mkdir ops parent name e inum s =
     do {
       let e = e\<lparr>e_attr_timeout := 0, e_entry_timeout := 0, e_generation := 0\<rparr>;
       (s, ret, e) \<leftarrow> fuseserver_createhelper ops parent name e T_DIR inum s;
       Some (s, if ret = yfs_OK then Reply_entry e else create_error ret)
     }"

definition fuseserver_lookup :: "'s fs_ops \<Rightarrow> nat \<Rightarrow> string \<Rightarrow> fuse_entry_param \<Rightarrow> nat \<Rightarrow> 's \<Rightarrow> ('s \<times> reply) option" where
  "fuseserver_lookup ops parent name e ino s =
     do {
       let e = e\<lparr>e_attr_timeout := 0, e_entry_timeout := 0, e_generation := 0\<rparr>;
       (s, _, found, ino) \<leftarrow> lookup ops parent name False ino s;
       (if found
        then do {
          (s, _, st) \<leftarrow> fuse_getattr ops ino s;
          Some (s, Reply_entry (e\<lparr>e_ino := ino, e_attr := st\<rparr>))
        }
        else Some (s, Reply_err ENOENT))
     }"

definition fuseserver_unlink :: "'s fs_ops \<Rightarrow> nat \<Rightarrow> string \<Rightarrow> 's \<Rightarrow> ('s \<times> reply) option" where
  "fuseserver_unlink ops parent name s =
     do {
       (s, r) \<leftarrow> unlink ops parent name s;
       Some (s, if r = yfs_OK then Reply_err Success
                else if r = yfs_NOENT then Reply_err ENOENT else Reply_err ENOTEMPTY)
     }"

definition fuseserver_createlink ::
  "'s fs_ops \<Rightarrow> string \<Rightarrow> nat \<Rightarrow> string \<Rightarrow> fuse_entry_param \<Rightarrow> nat \<Rightarrow> 's \<Rightarrow> ('s \<times> reply) option" where
  "fuseserver_createlink ops target_name parent link_name e inode_id s =
     do {
       let e = e\<lparr>e_attr_timeout := 0, e_entry_timeout := 0, e_generation := 0\<rparr>;
       (s, ret, inode_id) \<leftarrow> createlink ops parent link_name target_name inode_id s;
       (if ret = yfs_OK
        then do {
          (s, _, st) \<leftarrow> fuse_getattr ops inode_id s;
          Some (s, Reply_entry (e\<lparr>e_ino := inode_id, e_attr := st\<rparr>))
        }
        else Some (s, if ret = yfs_NOENT then Reply_err ENOENT else Reply_err ENOTEMPTY))
     }"

text \<open>The library takes the target as a C string.\<close>

definition fuseserver_readlink :: "'s fs_ops \<Rightarrow> nat \<Rightarrow> 's \<Rightarrow> ('s \<times> reply) option" where
  "fuseserver_readlink ops ino s =
     do {
       (s, ret, link_content) \<leftarrow> yfs_readlink ops ino [] s;
       Some (s, if ret = yfs_OK then Reply_readlink (c_string link_content)
                else if ret = yfs_NOENT then Reply_err ENOENT else Reply_err ENOTEMPTY)
     }"

section \<open>Directory listings\<close>

record dirbuf =
  db_p :: string
  db_size :: nat

text \<open>
  The library's functions: \<open>dirent_size n\<close> is the size of an entry with a name of \<open>n\<close> characters,
  \<open>dirent name ino off\<close> the bytes that \<open>fuse_add_dirent\<close> writes at the place it is given.
\<close>

type_synonym dirent_fun = "string \<Rightarrow> nat \<Rightarrow> nat \<Rightarrow> string"

definition dirbuf_add :: "(nat \<Rightarrow> nat) \<Rightarrow> dirent_fun \<Rightarrow> string \<Rightarrow> nat \<Rightarrow> dirbuf \<Rightarrow> dirbuf" where
  "dirbuf_add dirent_size dirent name ino b =
     (let oldsize = db_size b;
          b = b\<lparr>db_size := db_size b + dirent_size (length name)\<rparr>
      in b\<lparr>db_p := take oldsize (db_p b) @ dirent name ino (db_size b)\<rparr>)"

definition reply_buf_limited :: "string \<Rightarrow> nat \<Rightarrow> int \<Rightarrow> nat \<Rightarrow> reply" where
  "reply_buf_limited buf bufsize off maxsize =
     (if size_of_off off < bufsize
      then Reply_buf (take (min (bufsize - size_of_off off) maxsize) (drop (size_of_off off) buf))
      else Reply_buf [])"

definition fuseserver_readdir ::
  "(nat \<Rightarrow> nat) \<Rightarrow> dirent_fun \<Rightarrow> 's fs_ops \<Rightarrow> nat \<Rightarrow> nat \<Rightarrow> int \<Rightarrow> 's \<Rightarrow> ('s \<times> reply) option" where
  "fuseserver_readdir dirent_size dirent ops ino sz off s =
     do {
       (s, d) \<leftarrow> isdir ops ino s;
       (if \<not> d then Some (s, Reply_err ENOTDIR)
        else do {
          (s, _, entries) \<leftarrow> readdir ops ino [] s;
          let b = foldl (\<lambda>b (name, inum). dirbuf_add dirent_size dirent (c_string name) inum b) \<lparr>db_p = [], db_size = 0\<rparr> entries;
          Some (s, reply_buf_limited (db_p b) (db_size b) off sz)
        })
     }"

definition fuseserver_open :: "'s \<Rightarrow> ('s \<times> reply) option" where
  "fuseserver_open s = Some (s, Reply_open)"

definition fuseserver_statfs :: "'s \<Rightarrow> ('s \<times> reply) option" where
  "fuseserver_statfs s = Some (s, Reply_statfs \<lparr>f_bsize = 512, f_namemax = 255\<rparr>)"

section \<open>The session\<close>

text \<open>
  The requests of the table \<open>fuseserver_oper\<close> that \<open>main\<close> fills, and the loop of one thread that
  serves them one after the other.
\<close>

datatype request =
  Getattr nat
| Setattr nat nat nat
| Statfs
| Readdir nat nat int
| Lookup nat string
| Create nat string
| Mknod nat string
| Open nat
| Read nat nat int
| Write nat "nat \<Rightarrow> char" nat int
| Unlink nat string
| Mkdir nat string
| Symlink string nat string
| Readlink nat

record fuse_lib =
  set_attr_size :: nat
  lib_dirent_size :: "nat \<Rightarrow> nat"
  lib_dirent :: dirent_fun
  stack_entry :: fuse_entry_param
  stack_inum :: nat

fun fuseserver_oper :: "fuse_lib \<Rightarrow> 's fs_ops \<Rightarrow> request \<Rightarrow> 's \<Rightarrow> ('s \<times> reply) option" where
  "fuseserver_oper l ops (Getattr ino) = fuseserver_getattr ops ino"
| "fuseserver_oper l ops (Setattr ino sz to_set) = fuseserver_setattr (set_attr_size l) ops ino sz to_set"
| "fuseserver_oper l ops Statfs = fuseserver_statfs"
| "fuseserver_oper l ops (Readdir ino sz off) = fuseserver_readdir (lib_dirent_size l) (lib_dirent l) ops ino sz off"
| "fuseserver_oper l ops (Lookup p n) = fuseserver_lookup ops p n (stack_entry l) (stack_inum l)"
| "fuseserver_oper l ops (Create p n) = fuseserver_create ops p n (stack_entry l) (stack_inum l)"
| "fuseserver_oper l ops (Mknod p n) = fuseserver_mknod ops p n (stack_entry l) (stack_inum l)"
| "fuseserver_oper l ops (Open ino) = fuseserver_open"
| "fuseserver_oper l ops (Read ino sz off) = fuseserver_read ops ino sz off"
| "fuseserver_oper l ops (Write ino buf sz off) = fuseserver_write ops ino buf sz off"
| "fuseserver_oper l ops (Unlink p n) = fuseserver_unlink ops p n"
| "fuseserver_oper l ops (Mkdir p n) = fuseserver_mkdir ops p n (stack_entry l) (stack_inum l)"
| "fuseserver_oper l ops (Symlink t p n) = fuseserver_createlink ops t p n (stack_entry l) (stack_inum l)"
| "fuseserver_oper l ops (Readlink ino) = fuseserver_readlink ops ino"

fun fuse_session :: "fuse_lib \<Rightarrow> 's fs_ops \<Rightarrow> request list \<Rightarrow> 's \<Rightarrow> ('s \<times> reply list) option" where
  "fuse_session l ops [] s = Some (s, [])"
| "fuse_session l ops (q # qs) s =
     do { (s, r) \<leftarrow> fuseserver_oper l ops q s; (s, rs) \<leftarrow> fuse_session l ops qs s; Some (s, r # rs) }"

section \<open>What the handlers do\<close>

definition mode_of :: "nat \<Rightarrow> nat" where
  "mode_of ty = (if ty = T_FILE then S_IFREG OR rw_mode else if ty = T_DIR then S_IFDIR OR rwx_mode else S_IFLNK OR rwx_mode)"

text \<open>What \<open>st\<close> says of the file \<open>f\<close> with the number \<open>i\<close>; no size for a directory.\<close>

definition stat_of :: "nat \<Rightarrow> (nat \<times> string) option \<Rightarrow> stat \<Rightarrow> bool" where
  "stat_of i f st \<longleftrightarrow> st_ino st = i \<and> st_mode st = mode_of (ftype f) \<and>
     st_size st = (if ftype f = T_DIR then 0 else length (content f))"

text \<open>
  A file system all of whose directories are lists of entries, with numbers that the extent server does not
  confuse, and whose files are below 4 GB.
\<close>

definition tree_ok :: "(nat \<Rightarrow> (nat \<times> string) option) \<Rightarrow> bool" where
  "tree_ok f \<longleftrightarrow> (\<forall>i t c. f i = Some (t, c) \<longrightarrow> length c < 2 ^ 32 \<and>
     (t = T_DIR \<longrightarrow> (\<exists>es. c = dir_string es \<and> dir_ok es \<and> (\<forall>(n, j) \<in> set es. j < 2 ^ 31))))"

text \<open>Requests that only read.\<close>

fun reading :: "request \<Rightarrow> bool" where
  "reading (Getattr ino) \<longleftrightarrow> ino < 2 ^ 31"
| "reading Statfs \<longleftrightarrow> True"
| "reading (Readdir ino sz off) \<longleftrightarrow> ino < 2 ^ 31"
| "reading (Lookup p n) \<longleftrightarrow> p < 2 ^ 31"
| "reading (Open ino) \<longleftrightarrow> True"
| "reading (Read ino sz off) \<longleftrightarrow> ino < 2 ^ 31 \<and> 0 \<le> off \<and> off < 2 ^ 32"
| "reading (Readlink ino) \<longleftrightarrow> ino < 2 ^ 31"
| "reading _ \<longleftrightarrow> False"

lemma tree_okD:
  assumes "tree_ok f"
  shows "length (content (f i)) < 2 ^ 32"
    and "ftype (f i) = T_DIR \<Longrightarrow> \<exists>es. f i = Some (T_DIR, dir_string es) \<and> dir_ok es \<and> (\<forall>(n, j) \<in> set es. j < 2 ^ 31)"
  using assms by (cases "f i"; force simp: tree_ok_def T_DIR_def)+

context extent_store
begin

lemma locked_isdir_ok:
  assumes "inv s" and "i < 2 ^ 31" and "i \<notin> held s"
  shows "\<exists>s'. isdir ops i s = Some (s', ftype (fs s i) = T_DIR)
    \<and> inv s' \<and> fs s' = fs s \<and> free s' = free s \<and> held s' = held s"
proof -
  obtain s1 where s1: "lc_acq ops i s = Some s1" "inv s1" "fs s1 = fs s" "free s1 = free s" "held s1 = insert i (held s)"
    by (rule enter [OF assms(1,3)])
  obtain s2 where s2: "nlock_isdir ops i s1 = Some (s2, ftype (fs s i) = T_DIR)" "inv s2" "fs s2 = fs s" "free s2 = free s"
      "held s2 = insert i (held s)"
    using isdir_ok [OF s1(2) assms(2)] s1(3-5) by auto
  obtain s3 where s3: "lc_rel ops i s2 = Some s3" "inv s3" "fs s3 = fs s2" "free s3 = free s2" "held s3 = held s"
    by (rule leave [OF s2(2,5) assms(3)])
  show ?thesis
    using s1(1) s2(1,3,4) s3 by (simp add: isdir_def)
qed

lemma getdir_ok:
  assumes "inv s" and "i < 2 ^ 31" and "i \<notin> held s"
  shows "\<exists>s' din'. getdir ops i din s = Some (s', yfs_OK, din')
    \<and> inv s' \<and> fs s' = fs s \<and> free s' = free s \<and> held s' = held s"
proof -
  obtain s1 where s1: "lc_acq ops i s = Some s1" "inv s1" "fs s1 = fs s" "free s1 = free s" "held s1 = insert i (held s)"
    by (rule enter [OF assms(1,3)])
  obtain s2 a where s2: "ec_getattr ops i attr0 s1 = Some (s2, ext_OK, a)" "inv s2" "fs s2 = fs s" "free s2 = free s"
      "held s2 = insert i (held s)"
    using getattr_law [OF s1(2) assms(2), of attr0] s1(3-5) by auto
  obtain s3 where s3: "lc_rel ops i s2 = Some s3" "inv s3" "fs s3 = fs s2" "free s3 = free s2" "held s3 = held s"
    by (rule leave [OF s2(2,5) assms(3)])
  show ?thesis
    using s1(1) s2(1,3,4) s3 by (auto simp: getdir_def Let_def)
qed

lemma fuse_getattr_ok:
  assumes "inv s" and i: "i < 2 ^ 31" and h: "i \<notin> held s"
  shows "\<exists>s' st. fuse_getattr ops i s = Some (s', yfs_OK, st) \<and> stat_of i (fs s i) st
    \<and> inv s' \<and> fs s' = fs s \<and> free s' = free s \<and> held s' = held s"
proof -
  let ?same = "\<lambda>s'. inv s' \<and> fs s' = fs s \<and> free s' = free s \<and> held s' = held s"
  have isf: "\<exists>s'. isfile ops i s1 = Some (s', ftype (fs s i) = T_FILE) \<and> ?same s'" if "?same s1" for s1
    using isfile_ok [of s1 i] that i h by simp
  obtain s1 where s1: "isfile ops i s = Some (s1, ftype (fs s i) = T_FILE)" "?same s1"
    using isf [of s] assms(1) by blast
  obtain s2 where s2: "isfile ops i s1 = Some (s2, ftype (fs s i) = T_FILE)" "?same s2"
    using isf [OF s1(2)] by blast
  obtain s3 where s3: "isdir ops i s2 = Some (s3, ftype (fs s i) = T_DIR)" "?same s3"
    using locked_isdir_ok [of s2 i] s2(2) i h by auto
  have get: "\<exists>s' fin. getfile ops i fileinfo0 s1 = Some (s', yfs_OK, fin) \<and> fi_size fin = length (content (fs s i)) \<and> ?same s'"
    if "?same s1" for s1
    using getfile_ok [of s1 i fileinfo0] that i h by auto
  have dir: "\<exists>s' din. getdir ops i dirinfo0 s3 = Some (s', yfs_OK, din) \<and> ?same s'"
    using getdir_ok [of s3 i dirinfo0] s3(2) i h by auto
  show ?thesis
    using s1 s2 s3 get [OF s2(2)] get [OF s3(2)] dir T_small
    by (auto simp: fuse_getattr_def stat_of_def mode_of_def stat_file_def stat_dir_def stat0_def Let_def T_FILE_def T_DIR_def)
qed

lemma lookup_reading_ok:
  assumes inv: "inv s" and h: "held s = {}" and tree: "tree_ok (fs s)" and p: "p < 2 ^ 31"
  shows "\<exists>s' r. fuseserver_lookup ops p name e ino s = Some (s', r) \<and> inv s' \<and> fs s' = fs s \<and> held s' = {}"
proof (cases "ftype (fs s p) = T_DIR")
  case True
  then obtain es where es: "fs s p = Some (T_DIR, dir_string es)" "dir_ok es" "\<forall>(n, j) \<in> set es. j < 2 ^ 31"
    using tree_okD(2) [OF tree] by blast
  obtain s1 where s1: "nlock_lookup ops p name False ino s
      = Some (s1, if map_of es name = None then yfs_NOENT else yfs_OK, map_of es name \<noteq> None,
              case map_of es name of None \<Rightarrow> ino | Some i \<Rightarrow> i)" "inv s1" "fs s1 = fs s" "held s1 = held s"
    using lookup_ok [OF inv p es(1,2), of name False ino] by blast
  show ?thesis
  proof (cases "map_of es name")
    case None
    then show ?thesis
      using s1 h by (simp add: fuseserver_lookup_def lookup_def)
  next
    case (Some j)
    then have "j < 2 ^ 31" "j \<notin> held s1"
      using es(3) map_of_SomeD [OF Some] s1(4) h by auto
    then show ?thesis
      using fuse_getattr_ok [OF s1(2), of j] s1 h Some by (auto simp: fuseserver_lookup_def lookup_def)
  qed
next
  case False
  then show ?thesis
    using lookup_not_dir [OF inv p, of name False ino] h by (auto simp: fuseserver_lookup_def lookup_def)
qed

lemma readdir_reading_ok:
  assumes inv: "inv s" and h: "held s = {}" and tree: "tree_ok (fs s)" and p: "p < 2 ^ 31"
  shows "\<exists>s' r. fuseserver_readdir f d ops p sz off s = Some (s', r) \<and> inv s' \<and> fs s' = fs s \<and> held s' = {}"
proof -
  obtain s1 where s1: "isdir ops p s = Some (s1, ftype (fs s p) = T_DIR)" "inv s1" "fs s1 = fs s" "held s1 = {}"
    using locked_isdir_ok [OF inv p] h by auto
  show ?thesis
  proof (cases "ftype (fs s p) = T_DIR")
    case True
    then obtain es where es: "fs s1 p = Some (T_DIR, dir_string es)" "dir_ok es"
      using tree_okD(2) [OF tree] s1(3) by auto
    have p1: "p \<notin> held s1"
      using s1(4) by simp
    show ?thesis
      using readdir_ok [OF s1(2) p p1 es, of "[]"] s1 True by (auto simp: fuseserver_readdir_def Let_def)
  next
    case False
    then show ?thesis
      using s1 by (simp add: fuseserver_readdir_def)
  qed
qed

lemma reading_ok:
  assumes inv: "inv s" and h: "held s = {}" and tree: "tree_ok (fs s)" and q: "reading q"
  shows "\<exists>s' r. fuseserver_oper l ops q s = Some (s', r) \<and> inv s' \<and> fs s' = fs s \<and> held s' = {}"
proof (cases q)
  case (Getattr i)
  then show ?thesis
    using fuse_getattr_ok [OF inv, of i] q h by (auto simp: fuseserver_getattr_def)
next
  case (Readdir i sz off)
  then show ?thesis
    using readdir_reading_ok [OF inv h tree] q by simp
next
  case (Lookup p n)
  then show ?thesis
    using lookup_reading_ok [OF inv h tree] q by simp
next
  case (Read i sz off)
  then show ?thesis
    using read_ok [OF inv, of i off sz "[]"] tree_okD(1) [OF tree, of i] q h by (auto simp: fuseserver_read_def)
next
  case (Readlink i)
  then show ?thesis
    using readlink_ok [OF inv, of i "[]"] q h by (auto simp: fuseserver_readlink_def)
qed (use inv h q in \<open>simp_all add: fuseserver_statfs_def fuseserver_open_def\<close>)

lemma reading_session_ok:
  assumes "inv s" and "held s = {}" and "tree_ok (fs s)" and "\<forall>q \<in> set qs. reading q"
  shows "\<exists>s' rs. fuse_session l ops qs s = Some (s', rs) \<and> length rs = length qs \<and> inv s' \<and> fs s' = fs s \<and> held s' = {}"
  using assms
proof (induction qs arbitrary: s)
  case (Cons q qs)
  obtain s1 r where s1: "fuseserver_oper l ops q s = Some (s1, r)" "inv s1" "fs s1 = fs s" "held s1 = {}"
    using reading_ok [OF Cons.prems(1-3), of q l] Cons.prems(4) by auto
  then show ?case
    using Cons.IH [of s1] Cons.prems by auto
qed simp

lemma fuse_create_ok:
  assumes inv: "inv s" and p: "p < 2 ^ 31" "fs s p = Some (T_DIR, dir_string es)" and ok: "dir_ok es"
    and name: "name_ok name" "map_of es name = None" and k: "1 \<le> k" "k < INODE_NUM" "fs s k = None"
    and fits: "length name + 6 \<le> BLOCK_SIZE" "length (dir_string es) + length name + 6 \<le> NDIRECT * BLOCK_SIZE" "1 \<le> free s"
    and h: "held s = {}"
  shows "\<exists>s' j e'. fuseserver_create ops p name e ino s = Some (s', Reply_create e') \<and> e_ino e' = j
    \<and> stat_of j (Some (T_FILE, [])) (e_attr e') \<and> j < INODE_NUM \<and> fs s j = None
    \<and> inv s' \<and> held s' = {} \<and> dir_ok (es @ [(name, j)])
    \<and> fs s' = (fs s)(j \<mapsto> (T_FILE, []), p \<mapsto> (T_DIR, dir_string (es @ [(name, j)])))"
proof -
  have hp: "p \<notin> held s"
    using h by simp
  obtain s1 j where c: "create ops p name ino s = Some (s1, yfs_OK, j)" "j < INODE_NUM" "fs s j = None" "inv s1"
    "held s1 = held s" "dir_ok (es @ [(name, j)])"
    "fs s1 = (fs s)(j \<mapsto> (T_FILE, []), p \<mapsto> (T_DIR, dir_string (es @ [(name, j)])))"
    using create_ok [OF inv p ok name k fits hp, of ino] by blast
  have "j \<notin> held s1" "j < 2 ^ 31" "fs s1 j = Some (T_FILE, [])"
    using c(2,3,5,7) h p(2) INODE_NUM_small by auto
  then show ?thesis
    using fuse_getattr_ok [OF c(4), of j] c h by (auto simp: fuseserver_create_def fuseserver_createhelper_def)
qed

end

text \<open>Requests that make a file, a directory or a link under a new name in \<open>p\<close>.\<close>

fun making :: "nat \<Rightarrow> string \<Rightarrow> request \<Rightarrow> bool" where
  "making p name (Create p' n) \<longleftrightarrow> p' = p \<and> n = name"
| "making p name (Mknod p' n) \<longleftrightarrow> p' = p \<and> n = name"
| "making p name (Mkdir p' n) \<longleftrightarrow> p' = p \<and> n = name"
| "making p name (Symlink t p' n) \<longleftrightarrow> p' = p \<and> n = name \<and> length t \<le> BLOCK_SIZE"
| "making p name _ \<longleftrightarrow> False"

lemma tree_ok_new_entry:
  assumes "tree_ok f" and p: "f p = Some (T_DIR, dir_string es)" and ok: "dir_ok (es @ [(name, j)])"
    and j: "j < INODE_NUM" "j \<noteq> p" and new: "t = T_DIR \<longrightarrow> c = []" "length c < 2 ^ 32"
    and small: "length (dir_string es) + length name + 6 \<le> NDIRECT * BLOCK_SIZE" and es: "\<forall>(n, i) \<in> set es. i < 2 ^ 31"
  shows "tree_ok (f(j \<mapsto> (t, c), p \<mapsto> (T_DIR, dir_string (es @ [(name, j)]))))"
proof -
  have "length (dir_string (es @ [(name, j)])) \<le> NDIRECT * BLOCK_SIZE"
    using length_add_entry [of "dir_string es" name j] length_filename_inode [OF j(1)] small by (simp add: add_entry_dir_string)
  then have "length (dir_string (es @ [(name, j)])) < 2 ^ 32"
    by (simp add: NDIRECT_def BLOCK_SIZE_def)
  moreover have "\<exists>es'. dir_string (es @ [(name, j)]) = dir_string es' \<and> dir_ok es' \<and> (\<forall>(n, i) \<in> set es'. i < 2 ^ 31)"
    using ok es INODE_NUM_small(1) [OF j(1)] by (intro exI [of _ "es @ [(name, j)]"]) auto
  moreover have "\<exists>es'. [] = dir_string es' \<and> dir_ok es' \<and> (\<forall>(n, i) \<in> set es'. i < 2 ^ 31)"
    by (intro exI [of _ "[]"]) (simp add: dir_ok_Nil)
  ultimately show ?thesis
    using assms(1) new unfolding tree_ok_def by (simp del: dir_string.simps)
qed

context extent_store
begin

lemma createhelper_ok:
  assumes "(if type = T_FILE then create ops p name ino s else mkdir ops p name ino s) = Some (s1, yfs_OK, j)"
    and "inv s1" and "held s1 = {}" and "j < INODE_NUM"
  shows "\<exists>s' e'. fuseserver_createhelper ops p name e type ino s = Some (s', yfs_OK, e') \<and> inv s' \<and> fs s' = fs s1 \<and> held s' = {}"
  using fuse_getattr_ok [OF assms(2) INODE_NUM_small(1) [OF assms(4)]] assms(1,3) by (auto simp: fuseserver_createhelper_def)

lemma making_ok:
  assumes inv: "inv s" and tree: "tree_ok (fs s)" and p: "p < 2 ^ 31" "fs s p = Some (T_DIR, dir_string es)" and ok: "dir_ok es"
    and es: "\<forall>(n, i) \<in> set es. i < 2 ^ 31"
    and name: "name_ok name" "map_of es name = None" and k: "1 \<le> k" "k < INODE_NUM" "fs s k = None"
    and fits: "length name + 6 \<le> BLOCK_SIZE" "length (dir_string es) + length name + 6 \<le> NDIRECT * BLOCK_SIZE" "2 \<le> free s"
    and h: "held s = {}" and q: "making p name q"
  shows "\<exists>s' r. fuseserver_oper l ops q s = Some (s', r) \<and> inv s' \<and> held s' = {} \<and> tree_ok (fs s')"
proof -
  have f1: "1 \<le> free s" and hp: "p \<notin> held s"
    using fits h by simp_all
  note new = tree_ok_new_entry [OF tree p(2) _ _ _ _ _ fits(2) es]
  obtain s1 j where c: "create ops p name (stack_inum l) s = Some (s1, yfs_OK, j)" "inv s1" "held s1 = {}" "j < INODE_NUM" "tree_ok (fs s1)"
    using create_ok [OF inv p ok name k fits(1,2) f1 hp, of "stack_inum l"] new [of _ T_FILE "[]"] h p(2) by fastforce
  obtain s2 i where m: "mkdir ops p name (stack_inum l) s = Some (s2, yfs_OK, i)" "inv s2" "held s2 = {}" "i < INODE_NUM" "tree_ok (fs s2)"
    using mkdir_ok [OF inv p ok name k fits(1,2) f1 hp, of "stack_inum l"] new [of _ T_DIR "[]"] h p(2) by fastforce
  show ?thesis
  proof (cases q)
    case (Create p' n)
    then show ?thesis
      using q createhelper_ok [of T_FILE p name "stack_inum l" s s1 j "stack_entry l"] c by (auto simp: fuseserver_create_def)
  next
    case (Mknod p' n)
    then show ?thesis
      using q createhelper_ok [of T_FILE p name "stack_inum l" s s1 j "stack_entry l"] c by (auto simp: fuseserver_mknod_def)
  next
    case (Mkdir p' n)
    then show ?thesis
      using q createhelper_ok [of T_DIR p name "stack_inum l" s s2 i "(stack_entry l)\<lparr>e_attr_timeout := 0, e_entry_timeout := 0, e_generation := 0\<rparr>"] m by (auto simp: fuseserver_mkdir_def T_FILE_def T_DIR_def Let_def)
  next
    case (Symlink t p' n)
    then have t: "length t \<le> BLOCK_SIZE" "p' = p" "n = name"
      using q by simp_all
    then have tt: "length t \<le> NDIRECT * BLOCK_SIZE" "block_count (length t) + 1 \<le> free s"
      using fits(3) block_count_le_iff [of "length t" 1] by (simp_all add: NDIRECT_def)
    obtain s3 i where s3: "createlink ops p name t (stack_inum l) s = Some (s3, yfs_OK, i)" "inv s3" "held s3 = {}" "i < INODE_NUM"
      "i \<noteq> p" "dir_ok (es @ [(name, i)])"
      "fs s3 = (fs s)(p \<mapsto> (T_DIR, dir_string (es @ [(name, i)])), i \<mapsto> (T_SYMLINK, t))"
      using createlink_ok [OF inv p ok name k fits(1,2) tt hp, of "stack_inum l"] h by auto
    have "tree_ok (fs s3)"
      using new [of i T_SYMLINK t] s3(4-7) t(1) by (simp add: fun_upd_twist T_SYMLINK_def T_DIR_def BLOCK_SIZE_def)
    then show ?thesis
      using fuse_getattr_ok [OF s3(2) INODE_NUM_small(1) [OF s3(4)]] s3(1,3) t Symlink
      by (auto simp: fuseserver_createlink_def)
  qed (use q in simp_all)
qed

end

section \<open>Listings\<close>

text \<open>The bytes of a listing: each entry carries the offset behind it.\<close>

fun dirents :: "(nat \<Rightarrow> nat) \<Rightarrow> dirent_fun \<Rightarrow> nat \<Rightarrow> (string \<times> nat) list \<Rightarrow> string" where
  "dirents f d pos [] = []"
| "dirents f d pos ((n, i) # es) = d n i (pos + f (length n)) @ dirents f d (pos + f (length n)) es"

lemma dirbuf_dirents:
  assumes "\<forall>n i pos. length (d n i pos) = f (length n)" and "dir_ok es" and "length (db_p b) = db_size b"
  shows "db_p (foldl (\<lambda>b (name, inum). dirbuf_add f d (c_string name) inum b) b es) = db_p b @ dirents f d (db_size b) es \<and>
    db_size (foldl (\<lambda>b (name, inum). dirbuf_add f d (c_string name) inum b) b es) = db_size b + length (dirents f d (db_size b) es)"
  using assms(2,3)
proof (induction es arbitrary: b)
  case (Cons x es)
  obtain n i where x: "x = (n, i)"
    by (cases x)
  let ?b = "dirbuf_add f d (c_string n) i b"
  have "name_ok n" "dir_ok es"
    using Cons.prems(1) x by (auto simp: dir_ok_def)
  moreover from this have "db_p ?b = db_p b @ d n i (db_size b + f (length n))" "db_size ?b = db_size b + f (length n)"
    using Cons.prems(2) by (simp_all add: dirbuf_add_def c_string_name)
  ultimately show ?case
    using Cons.IH [of ?b] Cons.prems(2) assms(1) x by simp
qed simp

lemma fuse_readdir_ok:
  assumes "sys_inv s" and "sys_held s = {}" and "p < 2 ^ 31" and "sys_fs s p = Some (T_DIR, dir_string es)" and ok: "dir_ok es"
    and d: "\<forall>n i pos. length (d n i pos) = f (length n)" and off: "0 \<le> off" "off < 2 ^ 63"
  shows "\<exists>s'. fuseserver_readdir f d (local_ops envs clt) p sz off s = Some (s', Reply_buf (take sz (drop (nat off) (dirents f d 0 es))))
    \<and> sys_inv s' \<and> sys_fs s' = sys_fs s \<and> sys_held s' = {}"
proof -
  obtain s1 where s1: "isdir (local_ops envs clt) p s = Some (s1, True)" "sys_inv s1" "sys_fs s1 = sys_fs s" "sys_held s1 = {}"
    using yfs.locked_isdir_ok [OF assms(1,3), where envs = envs and clt = clt] assms(2,4) by auto
  have p1: "p \<notin> sys_held s1" "sys_fs s1 p = Some (T_DIR, dir_string es)"
    using s1(3,4) assms(4) by simp_all
  obtain s2 where s2: "readdir (local_ops envs clt) p [] s1 = Some (s2, yfs_OK, es)" "sys_inv s2" "sys_fs s2 = sys_fs s" "sys_held s2 = {}"
    using yfs.readdir_ok [OF s1(2) assms(3) p1 ok, where envs = envs and clt = clt and l = "[]"] s1(3,4) by auto
  have "size_of_off off = nat off"
    using off by (simp add: size_of_off_def)
  then have "reply_buf_limited (dirents f d 0 es) (length (dirents f d 0 es)) off sz = Reply_buf (take sz (drop (nat off) (dirents f d 0 es)))"
    by (simp add: reply_buf_limited_def min_def)
  then show ?thesis
    using s1(1) s2 dirbuf_dirents [OF d ok, of "\<lparr>db_p = [], db_size = 0\<rparr>"] by (simp add: fuseserver_readdir_def Let_def)
qed

section \<open>Theorems\<close>



definition fuse_lib0 :: fuse_lib where
  "fuse_lib0 = \<lparr>set_attr_size = 8, lib_dirent_size = (\<lambda>n. n), lib_dirent = (\<lambda>n i pos. n), stack_entry = entry0 stat0, stack_inum = 0\<rparr>"


text \<open>
  The kernel creates a file and looks it up: both replies carry the same unused inode number and the attributes of an
  empty regular file, and the directory has one more entry.
\<close>

lemma fuse_create_then_lookup:
  assumes "sys_inv s" and p: "p < 2 ^ 31" and "sys_fs s p = Some (T_DIR, dir_string es)" and "dir_ok es"
    and "name_ok name" and new: "map_of es name = None" and "1 \<le> k" and "k < INODE_NUM" and "sys_fs s k = None"
    and "length name + 6 \<le> BLOCK_SIZE" and "length (dir_string es) + length name + 6 \<le> NDIRECT * BLOCK_SIZE"
    and "1 \<le> sys_free s" and h: "sys_held s = {}"
  shows "\<exists>s' j e e'. fuse_session l (local_ops envs clt) [Create p name, Lookup p name] s = Some (s', [Reply_create e, Reply_entry e'])
    \<and> e_ino e = j \<and> e_ino e' = j \<and> sys_fs s j = None
    \<and> stat_of j (Some (T_FILE, [])) (e_attr e) \<and> stat_of j (Some (T_FILE, [])) (e_attr e')
    \<and> sys_fs s' = (sys_fs s)(j \<mapsto> (T_FILE, []), p \<mapsto> (T_DIR, dir_string (es @ [(name, j)]))) \<and> sys_held s' = {}"
proof -
  obtain s1 j e where c: "fuseserver_create (local_ops envs clt) p name (stack_entry l) (stack_inum l) s = Some (s1, Reply_create e)"
    "e_ino e = j" "stat_of j (Some (T_FILE, [])) (e_attr e)" "j < INODE_NUM" "sys_fs s j = None" "sys_inv s1" "sys_held s1 = {}"
    "dir_ok (es @ [(name, j)])" "sys_fs s1 = (sys_fs s)(j \<mapsto> (T_FILE, []), p \<mapsto> (T_DIR, dir_string (es @ [(name, j)])))"
    using yfs.fuse_create_ok [OF assms, where envs = envs and clt = clt and e = "stack_entry l" and ino = "stack_inum l"] by blast
  have "sys_fs s1 p = Some (T_DIR, dir_string (es @ [(name, j)]))"
    using c(9) by simp
  then obtain s2 where s2: "nlock_lookup (local_ops envs clt) p name False (stack_inum l) s1 = Some (s2, yfs_OK, True, j)" "sys_inv s2"
    "sys_fs s2 = sys_fs s1" "sys_held s2 = {}"
    using yfs.lookup_ok [OF c(6) p _ c(8), where envs = envs and clt = clt and name = name and found = False and ino = "stack_inum l"]
      map_of_entry [OF new, of j "[]"] c(7) by auto
  have "j < 2 ^ 31" "j \<notin> sys_held s2" "sys_fs s2 j = Some (T_FILE, [])"
    using INODE_NUM_small(1) [OF c(4)] s2(3,4) c(5,9) assms(3) by auto
  then show ?thesis
    using yfs.fuse_getattr_ok [OF s2(2), where envs = envs and clt = clt and i = j] c s2 by (auto simp: fuseserver_lookup_def lookup_def)
qed

lemma fuse_create_then_lookup_witness:
  "\<exists>s' e e'. fuse_session fuse_lib0 ops0 [Create 1 ''a'', Lookup 1 ''a''] sys0 = Some (s', [Reply_create e, Reply_entry e']) \<and> e_ino e = e_ino e'"
  using fuse_create_then_lookup [OF sys0_facts(1) sys0_room(4) _ dir_ok_Nil _ _ sys0_room(1-3), of "''a''" fuse_lib0 "\<lambda>_. env0" 0]
  by (auto simp: sys0_facts ops0_def name_ok_def NDIRECT_def BLOCK_SIZE_def)



text \<open>
  A write behind the end of a file fills the hole with zeroes, and the reply to the kernel counts the hole: it says that more
  bytes were written than the kernel has sent.
\<close>

lemma fuse_write_overcount:
  assumes inv: "sys_inv s" and i: "i < 2 ^ 31" "i \<notin> sys_held s" "sys_fs s i = Some (t, c)"
    and off: "int (length c) < off" "off < 2 ^ 63" and sz: "sz < 2 ^ 31"
    and fits: "nat off + sz \<le> NDIRECT * BLOCK_SIZE" "block_count (nat off + sz) - block_count (length c) \<le> sys_free s"
  shows "\<exists>s' n. fuseserver_write (local_ops envs clt) i buf sz off s = Some (s', Reply_write n)
    \<and> n = nat off - length c + sz \<and> sz < n
    \<and> sys_fs s' = (sys_fs s)(i \<mapsto> (t, c @ replicate (nat off - length c) (CHR 0x00) @ map buf [0..<sz]))"
proof -
  let ?c = "patch c (nat off) (map buf [0..<sz])"
  have c: "?c = c @ replicate (nat off - length c) (CHR 0x00) @ map buf [0..<sz]" "length ?c = nat off + sz"
    using off by (simp_all add: patch_def nat_less_iff zless_nat_eq_int_zless)
  have "0 \<le> off"
    using off(1) by simp
  from yfs.write_ok [OF inv i this off(2) sz refl, where envs = envs and clt = clt and data = buf] fits c off(1)
  show ?thesis
    by (auto simp: fuseserver_write_def zless_nat_eq_int_zless)
qed

theorem fuse_write_overcount_witness:
  "\<exists>s'. fuseserver_write ops0 1 (\<lambda>_. CHR ''x'') 1 5 sys0 = Some (s', Reply_write 6)"
  using fuse_write_overcount [OF sys0_facts(1) sys0_room(4), of T_DIR "[]" 5 1 "\<lambda>_. env0" 0 "\<lambda>_. CHR ''x''"]
  by (auto simp: sys0_facts ops0_def NDIRECT_def BLOCK_SIZE_def block_count_def)

text \<open>
  C30. A listing is read page by page: the replies to two requests, the second of which starts where the first one ended, are consecutive
  parts of the listing of all entries in their order, and nothing is lost between them. Of the library this uses that an entry takes the
  space it says.
\<close>

theorem fuse_readdir_pages:
  assumes inv: "sys_inv s" and h: "sys_held s = {}" and p: "p < 2 ^ 31" "sys_fs s p = Some (T_DIR, dir_string es)" and ok: "dir_ok es"
    and d: "\<forall>n i pos. length (lib_dirent l n i pos) = lib_dirent_size l (length n)"
    and off: "0 \<le> off" "off + int n < 2 ^ 63"
  shows "\<exists>s' a b. fuse_session l (local_ops envs clt) [Readdir p n off, Readdir p m (off + int n)] s = Some (s', [Reply_buf a, Reply_buf b])
    \<and> a @ b = take (n + m) (drop (nat off) (dirents (lib_dirent_size l) (lib_dirent l) 0 es)) \<and> sys_fs s' = sys_fs s"
proof -
  let ?d = "dirents (lib_dirent_size l) (lib_dirent l) 0 es"
  have o: "off < 2 ^ 63" "0 \<le> off + int n"
    using off by simp_all
  obtain s1 where s1: "fuseserver_readdir (lib_dirent_size l) (lib_dirent l) (local_ops envs clt) p n off s = Some (s1, Reply_buf (take n (drop (nat off) ?d)))"
    "sys_inv s1" "sys_fs s1 = sys_fs s" "sys_held s1 = {}"
    using fuse_readdir_ok [OF inv h p ok d off(1) o(1)] by blast
  have p1: "sys_fs s1 p = Some (T_DIR, dir_string es)"
    using s1(3) p(2) by simp
  obtain s2 where s2: "fuseserver_readdir (lib_dirent_size l) (lib_dirent l) (local_ops envs clt) p m (off + int n) s1
      = Some (s2, Reply_buf (take m (drop (nat (off + int n)) ?d)))" "sys_fs s2 = sys_fs s1"
    using fuse_readdir_ok [OF s1(2,4) p(1) p1 ok d o(2) off(2)] by blast
  have "nat (off + int n) = n + nat off"
    using off by simp
  then have "take n (drop (nat off) ?d) @ take m (drop (nat (off + int n)) ?d) = take (n + m) (drop (nat off) ?d)"
    by (simp add: take_add)
  then show ?thesis
    using s1 s2 by simp
qed

theorem fuse_readdir_pages_witness:
  "\<exists>s' a b. fuse_session fuse_lib0 ops0 [Readdir 1 4 0, Readdir 1 100 4] sys0 = Some (s', [Reply_buf a, Reply_buf b])"
  using fuse_readdir_pages [OF sys0_facts(1,3) sys0_room(4) _ dir_ok_Nil, of fuse_lib0 0 4 "\<lambda>_. env0" 0 100]
  by (auto simp: sys0_facts ops0_def fuse_lib0_def)

text \<open>
  A request for the attributes of an inode that does not exist is not refused: the reply is that of an empty symbolic link.
\<close>

lemma fuse_getattr_missing:
  assumes "sys_inv s" and "i < 2 ^ 31" and "i \<notin> sys_held s" and "sys_fs s i = None"
  shows "\<exists>s' st. fuseserver_getattr (local_ops envs clt) i s = Some (s', Reply_attr st 0) \<and> st_ino st = i
    \<and> st_mode st = S_IFLNK OR rwx_mode \<and> st_size st = 0"
  using yfs.fuse_getattr_ok [OF assms(1-3), where envs = envs and clt = clt] assms(4)
  by (auto simp: fuseserver_getattr_def stat_of_def mode_of_def T_FILE_def T_DIR_def)

lemma fuse_getattr_missing_witness: "\<exists>s' st. fuseserver_getattr ops0 7 sys0 = Some (s', Reply_attr st 0) \<and> st_mode st = S_IFLNK OR rwx_mode"
  using fuse_getattr_missing [OF sys0_facts(1), of 7 "\<lambda>_. env0" 0] by (auto simp: sys0_facts ops0_def)

text \<open>
  \<open>unlink\<close> of a directory is not refused: the directory and its entry are removed although it has entries, and the files in it
  keep their inodes without a name.
\<close>

lemma fuse_unlink_directory:
  assumes "sys_inv s" and "p < 2 ^ 31" and "p \<notin> sys_held s" and "sys_fs s p = Some (T_DIR, dir_string (pre @ (n, i) # post))"
    and "dir_ok (pre @ (n, i) # post)" and "map_of pre n = None"
    and "find_str n (dir_string (pre @ (n, i) # post)) = Some (entry_pos pre)"
    and "length (dir_string (pre @ (n, i) # post)) \<le> NDIRECT * BLOCK_SIZE"
    and "i < 2 ^ 31" and "i \<noteq> p" and "i \<notin> sys_held s" and "sys_fs s i = Some (T_DIR, dir_string sub)"
    and "length (dir_string sub) mod BLOCK_SIZE \<noteq> 0"
  shows "\<exists>s'. fuseserver_unlink (local_ops envs clt) p n s = Some (s', Reply_err Success)
    \<and> sys_fs s' = (sys_fs s)(p \<mapsto> (T_DIR, dir_string (pre @ post)), i := None)"
  using yfs.unlink_ok [OF assms, where envs = envs and clt = clt] by (auto simp: fuseserver_unlink_def)

text \<open>A full disk with the directory \<open>d\<close> in the root directory and an entry in it.\<close>

lemma sample_subdir:
  obtains s where "sys_inv s" "sys_held s = {}" "sys_fs s 1 = Some (T_DIR, dir_string [(''d'', 2)])"
    "sys_fs s 2 = Some (T_DIR, dir_string [(''f'', 3)])" "sys_fs s 3 = Some (T_DIR, [])"
proof -
  have n: "1 < INODE_NUM" "2 < INODE_NUM" "3 < INODE_NUM" by (simp_all add: INODE_NUM_def)
  have l: "length (dir_string [(''d'', 2)]) \<le> BLOCK_SIZE" "length (dir_string [(''f'', 3)]) \<le> BLOCK_SIZE" by code_simp+
  obtain im1 where 1: "fs_inv im1" "ext_fs im1 = (ext_fs im_full)(1 \<mapsto> (T_DIR, dir_string [(''d'', 2)]))" "room im_full \<le> room im1 + 1"
    by (rule sample_put [OF im_full_facts(1) _ _ l(1), of 1 T_DIR]) (simp_all add: im_full_facts(2,3) n(1) [unfolded One_nat_def])
  obtain im2 where 2: "fs_inv im2" "ext_fs im2 = (ext_fs im1)(2 \<mapsto> (T_DIR, dir_string [(''f'', 3)]))"
    by (rule sample_put [OF 1(1) _ _ l(2), of 2 T_DIR]) (use 1(3) in \<open>simp_all add: 1(2) im_full_facts(2,3) n\<close>)
  show thesis
    using that [of "\<lparr>ext = \<lparr>x_im = im2, x_calls = 0\<rparr>, lks = \<lparr>l_srv = new_lock_server, l_calls = 0\<rparr>\<rparr>"] 2(1)
    by (simp add: sys_defs 2(2) 1(2) im_full_facts(2) n del: dir_string.simps)
qed

lemma fuse_unlink_directory_witness:
  "\<exists>s s'. sys_fs s 2 = Some (T_DIR, dir_string [(''f'', 3)]) \<and> fuseserver_unlink ops0 1 ''d'' s = Some (s', Reply_err Success)
     \<and> sys_fs s' 2 = None \<and> sys_fs s' 3 = Some (T_DIR, [])"
proof -
  obtain s where s: "sys_inv s" "sys_held s = {}" "sys_fs s 1 = Some (T_DIR, dir_string [(''d'', 2)])"
    "sys_fs s 2 = Some (T_DIR, dir_string [(''f'', 3)])" "sys_fs s 3 = Some (T_DIR, [])"
    by (rule sample_subdir)
  have f: "find_str ''d'' (dir_string ([] @ (''d'', 2) # [])) = Some (entry_pos [])" "length (dir_string ([] @ (''d'', 2) # [])) = 3"
    "length (dir_string [(''f'', 3)]) = 3"
    by code_simp+
  have "\<exists>s'. fuseserver_unlink (local_ops (\<lambda>_. env0) 0) 1 ''d'' s = Some (s', Reply_err Success)
      \<and> sys_fs s' = (sys_fs s)(1 \<mapsto> (T_DIR, dir_string ([] @ [])), 2 := None)"
    by (rule fuse_unlink_directory [where sub = "[(''f'', 3)]", OF s(1) sys0_room(4) _ _ _ _ f(1)])
      (simp_all only: append_Nil s f(2) [unfolded append_Nil] f(3), simp_all add: dir_ok_def name_ok_def NDIRECT_def BLOCK_SIZE_def del: dir_string.simps)
  then show ?thesis
    using s(4,5) by (auto simp: ops0_def)
qed

end
