(* ===== verification/Fifo.thy ===== *)
theory Fifo
  imports Yfs_Prelude
begin

text \<open>
  The bounded queue between the threads of the RPC library, \<open>src/yfs/rpc/fifo.h\<close>. \<open>enq\<close> and \<open>deq\<close> hold the
  mutex for one pass of their loops, up to the wait on a condition variable; such a pass is atomic. The step
  relation has any number of producers and consumers, asleep on a condition variable or woken and about
  to run; a signal wakes one sleeper, and sleepers also wake up without one. \<open>ins\<close> and \<open>outs\<close> record what
  was put in and taken out.
\<close>

record 'a fifo =
  fifo_q :: "'a list"
  fifo_max :: nat

definition new_fifo :: "nat \<Rightarrow> 'a fifo" where
  "new_fifo limit = \<lparr>fifo_q = [], fifo_max = limit\<rparr>"

text \<open>The result is a \<open>bool\<close>, not the number of elements.\<close>

definition fifo_size :: "'a fifo \<Rightarrow> bool" where
  "fifo_size f \<longleftrightarrow> length (fifo_q f) \<noteq> 0"

datatype enq_result = Enqueued | Wait_space | Refused

definition enq_pass :: "'a \<Rightarrow> bool \<Rightarrow> 'a fifo \<Rightarrow> 'a fifo \<times> enq_result" where
  "enq_pass e blocking f =
     (if fifo_max f = 0 \<or> length (fifo_q f) < fifo_max f then (f\<lparr>fifo_q := fifo_q f @ [e]\<rparr>, Enqueued)
      else if blocking then (f, Wait_space) else (f, Refused))"

text \<open>\<open>None\<close> is the wait; otherwise the element, and whether \<open>has_space_c_\<close> is signalled.\<close>

definition deq_pass :: "'a fifo \<Rightarrow> ('a fifo \<times> 'a \<times> bool) option" where
  "deq_pass f =
     (case fifo_q f of
        [] \<Rightarrow> None
      | e # q \<Rightarrow> Some (f\<lparr>fifo_q := q\<rparr>, e, fifo_max f \<noteq> 0 \<and> length q < fifo_max f))"

section \<open>Threads\<close>

record 'a fifo_sys =
  fifo_of :: "'a fifo"
  enq_asleep :: "'a list"
  enq_awake :: "'a list"
  deq_asleep :: nat
  deq_awake :: nat
  ins :: "'a list"
  outs :: "'a list"

definition fifo_init :: "nat \<Rightarrow> 'a fifo_sys" where
  "fifo_init limit = \<lparr>fifo_of = new_fifo limit, enq_asleep = [], enq_awake = [], deq_asleep = 0, deq_awake = 0, ins = [], outs = []\<rparr>"

definition signal_non_empty :: "'a fifo_sys \<Rightarrow> 'a fifo_sys" where
  "signal_non_empty s =
     (if deq_asleep s = 0 then s else s\<lparr>deq_asleep := deq_asleep s - 1, deq_awake := deq_awake s + 1\<rparr>)"

text \<open>Any of the sleepers may be the one that is woken.\<close>

inductive signal_has_space :: "bool \<Rightarrow> 'a fifo_sys \<Rightarrow> 'a fifo_sys \<Rightarrow> bool" where
  not_sent: "signal_has_space False s s"
| nobody: "enq_asleep s = [] \<Longrightarrow> signal_has_space True s s"
| wakes: "e \<in> set (enq_asleep s) \<Longrightarrow>
    signal_has_space True s (s\<lparr>enq_asleep := remove1 e (enq_asleep s), enq_awake := e # enq_awake s\<rparr>)"

inductive fifo_step :: "'a fifo_sys \<Rightarrow> 'a fifo_sys \<Rightarrow> bool" where
  enq_done: "enq_pass e b (fifo_of s) = (f, Enqueued) \<Longrightarrow>
    fifo_step s (signal_non_empty (s\<lparr>fifo_of := f, ins := ins s @ [e]\<rparr>))"
| enq_refused: "enq_pass e b (fifo_of s) = (f, Refused) \<Longrightarrow> fifo_step s (s\<lparr>fifo_of := f\<rparr>)"
| enq_waits: "enq_pass e True (fifo_of s) = (f, Wait_space) \<Longrightarrow>
    fifo_step s (s\<lparr>fifo_of := f, enq_asleep := e # enq_asleep s\<rparr>)"
| enq_woken_done: "e \<in> set (enq_awake s) \<Longrightarrow> enq_pass e True (fifo_of s) = (f, Enqueued) \<Longrightarrow>
    fifo_step s (signal_non_empty (s\<lparr>fifo_of := f, enq_awake := remove1 e (enq_awake s), ins := ins s @ [e]\<rparr>))"
| enq_woken_waits: "e \<in> set (enq_awake s) \<Longrightarrow> enq_pass e True (fifo_of s) = (f, Wait_space) \<Longrightarrow>
    fifo_step s (s\<lparr>fifo_of := f, enq_awake := remove1 e (enq_awake s), enq_asleep := e # enq_asleep s\<rparr>)"
| enq_spurious: "e \<in> set (enq_asleep s) \<Longrightarrow>
    fifo_step s (s\<lparr>enq_asleep := remove1 e (enq_asleep s), enq_awake := e # enq_awake s\<rparr>)"
| deq_done: "deq_pass (fifo_of s) = Some (f, e, sig) \<Longrightarrow> signal_has_space sig (s\<lparr>fifo_of := f, outs := outs s @ [e]\<rparr>) s' \<Longrightarrow>
    fifo_step s s'"
| deq_waits: "deq_pass (fifo_of s) = None \<Longrightarrow> fifo_step s (s\<lparr>deq_asleep := deq_asleep s + 1\<rparr>)"
| deq_woken_done: "0 < deq_awake s \<Longrightarrow> deq_pass (fifo_of s) = Some (f, e, sig) \<Longrightarrow>
    signal_has_space sig (s\<lparr>fifo_of := f, deq_awake := deq_awake s - 1, outs := outs s @ [e]\<rparr>) s' \<Longrightarrow> fifo_step s s'"
| deq_woken_waits: "0 < deq_awake s \<Longrightarrow> deq_pass (fifo_of s) = None \<Longrightarrow>
    fifo_step s (s\<lparr>deq_awake := deq_awake s - 1, deq_asleep := deq_asleep s + 1\<rparr>)"
| deq_spurious: "0 < deq_asleep s \<Longrightarrow> fifo_step s (s\<lparr>deq_asleep := deq_asleep s - 1, deq_awake := deq_awake s + 1\<rparr>)"

inductive fifo_reach :: "nat \<Rightarrow> 'a fifo_sys \<Rightarrow> bool" for limit where
  init: "fifo_reach limit (fifo_init limit)"
| step: "fifo_reach limit s \<Longrightarrow> fifo_step s s' \<Longrightarrow> fifo_reach limit s'"

inductive_cases signal_has_spaceE: "signal_has_space sig s s'"

section \<open>The invariant\<close>

text \<open>
  Nothing is lost or reordered, the bound holds, and there are enough threads awake: as long as a consumer
  sleeps, one is awake for each element, and as long as a producer sleeps, one is awake for each free place.
\<close>

definition fifo_inv :: "nat \<Rightarrow> 'a fifo_sys \<Rightarrow> bool" where
  "fifo_inv limit s \<longleftrightarrow>
     fifo_max (fifo_of s) = limit \<and> ins s = outs s @ fifo_q (fifo_of s) \<and> (limit \<noteq> 0 \<longrightarrow> length (fifo_q (fifo_of s)) \<le> limit) \<and>
     (deq_asleep s \<noteq> 0 \<longrightarrow> length (fifo_q (fifo_of s)) \<le> deq_awake s) \<and>
     (enq_asleep s \<noteq> [] \<longrightarrow> limit \<noteq> 0 \<and> limit - length (fifo_q (fifo_of s)) \<le> length (enq_awake s))"

lemma fifo_inv_init: "fifo_inv limit (fifo_init limit)"
  by (simp add: fifo_inv_def fifo_init_def new_fifo_def)


text \<open>An element put in: the producer may have been awake, and a consumer is signalled.\<close>

lemma fifo_inv_enq:
  assumes "fifo_inv limit s" and "enq_pass e b (fifo_of s) = (f, Enqueued)" and "length (enq_awake s) \<le> Suc (length aw)"
  shows "fifo_inv limit (signal_non_empty (s\<lparr>fifo_of := f, enq_awake := aw, ins := ins s @ [e]\<rparr>))"
  using assms by (auto simp: fifo_inv_def enq_pass_def signal_non_empty_def split: if_splits)

text \<open>An element taken out: the consumer may have been awake, and a producer is signalled.\<close>

lemma fifo_inv_deq:
  assumes inv: "fifo_inv limit s" and d: "deq_pass (fifo_of s) = Some (f, e, sig)" and aw: "deq_awake s \<le> Suc n"
    and sig: "signal_has_space sig (s\<lparr>fifo_of := f, deq_awake := n, outs := outs s @ [e]\<rparr>) s'"
  shows "fifo_inv limit s'"
  using sig inv d aw
  by (elim signal_has_spaceE) (auto simp: fifo_inv_def deq_pass_def length_remove1 split: list.splits)

lemma fifo_step_inv: "fifo_step s s' \<Longrightarrow> fifo_inv limit s \<Longrightarrow> fifo_inv limit s'"
proof (induction rule: fifo_step.induct)
  case (enq_done e b s f)
  then show ?case
    using fifo_inv_enq [of limit s e b f "enq_awake s"] by simp
next
  case (enq_woken_done e s f)
  then show ?case
    using fifo_inv_enq [of limit s e True f "remove1 e (enq_awake s)"] by (simp add: length_remove1)
next
  case (deq_done s f e sig s')
  then show ?case
    using fifo_inv_deq [of limit s f e sig "deq_awake s" s'] by simp
next
  case (deq_woken_done s f e sig s')
  then show ?case
    using fifo_inv_deq [of limit s f e sig "deq_awake s - 1" s'] by simp
qed (auto simp: fifo_inv_def enq_pass_def deq_pass_def length_remove1 split: if_splits list.splits)

lemma fifo_reach_inv: "fifo_reach limit s \<Longrightarrow> fifo_inv limit s"
  by (induction rule: fifo_reach.induct) (auto intro: fifo_inv_init fifo_step_inv)

text \<open>
  C15. The queue keeps its order and its bound in every interleaving, and no wake-up is lost: what has been taken out is what was put in
  first, in that order; there are never more than \<open>limit\<close> elements when a limit is set; when all consumers that wait are asleep the
  queue is empty, and when all producers that wait are asleep it is full.
\<close>

theorem fifo_order_and_wakeups:
  assumes "fifo_reach limit s"
  shows "ins s = outs s @ fifo_q (fifo_of s) \<and> (limit \<noteq> 0 \<longrightarrow> length (fifo_q (fifo_of s)) \<le> limit) \<and>
    (deq_asleep s \<noteq> 0 \<and> deq_awake s = 0 \<longrightarrow> fifo_q (fifo_of s) = []) \<and>
    (enq_asleep s \<noteq> [] \<and> enq_awake s = [] \<longrightarrow> length (fifo_q (fifo_of s)) = limit)"
  using fifo_reach_inv [OF assms] by (auto simp: fifo_inv_def)

text \<open>A queue of one place: a consumer waits, two producers come, the second one has to wait, the consumer takes an element.\<close>

lemma fifo_sample:
  "fifo_reach 1 \<lparr>fifo_of = \<lparr>fifo_q = [], fifo_max = 1\<rparr>, enq_asleep = [], enq_awake = [CHR ''b''], deq_asleep = 0, deq_awake = 0,
     ins = ''a'', outs = ''a''\<rparr>"
proof -
  let ?s = "\<lambda>q es ea ds da i ou. \<lparr>fifo_of = \<lparr>fifo_q = q, fifo_max = 1\<rparr>, enq_asleep = es, enq_awake = ea, deq_asleep = ds, deq_awake = da, ins = i, outs = ou\<rparr>"
  have 0: "fifo_reach 1 (?s [] [] [] 0 0 [] ([] :: string))"
    using fifo_reach.init [of 1] by (simp add: fifo_init_def new_fifo_def)
  have "fifo_step (?s [] [] [] 0 0 [] ([] :: string)) (?s [] [] [] 1 0 [] [])"
    using deq_waits [of "?s [] [] [] 0 0 [] ([] :: string)"] by (simp add: deq_pass_def)
  note 1 = fifo_reach.step [OF 0 this]
  have "fifo_step (?s [] [] [] 1 0 [] []) (?s ''a'' [] [] 0 1 ''a'' [])"
    using enq_done [of "CHR ''a''" True "?s [] [] [] 1 0 [] []"] by (simp add: enq_pass_def signal_non_empty_def)
  note 2 = fifo_reach.step [OF 1 this]
  have "fifo_step (?s ''a'' [] [] 0 1 ''a'' []) (?s ''a'' ''b'' [] 0 1 ''a'' [])"
    using enq_waits [of "CHR ''b''" "?s ''a'' [] [] 0 1 ''a'' []"] by (simp add: enq_pass_def)
  note 3 = fifo_reach.step [OF 2 this]
  have "fifo_step (?s ''a'' ''b'' [] 0 1 ''a'' []) (?s [] [] ''b'' 0 0 ''a'' ''a'')"
    using deq_woken_done [of "?s ''a'' ''b'' [] 0 1 ''a'' []" "\<lparr>fifo_q = [], fifo_max = 1\<rparr>" "CHR ''a''" True "?s [] [] ''b'' 0 0 ''a'' ''a''"]
      wakes [of "CHR ''b''" "?s [] ''b'' [] 0 0 ''a'' ''a''"] by (simp add: deq_pass_def)
  then show ?thesis
    using fifo_reach.step [OF 3] by simp
qed

theorem fifo_order_and_wakeups_witness:
  "\<exists>s :: char fifo_sys. fifo_reach 1 s \<and> ins s = outs s @ fifo_q (fifo_of s) \<and> outs s = ''a'' \<and> enq_awake s = ''b''"
  using fifo_order_and_wakeups [OF fifo_sample] fifo_sample by fastforce

end
