(* ===== verification/Marshall.thy ===== *)
theory Marshall
  imports Extent_Server
begin

text \<open>
  Packing the arguments and results of remote calls, \<open>src/yfs/rpc/marshall.h\<close> and the
  attributes in \<open>src/yfs/extent_protocol.h\<close>. The header only declares the operators for the base
  types and the members \<open>pack\<close> and \<open>unpack\<close>; they are parameters here, with what the header
  relies on as the predicates \<open>pack_spec\<close> and \<open>codec\<close>. What is in the header is modelled: the two
  buffers, the call and reply headers in front of the content, and the containers. The lemmas show
  that what is packed is unpacked.
\<close>

record req_header =
  rq_xid :: int
  rq_proc :: int
  rq_clt_nonce :: nat
  rq_srv_nonce :: nat
  rq_xid_rep :: int

record reply_header =
  rp_xid :: int
  rp_ret :: int

text \<open>The size of \<open>req_header\<close>, the larger of the two, and of a \<open>rpc_sz_t\<close>; no checksums.\<close>

definition RPC_SZ :: nat where "RPC_SZ = 4"
definition RPC_HEADER_SZ :: nat where "RPC_HEADER_SZ = max 20 8 + RPC_SZ"
definition DEFAULT_RPC_SZ :: nat where "DEFAULT_RPC_SZ = 1024"

record marshall =
  mb_buf :: buffer
  mb_capa :: nat
  mb_ind :: nat

record unmarshall =
  ub_buf :: buffer
  ub_sz :: nat
  ub_ind :: nat
  ub_ok :: bool

text \<open>\<open>mem\<close> is what \<open>malloc\<close> and \<open>realloc\<close> return.\<close>

definition new_marshall :: "buffer \<Rightarrow> marshall" where
  "new_marshall mem = \<lparr>mb_buf = mem, mb_capa = DEFAULT_RPC_SZ, mb_ind = RPC_HEADER_SZ\<rparr>"

definition get_content :: "marshall \<Rightarrow> string" where
  "get_content m = string_of (ptr_add (mb_buf m) RPC_HEADER_SZ) (mb_ind m - RPC_HEADER_SZ)"

definition int_of_uint :: "nat \<Rightarrow> int" where
  "int_of_uint n = (if n < 2 ^ 31 then int n else int n - 2 ^ 32)"

definition uint_of_int :: "int \<Rightarrow> nat" where
  "uint_of_int i = nat (i mod 2 ^ 32)"

definition pack_req_header :: "(int \<Rightarrow> marshall \<Rightarrow> marshall) \<Rightarrow> req_header \<Rightarrow> marshall \<Rightarrow> marshall" where
  "pack_req_header pack h m =
     (let saved_sz = mb_ind m;
          m = m\<lparr>mb_ind := RPC_SZ\<rparr>;
          m = pack (rq_xid h) m;
          m = pack (rq_proc h) m;
          m = pack (int_of_uint (rq_clt_nonce h)) m;
          m = pack (int_of_uint (rq_srv_nonce h)) m;
          m = pack (rq_xid_rep h) m
      in m\<lparr>mb_ind := saved_sz\<rparr>)"

definition pack_reply_header :: "(int \<Rightarrow> marshall \<Rightarrow> marshall) \<Rightarrow> reply_header \<Rightarrow> marshall \<Rightarrow> marshall" where
  "pack_reply_header pack h m =
     (let saved_sz = mb_ind m;
          m = m\<lparr>mb_ind := RPC_SZ\<rparr>;
          m = pack (rp_xid h) m;
          m = pack (rp_ret h) m
      in m\<lparr>mb_ind := saved_sz\<rparr>)"

text \<open>What \<open>take_buf\<close> stores in its arguments; the emptied object is only destroyed after that.\<close>

definition take_buf :: "marshall \<Rightarrow> buffer \<times> nat" where
  "take_buf m = (mb_buf m, mb_ind m)"

definition new_unmarshall :: "buffer \<Rightarrow> nat \<Rightarrow> unmarshall" where
  "new_unmarshall b sz = \<lparr>ub_buf = b, ub_sz = sz, ub_ind = 0, ub_ok = True\<rparr>"

definition take_content :: "buffer \<Rightarrow> string \<Rightarrow> unmarshall" where
  "take_content mem s =
     \<lparr>ub_buf = memcpy_at mem RPC_HEADER_SZ (c_str mem s) (length s), ub_sz = length s + RPC_HEADER_SZ,
      ub_ind = RPC_HEADER_SZ, ub_ok = True\<rparr>"

definition unpack_req_header :: "(unmarshall \<Rightarrow> int \<times> unmarshall) \<Rightarrow> unmarshall \<Rightarrow> req_header \<times> unmarshall" where
  "unpack_req_header unpack u =
     (let u = u\<lparr>ub_ind := RPC_SZ\<rparr>;
          (xid, u) = unpack u;
          (proc, u) = unpack u;
          (clt, u) = unpack u;
          (srv, u) = unpack u;
          (rep, u) = unpack u
      in (\<lparr>rq_xid = xid, rq_proc = proc, rq_clt_nonce = uint_of_int clt, rq_srv_nonce = uint_of_int srv, rq_xid_rep = rep\<rparr>,
          u\<lparr>ub_ind := RPC_HEADER_SZ\<rparr>))"

definition unpack_reply_header :: "(unmarshall \<Rightarrow> int \<times> unmarshall) \<Rightarrow> unmarshall \<Rightarrow> reply_header \<times> unmarshall" where
  "unpack_reply_header unpack u =
     (let u = u\<lparr>ub_ind := RPC_SZ\<rparr>;
          (xid, u) = unpack u;
          (ret, u) = unpack u
      in (\<lparr>rp_xid = xid, rp_ret = ret\<rparr>, u\<lparr>ub_ind := RPC_HEADER_SZ\<rparr>))"

section \<open>Containers\<close>

text \<open>
  \<open>m << x\<close> appends to the content of \<open>m\<close>, and \<open>u >> x\<close> takes from what is left of \<open>u\<close>. The operators
  of vectors and lists are the same; they append to what \<open>v\<close> has already.
\<close>

type_synonym 'a putter = "'a \<Rightarrow> byte list \<Rightarrow> byte list"
type_synonym 'a getter = "byte list \<Rightarrow> 'a \<times> byte list"

definition marshall_list :: "nat putter \<Rightarrow> 'a putter \<Rightarrow> 'a list putter" where
  "marshall_list put_uint put v m = fold put v (put_uint (length v mod 2 ^ 32) m)"

fun unmarshall_loop :: "'a getter \<Rightarrow> nat \<Rightarrow> 'a list \<Rightarrow> 'a list getter" where
  "unmarshall_loop get 0 v u = (v, u)"
| "unmarshall_loop get (Suc n) v u = (let (z, u) = get u in unmarshall_loop get n (v @ [z]) u)"

definition unmarshall_list :: "nat getter \<Rightarrow> 'a getter \<Rightarrow> 'a list \<Rightarrow> 'a list getter" where
  "unmarshall_list get_uint get v u = (let (n, u) = get_uint u in unmarshall_loop get n v u)"

text \<open>A \<open>std::map\<close> as the list of its entries in the order of the keys; \<open>d[a] = b\<close>.\<close>

fun map_assign :: "'k::linorder \<Rightarrow> 'v \<Rightarrow> ('k \<times> 'v) list \<Rightarrow> ('k \<times> 'v) list" where
  "map_assign a b [] = [(a, b)]"
| "map_assign a b ((k, v) # d) =
     (if a < k then (a, b) # (k, v) # d else if a = k then (a, b) # d else (k, v) # map_assign a b d)"

definition marshall_map :: "nat putter \<Rightarrow> 'k putter \<Rightarrow> 'v putter \<Rightarrow> ('k \<times> 'v) list putter" where
  "marshall_map put_uint put_k put_v d m = fold (\<lambda>(a, b) m. put_v b (put_k a m)) d (put_uint (length d mod 2 ^ 32) m)"

fun unmarshall_map_loop :: "'k::linorder getter \<Rightarrow> 'v getter \<Rightarrow> nat \<Rightarrow> ('k \<times> 'v) list \<Rightarrow> ('k \<times> 'v) list getter" where
  "unmarshall_map_loop get_k get_v 0 d u = (d, u)"
| "unmarshall_map_loop get_k get_v (Suc n) d u =
     (let (a, u) = get_k u; (b, u) = get_v u in unmarshall_map_loop get_k get_v n (map_assign a b d) u)"

definition unmarshall_map :: "nat getter \<Rightarrow> 'k::linorder getter \<Rightarrow> 'v getter \<Rightarrow> ('k \<times> 'v) list getter" where
  "unmarshall_map get_uint get_k get_v u = (let (n, u) = get_uint u in unmarshall_map_loop get_k get_v n [] u)"

text \<open>The operators of \<open>extent_protocol::attr\<close>.\<close>

definition marshall_attr :: "nat putter \<Rightarrow> attr putter" where
  "marshall_attr put_uint a m =
     (let m = put_uint (a_type a) m;
          m = put_uint (a_atime a) m;
          m = put_uint (a_mtime a) m;
          m = put_uint (a_ctime a) m
      in put_uint (a_size a) m)"

definition unmarshall_attr :: "nat getter \<Rightarrow> attr getter" where
  "unmarshall_attr get_uint u =
     (let (ty, u) = get_uint u;
          (at, u) = get_uint u;
          (mt, u) = get_uint u;
          (ct, u) = get_uint u;
          (sz, u) = get_uint u
      in (\<lparr>a_type = ty, a_atime = at, a_mtime = mt, a_ctime = ct, a_size = sz\<rparr>, u))"

section \<open>Headers round trip\<close>

text \<open>
  What the header relies on: \<open>pack\<close> writes four bytes at the head position and moves it, and
  \<open>unpack\<close> gets the integer out of these bytes.
\<close>

definition is_int :: "int \<Rightarrow> bool" where
  "is_int i \<longleftrightarrow> - (2 ^ 31) \<le> i \<and> i < 2 ^ 31"

definition pack_spec :: "(int \<Rightarrow> marshall \<Rightarrow> marshall) \<Rightarrow> (unmarshall \<Rightarrow> int \<times> unmarshall) \<Rightarrow> bool" where
  "pack_spec pack unpack \<longleftrightarrow>
     (\<forall>i m. is_int i \<longrightarrow>
        mb_ind (pack i m) = mb_ind m + 4 \<and>
        (\<forall>j. j < mb_ind m \<or> mb_ind m + 4 \<le> j \<longrightarrow> mb_buf (pack i m) j = mb_buf m j) \<and>
        (\<forall>u. ub_ok u \<and> ub_ind u = mb_ind m \<and> mb_ind m + 4 \<le> ub_sz u \<and>
             (\<forall>j. mb_ind m \<le> j \<and> j < mb_ind m + 4 \<longrightarrow> ub_buf u j = mb_buf (pack i m) j) \<longrightarrow>
             unpack u = (i, u\<lparr>ub_ind := ub_ind u + 4\<rparr>)))"

fun unpack_ints :: "(unmarshall \<Rightarrow> int \<times> unmarshall) \<Rightarrow> nat \<Rightarrow> unmarshall \<Rightarrow> int list \<times> unmarshall" where
  "unpack_ints unpack 0 u = ([], u)"
| "unpack_ints unpack (Suc n) u = (let (i, u) = unpack u; (is, u) = unpack_ints unpack n u in (i # is, u))"

lemma pack_ints_frame:
  assumes "pack_spec pack unpack" and "\<forall>i \<in> set is. is_int i"
  shows "mb_ind (fold pack is m) = mb_ind m + 4 * length is \<and>
    (\<forall>j. j < mb_ind m \<or> mb_ind m + 4 * length is \<le> j \<longrightarrow> mb_buf (fold pack is m) j = mb_buf m j)"
  using assms(2)
proof (induction "is" arbitrary: m)
  case (Cons i "is")
  then have "mb_ind (pack i m) = mb_ind m + 4"
    "\<forall>j. j < mb_ind m \<or> mb_ind m + 4 \<le> j \<longrightarrow> mb_buf (pack i m) j = mb_buf m j"
    using assms(1) by (simp_all add: pack_spec_def)
  then show ?case
    using Cons.IH [of "pack i m"] Cons.prems by simp
qed simp

lemma unpack_pack_ints:
  assumes spec: "pack_spec pack unpack" and "\<forall>i \<in> set is. is_int i" and "ub_ok u" and "ub_ind u = mb_ind m"
    and "mb_ind m + 4 * length is \<le> ub_sz u"
    and "\<forall>j. mb_ind m \<le> j \<and> j < mb_ind m + 4 * length is \<longrightarrow> ub_buf u j = mb_buf (fold pack is m) j"
  shows "unpack_ints unpack (length is) u = (is, u\<lparr>ub_ind := ub_ind u + 4 * length is\<rparr>)"
  using assms(2-)
proof (induction "is" arbitrary: m u)
  case (Cons i "is")
  let ?m = "pack i m"
  have ind: "mb_ind ?m = mb_ind m + 4"
    using spec Cons.prems(1) by (simp add: pack_spec_def)
  have "mb_buf (fold pack is ?m) j = mb_buf ?m j" if "j < mb_ind m + 4" for j
    using pack_ints_frame [OF spec, of "is" ?m] Cons.prems(1) that ind by simp
  then have "\<forall>j. mb_ind m \<le> j \<and> j < mb_ind m + 4 \<longrightarrow> ub_buf u j = mb_buf ?m j"
    using Cons.prems(5) by simp
  then have "unpack u = (i, u\<lparr>ub_ind := ub_ind u + 4\<rparr>)"
    using spec [unfolded pack_spec_def, rule_format, of i m] Cons.prems(1-4) by simp
  then show ?case
    using Cons.IH [of "u\<lparr>ub_ind := ub_ind u + 4\<rparr>" ?m] Cons.prems ind by simp
qed simp

definition req_ints :: "req_header \<Rightarrow> int list" where
  "req_ints h = [rq_xid h, rq_proc h, int_of_uint (rq_clt_nonce h), int_of_uint (rq_srv_nonce h), rq_xid_rep h]"

definition req_header_ok :: "req_header \<Rightarrow> bool" where
  "req_header_ok h \<longleftrightarrow> is_int (rq_xid h) \<and> is_int (rq_proc h) \<and> rq_clt_nonce h < 2 ^ 32 \<and> rq_srv_nonce h < 2 ^ 32 \<and>
     is_int (rq_xid_rep h)"

lemma uint_int_uint: "n < 2 ^ 32 \<Longrightarrow> is_int (int_of_uint n) \<and> uint_of_int (int_of_uint n) = n"
  by (auto simp: is_int_def int_of_uint_def uint_of_int_def)

lemma pack_req_header_ints: "pack_req_header pack h m = (fold pack (req_ints h) (m\<lparr>mb_ind := RPC_SZ\<rparr>))\<lparr>mb_ind := mb_ind m\<rparr>"
  by (simp add: pack_req_header_def req_ints_def)

lemma unpack_req_header_ints:
  assumes "unpack_ints unpack (Suc (Suc (Suc (Suc (Suc 0))))) (u\<lparr>ub_ind := RPC_SZ\<rparr>) = (req_ints h, u')" and "req_header_ok h"
  shows "unpack_req_header unpack u = (h, u'\<lparr>ub_ind := RPC_HEADER_SZ\<rparr>)"
  using assms uint_int_uint [of "rq_clt_nonce h"] uint_int_uint [of "rq_srv_nonce h"]
  by (auto simp: unpack_req_header_def req_ints_def req_header_ok_def Let_def split: prod.splits)

text \<open>
  The header of a call survives: packed in front of a content that has been packed already, sent
  as a buffer and unpacked, it is what it was, the read position is the start of the content, and the content
  is untouched.
\<close>

lemma req_header_roundtrip:
  assumes spec: "pack_spec pack unpack" and h: "req_header_ok h" and m: "RPC_HEADER_SZ \<le> mb_ind m"
    and b: "take_buf (pack_req_header pack h m) = (b, sz)"
  shows "unpack_req_header unpack (new_unmarshall b sz) = (h, (new_unmarshall b sz)\<lparr>ub_ind := RPC_HEADER_SZ\<rparr>) \<and>
    sz = mb_ind m \<and> (\<forall>j \<ge> RPC_HEADER_SZ. b j = mb_buf m j)"
proof -
  let ?m = "m\<lparr>mb_ind := RPC_SZ\<rparr>" and ?u = "new_unmarshall b sz"
  have ints: "\<forall>i \<in> set (req_ints h). is_int i" "length (req_ints h) = 5"
    using h uint_int_uint by (auto simp: req_ints_def req_header_ok_def)
  have b: "b = mb_buf (fold pack (req_ints h) ?m)" "sz = mb_ind m"
    using b by (simp_all add: take_buf_def pack_req_header_ints)
  have "unpack_ints unpack 5 (?u\<lparr>ub_ind := RPC_SZ\<rparr>) = (req_ints h, ?u\<lparr>ub_ind := RPC_SZ + 20\<rparr>)"
    using unpack_pack_ints [OF spec ints(1), of "?u\<lparr>ub_ind := RPC_SZ\<rparr>" ?m] ints(2) m b
    by (simp add: new_unmarshall_def RPC_SZ_def RPC_HEADER_SZ_def)
  then have "unpack_req_header unpack ?u = (h, ?u\<lparr>ub_ind := RPC_HEADER_SZ\<rparr>)"
    using unpack_req_header_ints [OF _ h, of unpack ?u] by (simp add: eval_nat_numeral(2,3))
  moreover have "\<forall>j \<ge> RPC_HEADER_SZ. b j = mb_buf m j"
    using pack_ints_frame [OF spec ints(1), of ?m] ints(2) b by (simp add: RPC_SZ_def RPC_HEADER_SZ_def)
  ultimately show ?thesis
    using b(2) by simp
qed

text \<open>An instance of \<open>pack\<close> and \<open>unpack\<close> with what is required of them: the bytes of the integer.\<close>

definition pack_le :: "int \<Rightarrow> marshall \<Rightarrow> marshall" where
  "pack_le i m = m\<lparr>mb_buf := put_u32 (mb_buf m) (mb_ind m) (uint_of_int i), mb_ind := mb_ind m + 4\<rparr>"

definition unpack_le :: "unmarshall \<Rightarrow> int \<times> unmarshall" where
  "unpack_le u = (int_of_uint (get_u32 (ub_buf u) (ub_ind u)), u\<lparr>ub_ind := ub_ind u + 4\<rparr>)"

lemma int_uint_int: "is_int i \<Longrightarrow> int_of_uint (uint_of_int i) = i \<and> uint_of_int i < 2 ^ 32"
proof -
  assume i: "is_int i"
  have "i mod 2 ^ 32 = (if 0 \<le> i then i else i + 2 ^ 32)"
  proof (cases "0 \<le> i")
    case False
    then have "(i + 2 ^ 32) mod 2 ^ 32 = i + 2 ^ 32"
      using i by (intro mod_pos_pos_trivial) (simp_all add: is_int_def)
    then show ?thesis
      using False by simp
  qed (use i in \<open>simp add: is_int_def mod_pos_pos_trivial\<close>)
  then show ?thesis
    using i by (auto simp: is_int_def int_of_uint_def uint_of_int_def)
qed

lemma pack_spec_le: "pack_spec pack_le unpack_le"
  unfolding pack_spec_def
proof (intro allI impI conjI)
  fix i m j assume "is_int i"
  show "mb_ind (pack_le i m) = mb_ind m + 4"
    by (simp add: pack_le_def)
  show "mb_buf (pack_le i m) j = mb_buf m j" if "j < mb_ind m \<or> mb_ind m + 4 \<le> j"
    using that by (auto simp: pack_le_def mem_simps)
next
  fix i m and u :: unmarshall
  assume i: "is_int i" and u: "ub_ok u \<and> ub_ind u = mb_ind m \<and> mb_ind m + 4 \<le> ub_sz u \<and>
    (\<forall>j. mb_ind m \<le> j \<and> j < mb_ind m + 4 \<longrightarrow> ub_buf u j = mb_buf (pack_le i m) j)"
  have "get_u32 (ub_buf u) (mb_ind m) = uint_of_int i"
    using u int_uint_int [OF i] get_u32_cong [of "mb_ind m" "ub_buf u" "mb_buf (pack_le i m)"] by (simp add: pack_le_def mem_simps)
  then show "unpack_le u = (i, u\<lparr>ub_ind := ub_ind u + 4\<rparr>)"
    using u int_uint_int [OF i] by (simp add: unpack_le_def)
qed

theorem req_header_roundtrip_witness:
  "\<exists>b sz u. take_buf (pack_req_header pack_le
       \<lparr>rq_xid = 7, rq_proc = -1, rq_clt_nonce = 5, rq_srv_nonce = 4294967295, rq_xid_rep = 0\<rparr> (new_marshall zeros)) = (b, sz) \<and>
     unpack_req_header unpack_le (new_unmarshall b sz) =
       (\<lparr>rq_xid = 7, rq_proc = -1, rq_clt_nonce = 5, rq_srv_nonce = 4294967295, rq_xid_rep = 0\<rparr>, u)"
proof -
  let ?h = "\<lparr>rq_xid = 7, rq_proc = -1, rq_clt_nonce = 5, rq_srv_nonce = 4294967295, rq_xid_rep = 0\<rparr>"
  have "req_header_ok ?h" "RPC_HEADER_SZ \<le> mb_ind (new_marshall zeros)"
    by (simp_all add: req_header_ok_def is_int_def new_marshall_def)
  then show ?thesis
    using req_header_roundtrip [OF pack_spec_le] by (cases "take_buf (pack_req_header pack_le ?h (new_marshall zeros))") blast
qed

section \<open>Containers round trip\<close>

text \<open>A pair of operators for the values in \<open>P\<close>: \<open>get\<close> takes exactly the bytes that \<open>put\<close> appends.\<close>

definition codec :: "('a \<Rightarrow> bool) \<Rightarrow> 'a putter \<Rightarrow> 'a getter \<Rightarrow> bool" where
  "codec P put get \<longleftrightarrow> (\<forall>x. P x \<longrightarrow> (\<exists>w. (\<forall>m. put x m = m @ w) \<and> (\<forall>rest. get (w @ rest) = (x, rest))))"

lemma codecE:
  assumes "codec P put get" and "P x"
  obtains w where "\<And>m. put x m = m @ w" and "\<And>rest. get (w @ rest) = (x, rest)"
  using assms by (auto simp: codec_def)

lemma codec_list_loop:
  assumes "codec P put get" and "\<forall>x \<in> set v. P x"
  shows "\<exists>w. (\<forall>m. fold put v m = m @ w) \<and> (\<forall>acc rest. unmarshall_loop get (length v) acc (w @ rest) = (acc @ v, rest))"
  using assms(2)
proof (induction v)
  case (Cons x v)
  obtain w where w: "\<And>m. put x m = m @ w" "\<And>rest. get (w @ rest) = (x, rest)"
    using codecE [OF assms(1), of x] Cons.prems by auto
  obtain w' where "\<forall>m. fold put v m = m @ w'" "\<forall>acc rest. unmarshall_loop get (length v) acc (w' @ rest) = (acc @ v, rest)"
    using Cons by auto
  then show ?case
    using w by (intro exI [of _ "w @ w'"]) simp
qed simp

lemma codec_list:
  assumes uint: "codec (\<lambda>n. n < 2 ^ 32) put_uint get_uint" and elem: "codec P put get"
  shows "codec (\<lambda>v. length v < 2 ^ 32 \<and> (\<forall>x \<in> set v. P x)) (marshall_list put_uint put) (unmarshall_list get_uint get [])"
  unfolding codec_def
proof (intro allI impI)
  fix v :: "'a list" assume v: "length v < 2 ^ 32 \<and> (\<forall>x \<in> set v. P x)"
  obtain w where w: "\<And>m. put_uint (length v) m = m @ w" "\<And>rest. get_uint (w @ rest) = (length v, rest)"
    using codecE [OF uint, of "length v"] v by auto
  obtain w' where "\<forall>m. fold put v m = m @ w'" "\<forall>acc rest. unmarshall_loop get (length v) acc (w' @ rest) = (acc @ v, rest)"
    using codec_list_loop [OF elem] v by blast
  then show "\<exists>w. (\<forall>m. marshall_list put_uint put v m = m @ w) \<and> (\<forall>rest. unmarshall_list get_uint get [] (w @ rest) = (v, rest))"
    using w v by (intro exI [of _ "w @ w'"]) (simp add: marshall_list_def unmarshall_list_def)
qed

lemma map_assign_end: "\<forall>(k, v) \<in> set d. k < a \<Longrightarrow> map_assign a b d = d @ [(a, b)]"
  by (induction d) auto

lemma codec_map_loop:
  fixes d :: "('k::linorder \<times> 'v) list"
  assumes "codec P put_k get_k" and "codec Q put_v get_v"
  shows "\<forall>(k, v) \<in> set d. P k \<and> Q v \<Longrightarrow> \<exists>w. (\<forall>m. fold (\<lambda>(a, b) m. put_v b (put_k a m)) d m = m @ w) \<and>
    (\<forall>acc rest. sorted_wrt (<) (map fst (acc @ d)) \<longrightarrow> unmarshall_map_loop get_k get_v (length d) acc (w @ rest) = (acc @ d, rest))"
proof (induction d)
  case (Cons x d)
  obtain k v where x: "x = (k, v)"
    by (cases x)
  obtain w where w: "\<And>m. put_k k m = m @ w" "\<And>rest. get_k (w @ rest) = (k, rest)"
    using codecE [OF assms(1), of k] Cons.prems x by auto
  obtain w2 where w2: "\<And>m. put_v v m = m @ w2" "\<And>rest. get_v (w2 @ rest) = (v, rest)"
    using codecE [OF assms(2), of v] Cons.prems x by auto
  obtain w3 where w3: "\<forall>m. fold (\<lambda>(a, b) m. put_v b (put_k a m)) d m = m @ w3"
    "\<forall>acc rest. sorted_wrt (<) (map fst (acc @ d)) \<longrightarrow> unmarshall_map_loop get_k get_v (length d) acc (w3 @ rest) = (acc @ d, rest)"
    using Cons by auto
  have "map_assign k v acc = acc @ [(k, v)]" if "sorted_wrt (<) (map fst (acc @ x # d))" for acc
    using that x by (intro map_assign_end) (auto simp: sorted_wrt_append)
  moreover have "sorted_wrt (<) (map fst ((acc @ [(k, v)]) @ d))" if "sorted_wrt (<) (map fst (acc @ x # d))" for acc
    using that x by simp
  ultimately show ?case
    using w w2 w3 x by (intro exI [of _ "w @ w2 @ w3"]) (simp del: map_append)
qed simp

lemma codec_map:
  fixes put_k :: "'k::linorder putter"
  assumes uint: "codec (\<lambda>n. n < 2 ^ 32) put_uint get_uint" and k: "codec P put_k get_k" and v: "codec Q put_v get_v"
  shows "codec (\<lambda>d. length d < 2 ^ 32 \<and> sorted_wrt (<) (map fst d) \<and> (\<forall>(a, b) \<in> set d. P a \<and> Q b))
    (marshall_map put_uint put_k put_v) (unmarshall_map get_uint get_k get_v)"
  unfolding codec_def
proof (intro allI impI)
  fix d :: "('k \<times> 'a) list"
  assume d: "length d < 2 ^ 32 \<and> sorted_wrt (<) (map fst d) \<and> (\<forall>(a, b) \<in> set d. P a \<and> Q b)"
  obtain w where w: "\<And>m. put_uint (length d) m = m @ w" "\<And>rest. get_uint (w @ rest) = (length d, rest)"
    using codecE [OF uint, of "length d"] d by auto
  obtain w' where "\<forall>m. fold (\<lambda>(a, b) m. put_v b (put_k a m)) d m = m @ w'"
    "\<forall>acc rest. sorted_wrt (<) (map fst (acc @ d)) \<longrightarrow> unmarshall_map_loop get_k get_v (length d) acc (w' @ rest) = (acc @ d, rest)"
    using codec_map_loop [OF k v, of d] d by blast
  then show "\<exists>w. (\<forall>m. marshall_map put_uint put_k put_v d m = m @ w) \<and> (\<forall>rest. unmarshall_map get_uint get_k get_v (w @ rest) = (d, rest))"
    using w d by (intro exI [of _ "w @ w'"]) (simp add: marshall_map_def unmarshall_map_def)
qed

definition attr_ok :: "attr \<Rightarrow> bool" where
  "attr_ok a \<longleftrightarrow> a_type a < 2 ^ 32 \<and> a_atime a < 2 ^ 32 \<and> a_mtime a < 2 ^ 32 \<and> a_ctime a < 2 ^ 32 \<and> a_size a < 2 ^ 32"

lemma codec_attr:
  assumes "codec (\<lambda>n. n < 2 ^ 32) put_uint get_uint"
  shows "codec attr_ok (marshall_attr put_uint) (unmarshall_attr get_uint)"
  unfolding codec_def
proof (intro allI impI)
  fix a assume a: "attr_ok a"
  obtain f where f: "\<forall>n < 2 ^ 32. (\<forall>m. put_uint n m = m @ f n) \<and> (\<forall>rest. get_uint (f n @ rest) = (n, rest))"
    using assms unfolding codec_def by metis
  show "\<exists>w. (\<forall>m. marshall_attr put_uint a m = m @ w) \<and> (\<forall>rest. unmarshall_attr get_uint (w @ rest) = (a, rest))"
    using a f by (intro exI [of _ "f (a_type a) @ f (a_atime a) @ f (a_mtime a) @ f (a_ctime a) @ f (a_size a)"])
      (simp add: attr_ok_def marshall_attr_def unmarshall_attr_def)
qed

text \<open>
  C31. Lists, vectors and maps with fewer than \<open>2 ^ 32\<close> entries and file attributes are unpacked as they
  were packed, and nothing behind them is touched, given that the operators of \<open>unsigned int\<close> and of the
  elements do so. A map is unpacked entry by entry into an empty one and has its order again.
\<close>

theorem containers_roundtrip:
  fixes d :: "('k::linorder \<times> 'v) list"
  assumes uint: "codec (\<lambda>n. n < 2 ^ 32) put_uint get_uint" and elem: "codec P put get"
    and kc: "codec Q put_k get_k" and vc: "codec R put_v get_v"
    and v: "length v < 2 ^ 32" "\<forall>x \<in> set v. P x"
    and d: "length d < 2 ^ 32" "sorted_wrt (<) (map fst d)" "\<forall>(a, b) \<in> set d. Q a \<and> R b"
    and a: "attr_ok a"
  shows "(\<exists>w. (\<forall>m. marshall_list put_uint put v m = m @ w) \<and> (\<forall>rest. unmarshall_list get_uint get [] (w @ rest) = (v, rest))) \<and>
    (\<exists>w. (\<forall>m. marshall_map put_uint put_k put_v d m = m @ w) \<and> (\<forall>rest. unmarshall_map get_uint get_k get_v (w @ rest) = (d, rest))) \<and>
    (\<exists>w. (\<forall>m. marshall_attr put_uint a m = m @ w) \<and> (\<forall>rest. unmarshall_attr get_uint (w @ rest) = (a, rest)))"
  using codec_list [OF uint elem] codec_map [OF uint kc vc] codec_attr [OF uint] v d a
  unfolding codec_def by blast

text \<open>An instance of the operators of \<open>unsigned int\<close>.\<close>

definition put_uint_le :: "nat putter" where
  "put_uint_le n m = m @ map (put_u32 zeros 0 n) [0..<4]"

definition get_uint_le :: "nat getter" where
  "get_uint_le u = (get_u32 (\<lambda>i. u ! i) 0, drop 4 u)"

lemma codec_uint_le: "codec (\<lambda>n. n < 2 ^ 32) put_uint_le get_uint_le"
  unfolding codec_def
proof (intro allI impI)
  fix n :: nat assume n: "n < 2 ^ 32"
  let ?w = "map (put_u32 zeros 0 n) [0..<4]"
  have "get_u32 (\<lambda>i. (?w @ rest) ! i) 0 = n" for rest
    using n get_u32_cong [of 0 "\<lambda>i. (?w @ rest) ! i" "put_u32 zeros 0 n"] by (simp add: nth_append mem_simps)
  then show "\<exists>w. (\<forall>m. put_uint_le n m = m @ w) \<and> (\<forall>rest. get_uint_le (w @ rest) = (n, rest))"
    by (intro exI [of _ ?w]) (simp add: put_uint_le_def get_uint_le_def)
qed

theorem containers_roundtrip_witness:
  "(\<exists>w. (\<forall>m. marshall_list put_uint_le put_uint_le [5, 6] m = m @ w) \<and>
        (\<forall>rest. unmarshall_list get_uint_le get_uint_le [] (w @ rest) = ([5, 6], rest))) \<and>
   (\<exists>w. (\<forall>m. marshall_map put_uint_le put_uint_le put_uint_le [(1, 4), (2, 3)] m = m @ w) \<and>
        (\<forall>rest. unmarshall_map get_uint_le get_uint_le get_uint_le (w @ rest) = ([(1, 4), (2, 3)], rest)))"
  using containers_roundtrip [OF codec_uint_le codec_uint_le codec_uint_le codec_uint_le, of "[5, 6]" "[(1, 4), (2, 3)]"
      "\<lparr>a_type = 1, a_atime = 2, a_mtime = 3, a_ctime = 4, a_size = 5\<rparr>"]
  by (simp add: attr_ok_def)

end
