(* ===== verification/Rpc_Stubs.thy ===== *)
theory Rpc_Stubs
  imports Marshall Extent_Client
begin

text \<open>
  The stubs on both sides of a remote call, the templates of \<open>src/yfs/rpc/rpc.h\<close>: \<open>rpcc::call\<close> packs the
  arguments, and the handler that \<open>rpcs::reg\<close> registers unpacks them, calls the method and packs its
  result, in the versions for up to seven arguments; the program uses those with one to three. The transport between them (\<open>rpcc::call1\<close>) and
  \<open>unmarshall::okdone\<close> are not in the sources and are parameters. The theorem shows that over a
  transport that delivers, a call is the call of the method, which is what the extent client's model
  (\<open>rpc_call\<close>) takes for granted.
\<close>

definition unmarshal_args_failure :: int where "unmarshal_args_failure = - 2"

type_synonym 's transport = "nat \<Rightarrow> byte list \<Rightarrow> 's \<Rightarrow> ('s \<times> int \<times> byte list) option"
type_synonym 's stub = "byte list \<Rightarrow> 's \<Rightarrow> ('s \<times> int \<times> byte list) option"

section \<open>The client side\<close>

text \<open>A reply that cannot be unpacked aborts the process (\<open>VERIFY\<close>).\<close>

definition call_m ::
  "'s transport \<Rightarrow> (byte list \<Rightarrow> bool) \<Rightarrow> 'r getter \<Rightarrow> nat \<Rightarrow> byte list \<Rightarrow> 'r \<Rightarrow> 's \<Rightarrow> ('s \<times> int \<times> 'r) option" where
  "call_m call1 okdone get proc req r s =
     do {
       (s, intret, u) \<leftarrow> call1 proc req s;
       (if intret < 0 then Some (s, intret, r)
        else let (r, u) = get u in if \<not> okdone u then None else Some (s, intret, r))
     }"

definition rpcc_call0 ::
  "'s transport \<Rightarrow> (byte list \<Rightarrow> bool) \<Rightarrow> 'r getter \<Rightarrow> nat
     \<Rightarrow> 'r \<Rightarrow> 's \<Rightarrow> ('s \<times> int \<times> 'r) option" where
  "rpcc_call0 call1 okdone get proc r s =
     (let m = [] in call_m call1 okdone get proc m r s)"

definition rpcc_call1 ::
  "'s transport \<Rightarrow> (byte list \<Rightarrow> bool) \<Rightarrow> 'a putter \<Rightarrow> 'r getter \<Rightarrow> nat \<Rightarrow> 'a \<Rightarrow> 'r \<Rightarrow> 's \<Rightarrow> ('s \<times> int \<times> 'r) option" where
  "rpcc_call1 call1 okdone put1 get proc a1 r s =
     (let m = []; m = put1 a1 m in call_m call1 okdone get proc m r s)"

definition rpcc_call2 ::
  "'s transport \<Rightarrow> (byte list \<Rightarrow> bool) \<Rightarrow> 'a putter \<Rightarrow> 'b putter \<Rightarrow> 'r getter \<Rightarrow> nat \<Rightarrow> 'a \<Rightarrow> 'b \<Rightarrow> 'r \<Rightarrow> 's \<Rightarrow>
     ('s \<times> int \<times> 'r) option" where
  "rpcc_call2 call1 okdone put1 put2 get proc a1 a2 r s =
     (let m = []; m = put1 a1 m; m = put2 a2 m in call_m call1 okdone get proc m r s)"

definition rpcc_call3 ::
  "'s transport \<Rightarrow> (byte list \<Rightarrow> bool) \<Rightarrow> 'a putter \<Rightarrow> 'b putter \<Rightarrow> 'c putter \<Rightarrow> 'r getter \<Rightarrow> nat \<Rightarrow> 'a \<Rightarrow> 'b \<Rightarrow> 'c \<Rightarrow> 'r \<Rightarrow> 's \<Rightarrow>
     ('s \<times> int \<times> 'r) option" where
  "rpcc_call3 call1 okdone put1 put2 put3 get proc a1 a2 a3 r s =
     (let m = []; m = put1 a1 m; m = put2 a2 m; m = put3 a3 m in call_m call1 okdone get proc m r s)"

definition rpcc_call4 ::
  "'s transport \<Rightarrow> (byte list \<Rightarrow> bool) \<Rightarrow> 'a putter \<Rightarrow> 'b putter \<Rightarrow> 'c putter \<Rightarrow> 'd putter \<Rightarrow> 'r getter \<Rightarrow> nat
     \<Rightarrow> 'a \<Rightarrow> 'b \<Rightarrow> 'c \<Rightarrow> 'd \<Rightarrow> 'r \<Rightarrow> 's \<Rightarrow> ('s \<times> int \<times> 'r) option" where
  "rpcc_call4 call1 okdone put1 put2 put3 put4 get proc a1 a2 a3 a4 r s =
     (let m = []; m = put1 a1 m; m = put2 a2 m; m = put3 a3 m; m = put4 a4 m in call_m call1 okdone get proc m r s)"

definition rpcc_call5 ::
  "'s transport \<Rightarrow> (byte list \<Rightarrow> bool) \<Rightarrow> 'a putter \<Rightarrow> 'b putter \<Rightarrow> 'c putter \<Rightarrow> 'd putter \<Rightarrow> 'e putter \<Rightarrow> 'r getter \<Rightarrow> nat
     \<Rightarrow> 'a \<Rightarrow> 'b \<Rightarrow> 'c \<Rightarrow> 'd \<Rightarrow> 'e \<Rightarrow> 'r \<Rightarrow> 's \<Rightarrow> ('s \<times> int \<times> 'r) option" where
  "rpcc_call5 call1 okdone put1 put2 put3 put4 put5 get proc a1 a2 a3 a4 a5 r s =
     (let m = []; m = put1 a1 m; m = put2 a2 m; m = put3 a3 m; m = put4 a4 m; m = put5 a5 m in call_m call1 okdone get proc m r s)"

definition rpcc_call6 ::
  "'s transport \<Rightarrow> (byte list \<Rightarrow> bool) \<Rightarrow> 'a putter \<Rightarrow> 'b putter \<Rightarrow> 'c putter \<Rightarrow> 'd putter \<Rightarrow> 'e putter \<Rightarrow> 'f putter \<Rightarrow> 'r getter \<Rightarrow> nat
     \<Rightarrow> 'a \<Rightarrow> 'b \<Rightarrow> 'c \<Rightarrow> 'd \<Rightarrow> 'e \<Rightarrow> 'f \<Rightarrow> 'r \<Rightarrow> 's \<Rightarrow> ('s \<times> int \<times> 'r) option" where
  "rpcc_call6 call1 okdone put1 put2 put3 put4 put5 put6 get proc a1 a2 a3 a4 a5 a6 r s =
     (let m = []; m = put1 a1 m; m = put2 a2 m; m = put3 a3 m; m = put4 a4 m; m = put5 a5 m; m = put6 a6 m in call_m call1 okdone get proc m r s)"

definition rpcc_call7 ::
  "'s transport \<Rightarrow> (byte list \<Rightarrow> bool) \<Rightarrow> 'a putter \<Rightarrow> 'b putter \<Rightarrow> 'c putter \<Rightarrow> 'd putter \<Rightarrow> 'e putter \<Rightarrow> 'f putter \<Rightarrow> 'g putter \<Rightarrow> 'r getter \<Rightarrow> nat
     \<Rightarrow> 'a \<Rightarrow> 'b \<Rightarrow> 'c \<Rightarrow> 'd \<Rightarrow> 'e \<Rightarrow> 'f \<Rightarrow> 'g \<Rightarrow> 'r \<Rightarrow> 's \<Rightarrow> ('s \<times> int \<times> 'r) option" where
  "rpcc_call7 call1 okdone put1 put2 put3 put4 put5 put6 put7 get proc a1 a2 a3 a4 a5 a6 a7 r s =
     (let m = []; m = put1 a1 m; m = put2 a2 m; m = put3 a3 m; m = put4 a4 m; m = put5 a5 m; m = put6 a6 m; m = put7 a7 m in call_m call1 okdone get proc m r s)"

section \<open>The server side\<close>

definition reg_fn1 ::
  "(byte list \<Rightarrow> bool) \<Rightarrow> 'a getter \<Rightarrow> 'r putter \<Rightarrow> ('a \<Rightarrow> 's \<Rightarrow> ('s \<times> int \<times> 'r) option) \<Rightarrow> 's stub" where
  "reg_fn1 okdone get1 put meth args s =
     (let (a1, args) = get1 args
      in if \<not> okdone args then Some (s, unmarshal_args_failure, [])
         else do { (s, b, r) \<leftarrow> meth a1 s; Some (s, b, put r []) })"

definition reg_fn2 ::
  "(byte list \<Rightarrow> bool) \<Rightarrow> 'a getter \<Rightarrow> 'b getter \<Rightarrow> 'r putter \<Rightarrow> ('a \<Rightarrow> 'b \<Rightarrow> 's \<Rightarrow> ('s \<times> int \<times> 'r) option) \<Rightarrow> 's stub" where
  "reg_fn2 okdone get1 get2 put meth args s =
     (let (a1, args) = get1 args; (a2, args) = get2 args
      in if \<not> okdone args then Some (s, unmarshal_args_failure, [])
         else do { (s, b, r) \<leftarrow> meth a1 a2 s; Some (s, b, put r []) })"

definition reg_fn3 ::
  "(byte list \<Rightarrow> bool) \<Rightarrow> 'a getter \<Rightarrow> 'b getter \<Rightarrow> 'c getter \<Rightarrow> 'r putter \<Rightarrow>
     ('a \<Rightarrow> 'b \<Rightarrow> 'c \<Rightarrow> 's \<Rightarrow> ('s \<times> int \<times> 'r) option) \<Rightarrow> 's stub" where
  "reg_fn3 okdone get1 get2 get3 put meth args s =
     (let (a1, args) = get1 args; (a2, args) = get2 args; (a3, args) = get3 args
      in if \<not> okdone args then Some (s, unmarshal_args_failure, [])
         else do { (s, b, r) \<leftarrow> meth a1 a2 a3 s; Some (s, b, put r []) })"

definition reg_fn4 ::
  "(byte list \<Rightarrow> bool) \<Rightarrow> 'a getter \<Rightarrow> 'b getter \<Rightarrow> 'c getter \<Rightarrow> 'd getter \<Rightarrow> 'r putter \<Rightarrow>
     ('a \<Rightarrow> 'b \<Rightarrow> 'c \<Rightarrow> 'd \<Rightarrow> 's \<Rightarrow> ('s \<times> int \<times> 'r) option) \<Rightarrow> 's stub" where
  "reg_fn4 okdone get1 get2 get3 get4 put meth args s =
     (let (a1, args) = get1 args; (a2, args) = get2 args; (a3, args) = get3 args; (a4, args) = get4 args
      in if \<not> okdone args then Some (s, unmarshal_args_failure, [])
         else do { (s, b, r) \<leftarrow> meth a1 a2 a3 a4 s; Some (s, b, put r []) })"

definition reg_fn5 ::
  "(byte list \<Rightarrow> bool) \<Rightarrow> 'a getter \<Rightarrow> 'b getter \<Rightarrow> 'c getter \<Rightarrow> 'd getter \<Rightarrow> 'e getter \<Rightarrow> 'r putter \<Rightarrow>
     ('a \<Rightarrow> 'b \<Rightarrow> 'c \<Rightarrow> 'd \<Rightarrow> 'e \<Rightarrow> 's \<Rightarrow> ('s \<times> int \<times> 'r) option) \<Rightarrow> 's stub" where
  "reg_fn5 okdone get1 get2 get3 get4 get5 put meth args s =
     (let (a1, args) = get1 args; (a2, args) = get2 args; (a3, args) = get3 args; (a4, args) = get4 args; (a5, args) = get5 args
      in if \<not> okdone args then Some (s, unmarshal_args_failure, [])
         else do { (s, b, r) \<leftarrow> meth a1 a2 a3 a4 a5 s; Some (s, b, put r []) })"

definition reg_fn6 ::
  "(byte list \<Rightarrow> bool) \<Rightarrow> 'a getter \<Rightarrow> 'b getter \<Rightarrow> 'c getter \<Rightarrow> 'd getter \<Rightarrow> 'e getter \<Rightarrow> 'f getter \<Rightarrow> 'r putter \<Rightarrow>
     ('a \<Rightarrow> 'b \<Rightarrow> 'c \<Rightarrow> 'd \<Rightarrow> 'e \<Rightarrow> 'f \<Rightarrow> 's \<Rightarrow> ('s \<times> int \<times> 'r) option) \<Rightarrow> 's stub" where
  "reg_fn6 okdone get1 get2 get3 get4 get5 get6 put meth args s =
     (let (a1, args) = get1 args; (a2, args) = get2 args; (a3, args) = get3 args; (a4, args) = get4 args; (a5, args) = get5 args; (a6, args) = get6 args
      in if \<not> okdone args then Some (s, unmarshal_args_failure, [])
         else do { (s, b, r) \<leftarrow> meth a1 a2 a3 a4 a5 a6 s; Some (s, b, put r []) })"

definition reg_fn7 ::
  "(byte list \<Rightarrow> bool) \<Rightarrow> 'a getter \<Rightarrow> 'b getter \<Rightarrow> 'c getter \<Rightarrow> 'd getter \<Rightarrow> 'e getter \<Rightarrow> 'f getter \<Rightarrow> 'g getter \<Rightarrow> 'r putter \<Rightarrow>
     ('a \<Rightarrow> 'b \<Rightarrow> 'c \<Rightarrow> 'd \<Rightarrow> 'e \<Rightarrow> 'f \<Rightarrow> 'g \<Rightarrow> 's \<Rightarrow> ('s \<times> int \<times> 'r) option) \<Rightarrow> 's stub" where
  "reg_fn7 okdone get1 get2 get3 get4 get5 get6 get7 put meth args s =
     (let (a1, args) = get1 args; (a2, args) = get2 args; (a3, args) = get3 args; (a4, args) = get4 args; (a5, args) = get5 args; (a6, args) = get6 args; (a7, args) = get7 args
      in if \<not> okdone args then Some (s, unmarshal_args_failure, [])
         else do { (s, b, r) \<leftarrow> meth a1 a2 a3 a4 a5 a6 a7 s; Some (s, b, put r []) })"

section \<open>Calls over a transport that delivers\<close>

text \<open>The call reaches the handler that is registered for \<open>proc\<close>, and its reply the caller.\<close>

definition delivers :: "'s transport \<Rightarrow> nat \<Rightarrow> 's stub \<Rightarrow> bool" where
  "delivers call1 proc h \<longleftrightarrow> (\<forall>req s. call1 proc req s = h req s)"

text \<open>What a direct call of the method gives the caller: its variable stays as it is when the status is negative.\<close>

definition direct :: "('s \<Rightarrow> ('s \<times> int \<times> 'r) option) \<Rightarrow> 'r \<Rightarrow> 's \<Rightarrow> ('s \<times> int \<times> 'r) option" where
  "direct meth r s = do { (s, b, r') \<leftarrow> meth s; Some (s, b, if b < 0 then r else r') }"

lemma call_m_direct:
  assumes "codec R put get" and "okdone []" and "\<And>s. call1 proc req s = do { (s, b, r) \<leftarrow> meth s; Some (s, b, put r []) }"
    and "\<forall>s s' b r'. meth s = Some (s', b, r') \<longrightarrow> R r'"
  shows "call_m call1 okdone get proc req r s = direct meth r s"
proof (cases "meth s")
  case None
  then show ?thesis
    by (simp add: call_m_def direct_def assms(3))
next
  case (Some x)
  obtain s' b r' where x: "x = (s', b, r')"
    by (cases x)
  obtain w where "\<And>m. put r' m = m @ w" "\<And>rest. get (w @ rest) = (r', rest)"
    using codecE [OF assms(1), of r'] assms(4) Some x by blast
  from this(1) [of "[]"] this(2) [of "[]"] show ?thesis
    using Some x assms(2) by (simp add: call_m_def direct_def assms(3))
qed

text \<open>The bytes of one argument.\<close>

definition packs :: "'a putter \<Rightarrow> 'a getter \<Rightarrow> 'a \<Rightarrow> byte list \<Rightarrow> bool" where
  "packs put get a w \<longleftrightarrow> (\<forall>m. put a m = m @ w) \<and> (\<forall>rest. get (w @ rest) = (a, rest))"

lemma codec_packs: "codec A put get \<Longrightarrow> A a \<Longrightarrow> \<exists>w. packs put get a w"
  unfolding packs_def by (metis codecE)

lemma packs_end: "packs put get a w \<Longrightarrow> get w = (a, [])"
  unfolding packs_def by (metis append_Nil2)

lemmas stub_simps = delivers_def packs_def Let_def

lemma remote_call4:
  assumes p: "packs put1 get1 a1 w1" "packs put2 get2 a2 w2" "packs put3 get3 a3 w3" "packs put4 get4 a4 w4"
    and c: "codec R put get" and ok: "okdone []" and r: "\<forall>s s' b r'. meth a1 a2 a3 a4 s = Some (s', b, r') \<longrightarrow> R r'"
    and d: "delivers call1 proc (reg_fn4 okdone get1 get2 get3 get4 put meth)"
  shows "rpcc_call4 call1 okdone put1 put2 put3 put4 get proc a1 a2 a3 a4 r s = direct (meth a1 a2 a3 a4) r s"
proof -
  have "call_m call1 okdone get proc (w1 @ w2 @ w3 @ w4) r s = direct (meth a1 a2 a3 a4) r s"
    by (rule call_m_direct [where R = R and okdone = okdone and meth = "meth a1 a2 a3 a4", OF c ok _ r]) (use d p ok packs_end [OF p(4)] in \<open>simp add: reg_fn4_def stub_simps\<close>)
  then show ?thesis
    using p by (simp add: rpcc_call4_def stub_simps)
qed

lemma remote_call5:
  assumes p: "packs put1 get1 a1 w1" "packs put2 get2 a2 w2" "packs put3 get3 a3 w3" "packs put4 get4 a4 w4" "packs put5 get5 a5 w5"
    and c: "codec R put get" and ok: "okdone []" and r: "\<forall>s s' b r'. meth a1 a2 a3 a4 a5 s = Some (s', b, r') \<longrightarrow> R r'"
    and d: "delivers call1 proc (reg_fn5 okdone get1 get2 get3 get4 get5 put meth)"
  shows "rpcc_call5 call1 okdone put1 put2 put3 put4 put5 get proc a1 a2 a3 a4 a5 r s = direct (meth a1 a2 a3 a4 a5) r s"
proof -
  have "call_m call1 okdone get proc (w1 @ w2 @ w3 @ w4 @ w5) r s = direct (meth a1 a2 a3 a4 a5) r s"
    by (rule call_m_direct [where R = R and okdone = okdone and meth = "meth a1 a2 a3 a4 a5", OF c ok _ r]) (use d p ok packs_end [OF p(5)] in \<open>simp add: reg_fn5_def stub_simps\<close>)
  then show ?thesis
    using p by (simp add: rpcc_call5_def stub_simps)
qed

lemma remote_call6:
  assumes p: "packs put1 get1 a1 w1" "packs put2 get2 a2 w2" "packs put3 get3 a3 w3" "packs put4 get4 a4 w4" "packs put5 get5 a5 w5" "packs put6 get6 a6 w6"
    and c: "codec R put get" and ok: "okdone []" and r: "\<forall>s s' b r'. meth a1 a2 a3 a4 a5 a6 s = Some (s', b, r') \<longrightarrow> R r'"
    and d: "delivers call1 proc (reg_fn6 okdone get1 get2 get3 get4 get5 get6 put meth)"
  shows "rpcc_call6 call1 okdone put1 put2 put3 put4 put5 put6 get proc a1 a2 a3 a4 a5 a6 r s = direct (meth a1 a2 a3 a4 a5 a6) r s"
proof -
  have "call_m call1 okdone get proc (w1 @ w2 @ w3 @ w4 @ w5 @ w6) r s = direct (meth a1 a2 a3 a4 a5 a6) r s"
    by (rule call_m_direct [where R = R and okdone = okdone and meth = "meth a1 a2 a3 a4 a5 a6", OF c ok _ r]) (use d p ok packs_end [OF p(6)] in \<open>simp add: reg_fn6_def stub_simps\<close>)
  then show ?thesis
    using p by (simp add: rpcc_call6_def stub_simps)
qed

lemma remote_call7:
  assumes p: "packs put1 get1 a1 w1" "packs put2 get2 a2 w2" "packs put3 get3 a3 w3" "packs put4 get4 a4 w4" "packs put5 get5 a5 w5" "packs put6 get6 a6 w6" "packs put7 get7 a7 w7"
    and c: "codec R put get" and ok: "okdone []" and r: "\<forall>s s' b r'. meth a1 a2 a3 a4 a5 a6 a7 s = Some (s', b, r') \<longrightarrow> R r'"
    and d: "delivers call1 proc (reg_fn7 okdone get1 get2 get3 get4 get5 get6 get7 put meth)"
  shows "rpcc_call7 call1 okdone put1 put2 put3 put4 put5 put6 put7 get proc a1 a2 a3 a4 a5 a6 a7 r s = direct (meth a1 a2 a3 a4 a5 a6 a7) r s"
proof -
  have "call_m call1 okdone get proc (w1 @ w2 @ w3 @ w4 @ w5 @ w6 @ w7) r s = direct (meth a1 a2 a3 a4 a5 a6 a7) r s"
    by (rule call_m_direct [where R = R and okdone = okdone and meth = "meth a1 a2 a3 a4 a5 a6 a7", OF c ok _ r]) (use d p ok packs_end [OF p(7)] in \<open>simp add: reg_fn7_def stub_simps\<close>)
  then show ?thesis
    using p by (simp add: rpcc_call7_def stub_simps)
qed

text \<open>
  C14. Over a transport that delivers, a remote call with one, two or three arguments is a call of the registered method: the method gets the
  arguments the caller passed, and the caller gets the status and the result, packed and unpacked in between, or keeps its
  variable when the status is negative.
\<close>

theorem remote_call_is_local_call:
  assumes c: "codec A put1 get1" "codec B put2 get2" "codec C put3 get3" "codec R put get"
    and a: "A a1" "B a2" "C a3" and ok: "okdone []"
    and r1: "\<forall>s s' b r'. meth1 a1 s = Some (s', b, r') \<longrightarrow> R r'"
    and r2: "\<forall>s s' b r'. meth2 a1 a2 s = Some (s', b, r') \<longrightarrow> R r'"
    and r3: "\<forall>s s' b r'. meth3 a1 a2 a3 s = Some (s', b, r') \<longrightarrow> R r'"
    and d: "delivers call1 p1 (reg_fn1 okdone get1 put meth1)" "delivers call1 p2 (reg_fn2 okdone get1 get2 put meth2)"
      "delivers call1 p3 (reg_fn3 okdone get1 get2 get3 put meth3)"
  shows "rpcc_call1 call1 okdone put1 get p1 a1 r s = direct (meth1 a1) r s \<and>
    rpcc_call2 call1 okdone put1 put2 get p2 a1 a2 r s = direct (meth2 a1 a2) r s \<and>
    rpcc_call3 call1 okdone put1 put2 put3 get p3 a1 a2 a3 r s = direct (meth3 a1 a2 a3) r s"
proof -
  obtain w1 where w1: "\<And>m. put1 a1 m = m @ w1" "\<And>rest. get1 (w1 @ rest) = (a1, rest)"
    using codecE [OF c(1) a(1)] by blast
  obtain w2 where w2: "\<And>m. put2 a2 m = m @ w2" "\<And>rest. get2 (w2 @ rest) = (a2, rest)"
    using codecE [OF c(2) a(2)] by blast
  obtain w3 where w3: "\<And>m. put3 a3 m = m @ w3" "\<And>rest. get3 (w3 @ rest) = (a3, rest)"
    using codecE [OF c(3) a(3)] by blast
  note e = w1(2) [of "[]", simplified] w2(2) [of "[]", simplified] w3(2) [of "[]", simplified]
  have "call_m call1 okdone get p1 w1 r s = direct (meth1 a1) r s"
    by (rule call_m_direct [where R = R and okdone = okdone and meth = "meth1 a1", OF c(4) ok _ r1]) (use d(1) in \<open>simp add: delivers_def reg_fn1_def e ok\<close>)
  moreover have "call_m call1 okdone get p2 (w1 @ w2) r s = direct (meth2 a1 a2) r s"
    by (rule call_m_direct [where R = R and okdone = okdone and meth = "meth2 a1 a2", OF c(4) ok _ r2]) (use d(2) in \<open>simp add: delivers_def reg_fn2_def w1 e ok\<close>)
  moreover have "call_m call1 okdone get p3 (w1 @ w2 @ w3) r s = direct (meth3 a1 a2 a3) r s"
    by (rule call_m_direct [where R = R and okdone = okdone and meth = "meth3 a1 a2 a3", OF c(4) ok _ r3]) (use d(3) in \<open>simp add: delivers_def reg_fn3_def w1 w2 e ok\<close>)
  ultimately show ?thesis
    by (simp add: rpcc_call1_def rpcc_call2_def rpcc_call3_def w1(1) w2(1) w3(1))
qed

text \<open>A server that adds its arguments to a counter.\<close>

definition counter1 :: "nat \<Rightarrow> nat \<Rightarrow> (nat \<times> int \<times> nat) option" where
  "counter1 a s = Some (s + a, 0, (s + a) mod 2 ^ 32)"

definition counter2 :: "nat \<Rightarrow> nat \<Rightarrow> nat \<Rightarrow> (nat \<times> int \<times> nat) option" where
  "counter2 a b s = counter1 (a + b) s"

definition counter3 :: "nat \<Rightarrow> nat \<Rightarrow> nat \<Rightarrow> nat \<Rightarrow> (nat \<times> int \<times> nat) option" where
  "counter3 a b c s = counter1 (a + b + c) s"

definition counter_transport :: "nat transport" where
  "counter_transport proc =
     (if proc = 1 then reg_fn1 (\<lambda>u. u = []) get_uint_le put_uint_le counter1
      else if proc = 2 then reg_fn2 (\<lambda>u. u = []) get_uint_le get_uint_le put_uint_le counter2
      else reg_fn3 (\<lambda>u. u = []) get_uint_le get_uint_le get_uint_le put_uint_le counter3)"

theorem remote_call_is_local_call_witness:
  "rpcc_call2 counter_transport (\<lambda>u. u = []) put_uint_le put_uint_le get_uint_le 2 5 6 0 10 = Some (21, 0, 21)"
  using remote_call_is_local_call [OF codec_uint_le codec_uint_le codec_uint_le codec_uint_le, of 5 6 7 "\<lambda>u. u = []" counter1 counter2 counter3
      counter_transport 1 2 3 0 10]
  by (simp add: counter_transport_def delivers_def counter1_def counter2_def counter3_def direct_def)

text \<open>The model of the extent client's calls, when the network delivers, is the direct call.\<close>

lemma rpc_call_direct:
  "reliable net \<Longrightarrow> rpc_call net envs h r s =
     direct (\<lambda>s. do { (im, b, r) \<leftarrow> h (envs (x_calls s)) (x_im s); Some (s\<lparr>x_calls := x_calls s + 1, x_im := im\<rparr>, b, r) }) r s"
  by (cases "h (envs (x_calls s)) (x_im s)") (auto simp: rpc_call_def direct_def reliable_def Let_def)

end
