(* ===== verification/Hrpc.thy ===== *)
theory Hrpc
  imports Yfs_Prelude
begin

text \<open>
  The framing of the protobuf RPC that name node and data nodes speak,
  \<open>src/yfs/hrpc.h\<close>: a length in network byte order, then messages that each carry their own
  length as a varint. Serialisation of a message is the protobuf library's; a message that is
  sent is the pair of its \<open>ByteSize()\<close> and its bytes, and a received one is the result of a
  function \<open>parse\<close> on the bytes. The loop that writes a varint is inline in the library's
  header under \<open>src/yfs/proto/output\<close>. The lemmas show that what one side writes the other one
  reads, and when it does not.
\<close>

section \<open>Varints\<close>

text \<open>The bytes \<open>WriteVarint32ToArray\<close> stores from \<open>target\<close> on.\<close>

fun WriteVarint32ToArray :: "nat \<Rightarrow> byte list" where
  "WriteVarint32ToArray v =
     (if 0x80 \<le> v then (of_nat v OR 0x80) # WriteVarint32ToArray (v div 2 ^ 7) else [of_nat v])"

declare WriteVarint32ToArray.simps [simp del]

text \<open>
  \<open>x << shift\<close> in \<open>int\<close>, 32 bits wide, and converted to \<open>uint64_t\<close>: the sign bit is
  extended. Shifting by the width or more is undefined.
\<close>

definition int_shl :: "nat \<Rightarrow> nat \<Rightarrow> nat option" where
  "int_shl x shift =
     (if 32 \<le> shift then None
      else let v = x * 2 ^ shift mod 2 ^ 32 in Some (if v < 2 ^ 31 then v else v + (2 ^ 64 - 2 ^ 32)))"

text \<open>\<open>Some None\<close> is the result -1; otherwise the value and the bytes from \<open>*p\<close> on.\<close>

fun ReadVariant :: "byte list \<Rightarrow> nat \<Rightarrow> nat \<Rightarrow> (nat \<times> byte list) option option" where
  "ReadVariant [] shift res = Some None"
| "ReadVariant (x # p) shift res =
     do {
       d \<leftarrow> int_shl (unat (x AND 0x7f)) shift;
       (if 0x80 \<le> x then ReadVariant p (shift + 7) (res OR d) else Some (Some (res OR d, p)))
     }"

section \<open>Messages\<close>

type_synonym out_msg = "nat \<times> byte list"

text \<open>\<open>VarintSize64\<close> is a function of the library.\<close>

definition GetDelimitedLength :: "(nat \<Rightarrow> nat) \<Rightarrow> out_msg \<Rightarrow> nat" where
  "GetDelimitedLength VarintSize64 a = fst a + VarintSize64 (fst a)"

text \<open>\<open>htonl\<close> and the four bytes of a \<open>uint32_t\<close>, and back.\<close>

definition be32 :: "nat \<Rightarrow> byte list" where
  "be32 n = [of_nat (n div 2 ^ 24), of_nat (n div 2 ^ 16), of_nat (n div 2 ^ 8), of_nat n]"

definition of_be32 :: "byte list \<Rightarrow> nat" where
  "of_be32 b = foldl (\<lambda>n x. n * 256 + unat x) 0 b"

definition write_delimited :: "out_msg \<Rightarrow> byte list" where
  "write_delimited a = WriteVarint32ToArray (fst a mod 2 ^ 32) @ snd a"

definition HrpcWrite1 :: "(nat \<Rightarrow> nat) \<Rightarrow> out_msg \<Rightarrow> byte list" where
  "HrpcWrite1 vs a1 =
     (let len = GetDelimitedLength vs a1 mod 2 ^ 32
      in be32 len @ write_delimited a1)"

definition HrpcWrite2 :: "(nat \<Rightarrow> nat) \<Rightarrow> out_msg \<Rightarrow> out_msg \<Rightarrow> byte list" where
  "HrpcWrite2 vs a1 a2 =
     (let len = GetDelimitedLength vs a1 mod 2 ^ 32;
          len = (len + GetDelimitedLength vs a2) mod 2 ^ 32
      in be32 len @ write_delimited a1 @ write_delimited a2)"

definition HrpcWrite3 :: "(nat \<Rightarrow> nat) \<Rightarrow> out_msg \<Rightarrow> out_msg \<Rightarrow> out_msg \<Rightarrow> byte list" where
  "HrpcWrite3 vs a1 a2 a3 =
     (let len = GetDelimitedLength vs a1 mod 2 ^ 32;
          len = (len + GetDelimitedLength vs a2) mod 2 ^ 32;
          len = (len + GetDelimitedLength vs a3) mod 2 ^ 32
      in be32 len @ write_delimited a1 @ write_delimited a2 @ write_delimited a3)"

text \<open>
  \<open>*p + len > pend\<close> is only defined while the sum stays inside the address space; a length
  of \<open>2 ^ 63\<close> and more wraps around.
\<close>

definition ReadDelimited :: "(byte list \<Rightarrow> 'm option) \<Rightarrow> byte list \<Rightarrow> ('m \<times> byte list) option option" where
  "ReadDelimited parse buf =
     do {
       r \<leftarrow> ReadVariant buf 0 0;
       (case r of
          None \<Rightarrow> Some None
        | Some (len, p) \<Rightarrow>
            if 2 ^ 63 \<le> len then None
            else if length p < len then Some None
            else (case parse (take len p) of
                    None \<Rightarrow> Some None
                  | Some t \<Rightarrow> Some (Some (t, drop len p))))
     }"

text \<open>
  What has arrived on a connection, segment by segment: \<open>read\<close> returns bytes of the first
  segment only, and nothing when the peer has closed the connection.
\<close>

type_synonym conn = "byte list list"

fun fd_read :: "nat \<Rightarrow> conn \<Rightarrow> byte list \<times> conn" where
  "fd_read n [] = ([], [])"
| "fd_read n (seg # rest) = (if n < length seg then (take n seg, drop n seg # rest) else (seg, rest))"

definition HrpcRead :: "conn \<Rightarrow> byte list option \<times> conn" where
  "HrpcRead fd =
     (let (h, fd) = fd_read 4 fd
      in if length h \<noteq> 4 then (None, fd)
         else let len = of_be32 h; (a1, fd) = fd_read len fd
              in if length a1 \<noteq> len then (None, fd) else (Some a1, fd))"

definition HrpcRead1 :: "(byte list \<Rightarrow> 'a option) \<Rightarrow> conn \<Rightarrow> (('a \<times> byte list) option \<times> conn) option" where
  "HrpcRead1 parse fd =
     (case HrpcRead fd of
        (None, fd) \<Rightarrow> Some (None, fd)
      | (Some a2, fd) \<Rightarrow> do { r \<leftarrow> ReadDelimited parse a2; Some (r, fd) })"

definition HrpcRead2 ::
  "(byte list \<Rightarrow> 'a option) \<Rightarrow> (byte list \<Rightarrow> 'b option) \<Rightarrow> conn \<Rightarrow> (('a \<times> 'b \<times> byte list) option \<times> conn) option" where
  "HrpcRead2 parse1 parse2 fd =
     do {
       (r, fd) \<leftarrow> HrpcRead1 parse1 fd;
       (case r of
          None \<Rightarrow> Some (None, fd)
        | Some (a1, a3) \<Rightarrow>
            do {
              r \<leftarrow> ReadDelimited parse2 a3;
              Some (map_option (\<lambda>(a2, a3). (a1, a2, a3)) r, fd)
            })
     }"

section \<open>Varints round trip\<close>

lemma all_bytes: "(\<forall>n < 256. P (of_nat n :: byte)) \<Longrightarrow> P x"
  using unat_byte_less [of x] by (metis word_unat_eq_iff unat_byte_of_nat mod_less)

lemma byte_or_128: "0x80 \<le> (x OR 0x80 :: byte) \<and> (x OR 0x80) AND 0x7f = x AND 0x7f"
proof (rule all_bytes [of _ x])
  have "list_all (\<lambda>n. 0x80 \<le> (of_nat n OR 0x80 :: byte) \<and> (of_nat n OR 0x80) AND 0x7f = (of_nat n :: byte) AND 0x7f)
          [0..<256]"
    by code_simp
  then show "\<forall>n<256. 0x80 \<le> (of_nat n OR 0x80 :: byte) \<and> (of_nat n OR 0x80) AND 0x7f = (of_nat n :: byte) AND 0x7f"
    by (auto simp: list_all_iff)
qed

lemma unat_and_127: "unat (x AND 0x7f :: byte) = unat x mod 128"
proof (rule all_bytes [of _ x])
  have "list_all (\<lambda>n. unat (of_nat n AND 0x7f :: byte) = unat (of_nat n :: byte) mod 128) [0..<256]"
    by code_simp
  then show "\<forall>n<256. unat (of_nat n AND 0x7f :: byte) = unat (of_nat n :: byte) mod 128"
    by (auto simp: list_all_iff)
qed

lemma unat_of_nat_and_127: "unat (of_nat v AND 0x7f :: byte) = v mod 128"
proof -
  have "v mod 256 mod 128 = v mod 128"
    by (simp add: mod_mod_cancel)
  then show ?thesis
    by (simp add: unat_and_127 unat_byte_of_nat)
qed

lemma or_shifted: "(res :: nat) < 2 ^ s \<Longrightarrow> res OR d * 2 ^ s = res + d * 2 ^ s"
proof -
  assume res: "res < 2 ^ s"
  have "\<not> bit res n \<or> \<not> bit (d * 2 ^ s) n" for n
  proof (cases "s \<le> n")
    case True
    then have "res < 2 ^ n"
      using res power_increasing [of s n "2 :: nat"] by linarith
    then show ?thesis
      by (simp add: bit_iff_odd)
  next
    case False
    then show ?thesis
      by (metis bit_push_bit_iff_nat push_bit_eq_mult)
  qed
  then show ?thesis
    by (simp add: disjunctive_add)
qed

lemma int_shl_small: "x * 2 ^ s < 2 ^ 31 \<Longrightarrow> s < 32 \<Longrightarrow> int_shl x s = Some (x * 2 ^ s)"
  by (simp add: int_shl_def)

lemma ReadVariant_write:
  assumes "v * 2 ^ s < 2 ^ 31" and "s < 32" and "res < 2 ^ s"
  shows "ReadVariant (WriteVarint32ToArray v @ p) s res = Some (Some (res + v * 2 ^ s, p))"
  using assms
proof (induction v arbitrary: s res rule: WriteVarint32ToArray.induct)
  case (1 v)
  have d: "int_shl (v mod 128) s = Some (v mod 128 * 2 ^ s)"
    using 1(2,3) le_less_trans [OF mult_le_mono1 [of "v mod 128" v "2 ^ s"]] by (intro int_shl_small) simp_all
  have o: "res OR v mod 128 * 2 ^ s = res + v mod 128 * 2 ^ s"
    by (rule or_shifted [OF 1(4)])
  show ?case
  proof (cases "0x80 \<le> v")
    case True
    have split: "v mod 128 * 2 ^ s + v div 128 * 2 ^ (s + 7) = v * 2 ^ s"
      by (simp add: power_add algebra_simps flip: distrib_right) (metis add.commute distrib_left mod_mult_div_eq mult.commute mult.left_commute)
    then have a: "v div 2 ^ 7 * 2 ^ (s + 7) < 2 ^ 31"
      using 1(2) by simp
    have "1 * 2 ^ (s + 7) \<le> v div 2 ^ 7 * (2 :: nat) ^ (s + 7)"
      using True by (intro mult_le_mono1) (simp add: div_greater_zero_iff Suc_leI)
    then have "2 ^ (s + 7) < (2 :: nat) ^ 31"
      using a by linarith
    then have b: "s + 7 < 32"
      using power_less_imp_less_exp [of "2 :: nat" "s + 7" 31] by simp
    have "v mod 128 * 2 ^ s \<le> 127 * (2 :: nat) ^ s"
      by (intro mult_le_mono1) (simp add: less_Suc_eq_le [symmetric])
    have c: "res + v mod 128 * 2 ^ s < 2 ^ (s + 7)"
    proof -
      have "2 ^ (s + 7) = 128 * (2 :: nat) ^ s"
        by (simp add: power_add)
      then show ?thesis
        using \<open>v mod 128 * 2 ^ s \<le> 127 * 2 ^ s\<close> 1(4) by linarith
    qed
    show ?thesis
      using 1(1) [OF True a b c] True d o split
      by (subst WriteVarint32ToArray.simps) (simp add: byte_or_128 unat_of_nat_and_127)
  next
    case False
    then have "\<not> 0x80 \<le> (of_nat v :: byte)" "v mod 128 = v"
      by (simp_all add: word_le_nat_alt unat_byte_of_nat)
    then show ?thesis
      using False d o by (subst WriteVarint32ToArray.simps) (simp add: unat_of_nat_and_127)
  qed
qed

lemma varint_roundtrip: "v < 2 ^ 31 \<Longrightarrow> ReadVariant (WriteVarint32ToArray v @ p) 0 0 = Some (Some (v, p))"
  using ReadVariant_write [of v 0 0 p] by simp

section \<open>Messages round trip\<close>

lemma of_be32_be32: "of_be32 (be32 n) = n mod 2 ^ 32"
proof -
  have "n mod 2 ^ 32 = n mod 256 + 256 * (n div 256 mod 256 + 256 * (n div 256 div 256 mod 256 + 256 * (n div 256 div 256 div 256 mod 256)))"
    using mod_mult2_eq [of n 256 "2 ^ 24"] mod_mult2_eq [of "n div 256" 256 "2 ^ 16"]
      mod_mult2_eq [of "n div 256 div 256" 256 256] by simp
  then show ?thesis
    by (simp add: of_be32_def be32_def unat_byte_of_nat div_mult2_eq [symmetric])
qed

lemma length_be32: "length (be32 n) = 4"
  by (simp add: be32_def)

lemma ReadDelimited_write:
  assumes "fst a = length (snd a)" and "fst a < 2 ^ 31" and "parse (snd a) = Some t"
  shows "ReadDelimited parse (write_delimited a @ rest) = Some (Some (t, rest))"
  using assms varint_roundtrip [of "fst a" "snd a @ rest"] by (simp add: ReadDelimited_def write_delimited_def)

lemma GetDelimitedLength_write:
  assumes "\<forall>n < 2 ^ 32. vs n = length (WriteVarint32ToArray n)" and "fst a = length (snd a)" and "fst a < 2 ^ 31"
  shows "GetDelimitedLength vs a = length (write_delimited a)"
  using assms by (simp add: GetDelimitedLength_def write_delimited_def)

lemma HrpcRead_frame:
  assumes "body \<noteq> []" and "length body < 2 ^ 32"
  shows "HrpcRead ((be32 (length body) @ body) # fd) = (Some body, fd)"
  using assms by (simp add: HrpcRead_def length_be32 of_be32_be32)

lemma write_delimited_nonempty: "write_delimited a \<noteq> []"
  by (simp add: write_delimited_def WriteVarint32ToArray.simps)

text \<open>
  C17. A request of three messages, as a data node sends it, is read by \<open>HrpcRead\<close> with its two
  headers and the bytes of the third message, which \<open>ReadDelimited\<close> gets out of them, when it arrives
  in one segment and is smaller than \<open>2 ^ 31\<close> bytes; the connection is left after the request.
  Of the protobuf library this uses that \<open>ByteSize\<close> is the number of serialised bytes, that
  parsing inverts serialisation, and that \<open>VarintSize64\<close> is the number of bytes of a varint.
\<close>

theorem hrpc_roundtrip:
  assumes vs: "\<forall>n < 2 ^ 32. vs n = length (WriteVarint32ToArray n)"
    and a: "fst a1 = length (snd a1)" "fst a2 = length (snd a2)" "fst a3 = length (snd a3)"
    and parse: "parse1 (snd a1) = Some t1" "parse2 (snd a2) = Some t2" "parse3 (snd a3) = Some t3"
    and size: "length (write_delimited a1) + length (write_delimited a2) + length (write_delimited a3) < 2 ^ 31"
  shows "\<exists>buf. HrpcRead2 parse1 parse2 (HrpcWrite3 vs a1 a2 a3 # fd) = Some (Some (t1, t2, buf), fd) \<and>
           ReadDelimited parse3 buf = Some (Some (t3, []))"
proof -
  let ?b = "write_delimited a1 @ write_delimited a2 @ write_delimited a3"
  have le: "fst a1 < 2 ^ 31" "fst a2 < 2 ^ 31" "fst a3 < 2 ^ 31"
    using size a by (simp_all add: write_delimited_def)
  note gl = GetDelimitedLength_write [OF vs a(1) le(1)] GetDelimitedLength_write [OF vs a(2) le(2)]
    GetDelimitedLength_write [OF vs a(3) le(3)]
  have w: "HrpcWrite3 vs a1 a2 a3 = be32 (length ?b) @ ?b"
    using size by (simp add: HrpcWrite3_def Let_def gl add.assoc)
  have "HrpcRead ((be32 (length ?b) @ ?b) # fd) = (Some ?b, fd)"
    using size write_delimited_nonempty by (intro HrpcRead_frame) simp_all
  then show ?thesis
    using ReadDelimited_write [of a1 parse1 t1 "write_delimited a2 @ write_delimited a3", OF a(1) le(1) parse(1)]
      ReadDelimited_write [of a2 parse2 t2 "write_delimited a3", OF a(2) le(2) parse(2)]
      ReadDelimited_write [of a3 parse3 t3 "[]", OF a(3) le(3) parse(3)]
    unfolding w by (simp add: HrpcRead2_def HrpcRead1_def)
qed

theorem hrpc_roundtrip_witness:
  "\<exists>buf. HrpcRead2 Some Some
      [HrpcWrite3 (\<lambda>n. length (WriteVarint32ToArray n)) (2, [7, 8]) (1, [9]) (0, []), [1]] =
        Some (Some ([7, 8], [9], buf), [[1]]) \<and>
     ReadDelimited Some buf = Some (Some ([], []))"
  using hrpc_roundtrip [of "\<lambda>n. length (WriteVarint32ToArray n)" "(2, [7, 8])" "(1, [9])" "(0, [])"
      Some "[7, 8]" Some "[9]" Some "[]" "[[1]]"]
  by (simp add: write_delimited_def WriteVarint32ToArray.simps)

text \<open>
  \<open>HrpcRead\<close> calls \<open>read\<close> once for the length and once for the rest: a request whose body
  arrives in two segments is refused, and the second segment is taken for the next request.
\<close>

lemma hrpc_short_read:
  assumes "0 < k" and "k < length body" and "length body < 2 ^ 32"
  shows "HrpcRead ((be32 (length body) @ take k body) # drop k body # fd) = (None, drop k body # fd)"
  using assms by (simp add: HrpcRead_def length_be32 of_be32_be32)

lemma hrpc_short_read_witness: "HrpcRead [be32 3 @ [1], [2, 3]] = (None, [[2, 3]])"
  using hrpc_short_read [of 1 "[1, 2, 3]" "[]"] by (simp add: numeral_3_eq_3)

end
