(* ===== verification/Datanode.thy ===== *)
theory Datanode
  imports Yfs_Theorems Hrpc
begin

text \<open>
  A data node, \<open>src/yfs/datanode.cc\<close> and \<open>src/yfs/datanode_base.cc\<close>: it serves the blocks of the
  extent server to clients and passes writes on to the next data node of a pipeline. A connection is
  the bytes that will come in, what has been written to it, and a function that says when
  writing starts to fail. Messages are read and serialised by the protobuf library: the record \<open>dn_lib\<close> has
  its functions. The framing of packets around them is modelled byte by byte.
  \<open>None\<close> is an exception, which nothing catches, or undefined behaviour: the process ends.
\<close>

definition PACKET_SIZE :: nat where "PACKET_SIZE = 16384"

section \<open>Messages\<close>

datatype dn_status = SUCCESS | ERROR | OTHER nat

record packet_header =
  ph_offset :: int
  ph_seqno :: int
  ph_last :: bool
  ph_datalen :: int

record dn_target =
  tg_ip :: string
  tg_port :: nat

record read_req =
  rr_bid :: nat
  rr_offset :: nat
  rr_len :: nat

record write_req =
  wr_bid :: nat
  wr_targets :: "dn_target list"
  wr_storagetypes :: "nat list"
  wr_pinnings :: "bool list"
  wr_stage :: nat
  wr_pipelinesize :: nat
  wr_minbytes :: nat
  wr_maxbytes :: nat
  wr_genstamp :: nat
  wr_checksum :: "nat \<times> nat"

record transfer_req =
  tr_bid :: nat
  tr_targets :: "dn_target list"
  tr_storagetypes :: "nat list"

text \<open>
  Reading a message is \<open>ReadLengthAndPushLimit\<close>, \<open>ParseFromCodedStream\<close> and
  \<open>CheckEntireMessageConsumedAndPopLimit\<close>: the message or a failure, and the bytes that are left. A header of
  a packet is parsed from exactly the bytes of its limit; \<open>False\<close> is a failure, with the fields as far as they were read.
\<close>

record dn_lib =
  rd_read :: "byte list \<Rightarrow> read_req option \<times> byte list"
  rd_write :: "byte list \<Rightarrow> write_req option \<times> byte list"
  rd_transfer :: "byte list \<Rightarrow> transfer_req option \<times> byte list"
  rd_resp :: "byte list \<Rightarrow> dn_status option \<times> byte list"
  rd_ack :: "byte list \<Rightarrow> (int \<times> dn_status list) option \<times> byte list"
  pr_header :: "byte list \<Rightarrow> bool \<times> packet_header"
  ser_header :: "packet_header \<Rightarrow> byte list"

datatype dn_out =
  Block_resp dn_status
| Read_resp nat
| Packet "byte list"
| Ack int "dn_status list"
| Raw "byte list"
| Write_op write_req

record dn_conn =
  c_in :: "byte list"
  c_out :: "dn_out list"
  c_err :: "nat \<Rightarrow> bool"

definition put_out :: "dn_out \<Rightarrow> dn_conn \<Rightarrow> dn_conn" where
  "put_out x c = c\<lparr>c_out := c_out c @ [x]\<rparr>"

section \<open>Blocks\<close>

text \<open>The status of \<open>read_block\<close> is ignored. \<open>uint64_t\<close> offsets, \<open>string::substr\<close> throws behind the end.\<close>

definition ReadBlock ::
  "(nat \<Rightarrow> rpc_outcome) \<Rightarrow> (nat \<Rightarrow> env) \<Rightarrow> nat \<Rightarrow> nat \<Rightarrow> nat \<Rightarrow> extent_sys \<Rightarrow> (extent_sys \<times> bool \<times> string) option" where
  "ReadBlock net envs bid offset len s =
     do {
       (s, _, block_buf) \<leftarrow> cl_read_block net envs (bid mod 2 ^ 32) [] s;
       Some (s, True, if length block_buf < offset then [] else take len (drop offset block_buf))
     }"

definition WriteBlock ::
  "(nat \<Rightarrow> rpc_outcome) \<Rightarrow> (nat \<Rightarrow> env) \<Rightarrow> nat \<Rightarrow> nat \<Rightarrow> nat \<Rightarrow> string \<Rightarrow> extent_sys \<Rightarrow> (extent_sys \<times> bool) option" where
  "WriteBlock net envs bid offset len buf s =
     do {
       (s, _, block_buf) \<leftarrow> cl_read_block net envs (bid mod 2 ^ 32) [] s;
       (s, _, read_content) \<leftarrow> cl_read_block net envs (bid mod 2 ^ 32) [] s;
       tail \<leftarrow> substr read_content ((offset + len) mod 2 ^ 64);
       (s, _) \<leftarrow> cl_write_block net envs (bid mod 2 ^ 32) (take offset read_content @ buf @ tail) s;
       Some (s, True)
     }"

section \<open>Packets\<close>

definition be16 :: "nat \<Rightarrow> byte list" where
  "be16 n = [of_nat (n div 2 ^ 8), of_nat n]"

definition ReadRaw :: "nat \<Rightarrow> byte list \<Rightarrow> byte list option \<times> byte list" where
  "ReadRaw n is = (if length is < n then (None, []) else (Some (take n is), drop n is))"

definition ReadOp :: "byte list \<Rightarrow> nat option \<times> byte list" where
  "ReadOp is =
     (case ReadRaw 3 is of
        (None, is) \<Rightarrow> (None, is)
      | (Some buf, is) \<Rightarrow> if buf ! 0 \<noteq> 0 \<or> buf ! 1 \<noteq> 28 then (None, is) else (Some (unat (buf ! 2)), is))"

text \<open>\<open>plen\<close> is a \<open>uint32_t\<close>; \<open>WriteRaw\<close> takes as many bytes of the buffer as the header says.\<close>

definition packet_bytes :: "dn_lib \<Rightarrow> packet_header \<Rightarrow> string \<Rightarrow> byte list" where
  "packet_bytes lib header buf =
     be32 (nat ((4 + ph_datalen header) mod 2 ^ 32)) @ be16 25 @ ser_header lib header
       @ map byte_of_char (take (nat (ph_datalen header)) buf)"

definition WritePacket :: "dn_lib \<Rightarrow> packet_header \<Rightarrow> string \<Rightarrow> dn_conn \<Rightarrow> dn_conn \<times> bool" where
  "WritePacket lib header buf c =
     (let c = put_out (Packet (packet_bytes lib header buf)) c in (c, \<not> c_err c (length (c_out c))))"

definition WritePacket_at :: "dn_lib \<Rightarrow> nat \<Rightarrow> nat \<Rightarrow> bool \<Rightarrow> nat \<Rightarrow> string \<Rightarrow> dn_conn \<Rightarrow> dn_conn \<times> bool" where
  "WritePacket_at lib offset_in_block seqno last_in_block len buf c =
     WritePacket lib \<lparr>ph_offset = int offset_in_block, ph_seqno = int seqno, ph_last = last_in_block, ph_datalen = int len\<rparr> buf c"

definition header0 :: packet_header where
  "header0 = \<lparr>ph_offset = 0, ph_seqno = 0, ph_last = False, ph_datalen = 0\<rparr>"

text \<open>\<open>Skip\<close> takes an \<open>int\<close>, refuses a negative one, and stops at the end of the input.\<close>

definition Skip :: "int \<Rightarrow> byte list \<Rightarrow> byte list" where
  "Skip count is = (let n = count mod 2 ^ 32 in if 2 ^ 31 \<le> n then is else drop (nat n) is)"

text \<open>The header as far as it was read, the data unless the packet is invalid, and what is left.\<close>

definition ReadPacket :: "dn_lib \<Rightarrow> byte list \<Rightarrow> (packet_header \<times> string option \<times> byte list) option" where
  "ReadPacket lib is =
     (case ReadRaw 4 is of
        (None, is) \<Rightarrow> Some (header0, None, is)
      | (Some plen, is) \<Rightarrow>
          (case ReadRaw 2 is of
             (None, is) \<Rightarrow> Some (header0, None, is)
           | (Some hlen, is) \<Rightarrow>
               if of_be32 hlen \<noteq> 25 then Some (header0, None, is)
               else (case pr_header lib (take 25 is) of
                       (False, header) \<Rightarrow> Some (header, None, drop 25 is)
                     | (True, header) \<Rightarrow>
                         let is = Skip (int (of_be32 plen) - 4 - ph_datalen header) (drop 25 is)
                         in if ph_datalen header < 0 then None
                            else (case ReadRaw (nat (ph_datalen header)) is of
                                    (None, is) \<Rightarrow> Some (header, None, is)
                                  | (Some data, is) \<Rightarrow> Some (header, Some (map char_of_byte data), is)))))"

section \<open>Requests\<close>

function send_block :: "dn_lib \<Rightarrow> nat \<Rightarrow> nat \<Rightarrow> nat \<Rightarrow> string \<Rightarrow> dn_conn \<Rightarrow> dn_conn \<times> bool" where
  "send_block lib offset pos i rest c =
     (if rest = [] then (c, True)
      else if PACKET_SIZE < length rest
      then (case WritePacket_at lib (offset + pos) i False PACKET_SIZE rest c of
              (c, False) \<Rightarrow> (c, False)
            | (c, True) \<Rightarrow> send_block lib offset (pos + PACKET_SIZE) (i + 1) (drop PACKET_SIZE rest) c)
      else (case WritePacket_at lib (offset + pos) i False (length rest) rest c of
              (c, False) \<Rightarrow> (c, False)
            | (c, True) \<Rightarrow> WritePacket_at lib (offset + pos + length rest) (i + 1) True 0 [] c))"
  by pat_completeness auto
termination
  by (relation "measure (\<lambda>(lib, offset, pos, i, rest, c). length rest)") (auto simp: PACKET_SIZE_def)

declare send_block.simps [simp del]

definition dn_ReadBlock ::
  "dn_lib \<Rightarrow> (nat \<Rightarrow> rpc_outcome) \<Rightarrow> (nat \<Rightarrow> env) \<Rightarrow> dn_conn \<Rightarrow> extent_sys \<Rightarrow> (extent_sys \<times> dn_conn \<times> bool) option" where
  "dn_ReadBlock lib net envs c s =
     (case rd_read lib (c_in c) of
        (None, is) \<Rightarrow> Some (s, put_out (Block_resp ERROR) (c\<lparr>c_in := is\<rparr>), False)
      | (Some param, is) \<Rightarrow>
          do {
            (s, ok, block) \<leftarrow> ReadBlock net envs (rr_bid param) (rr_offset param) (rr_len param) s;
            (if \<not> ok then Some (s, put_out (Block_resp ERROR) (c\<lparr>c_in := is\<rparr>), False)
             else let c = put_out (Read_resp (rr_offset param)) (c\<lparr>c_in := is\<rparr>);
                      (c, ok) = send_block lib (rr_offset param) 0 0 block c
                  in Some (s, c, ok))
          })"

text \<open>
  \<open>connect t\<close> is what will come in from the data node \<open>t\<close>, or \<open>None\<close> when the connection or the lookup of
  the address fails. The request goes on without its first target.
\<close>

type_synonym connector = "dn_target \<Rightarrow> dn_conn option"

definition forwarded :: "write_req \<Rightarrow> write_req" where
  "forwarded param =
     param\<lparr>wr_targets := tl (wr_targets param), wr_storagetypes := tl (wr_storagetypes param),
           wr_pinnings := tl (wr_pinnings param)\<rparr>"

definition ConnectToMirror :: "dn_lib \<Rightarrow> connector \<Rightarrow> write_req \<Rightarrow> dn_conn option" where
  "ConnectToMirror lib connect param =
     do {
       m \<leftarrow> connect (hd (wr_targets param));
       let m = put_out (Write_op (forwarded param)) (put_out (Raw [0, 28, 80]) m);
       (case rd_resp lib (c_in m) of
          (Some SUCCESS, is) \<Rightarrow> Some (m\<lparr>c_in := is\<rparr>)
        | _ \<Rightarrow> None)
     }"

definition PIPELINE_SETUP_CREATE :: nat where "PIPELINE_SETUP_CREATE = 6"
definition CHECKSUM_NULL :: nat where "CHECKSUM_NULL = 0"

definition transfer_write :: "transfer_req \<Rightarrow> write_req" where
  "transfer_write param =
     \<lparr>wr_bid = tr_bid param, wr_targets = tr_targets param, wr_storagetypes = tr_storagetypes param, wr_pinnings = [],
      wr_stage = PIPELINE_SETUP_CREATE, wr_pipelinesize = length (tr_targets param), wr_minbytes = 0, wr_maxbytes = 0,
      wr_genstamp = 0, wr_checksum = (CHECKSUM_NULL, 0)\<rparr>"

text \<open>One packet passed on to the mirror, if there is one: its connection, and its part of the acknowledgement.\<close>

definition mirror_packet :: "dn_lib \<Rightarrow> nat \<Rightarrow> packet_header \<Rightarrow> string \<Rightarrow> dn_conn \<Rightarrow> dn_conn \<times> dn_status list" where
  "mirror_packet lib targets header data m =
     (case WritePacket lib header data m of
        (m, False) \<Rightarrow> (m, replicate targets ERROR)
      | (m, True) \<Rightarrow>
          (case rd_ack lib (c_in m) of
             (None, is) \<Rightarrow> (m\<lparr>c_in := is\<rparr>, replicate targets ERROR)
           | (Some (_, replies), is) \<Rightarrow> (m\<lparr>c_in := is\<rparr>, replies)))"

lemma ReadRaw_length: "length (snd (ReadRaw n is)) \<le> length is"
  by (simp add: ReadRaw_def)

lemma ReadRaw_Some: "ReadRaw n is = (Some x, is') \<Longrightarrow> x = take n is \<and> is' = drop n is \<and> n \<le> length is"
  by (auto simp: ReadRaw_def split: if_splits)

lemma Skip_length: "length (Skip n is) \<le> length is"
  by (simp add: Skip_def Let_def)

lemma ReadPacket_shrinks:
  assumes "ReadPacket lib is = Some (header, Some data, is')"
  shows "length is' < length is"
proof -
  obtain plen is1 where 1: "ReadRaw 4 is = (Some plen, is1)"
    using assms by (auto simp: ReadPacket_def split: prod.splits option.splits)
  obtain hlen is2 where 2: "ReadRaw 2 is1 = (Some hlen, is2)"
    using assms 1 by (auto simp: ReadPacket_def split: prod.splits option.splits)
  let ?n = "int (of_be32 plen) - 4 - ph_datalen header"
  have "length is' \<le> length (Skip ?n (drop 25 is2))"
    using assms 1 2 by (auto simp: ReadPacket_def Let_def dest!: ReadRaw_Some split: prod.splits option.splits if_splits bool.splits)
  then show ?thesis
    using ReadRaw_Some [OF 1] ReadRaw_Some [OF 2] Skip_length [of ?n "drop 25 is2"] by auto
qed

text \<open>
  The loop of \<open>_WriteBlock\<close> over the packets; the mirror is absent when the request has no targets. Each packet is
  acknowledged with the result of this data node and those of the ones behind it.
\<close>

function write_loop ::
  "dn_lib \<Rightarrow> (nat \<Rightarrow> rpc_outcome) \<Rightarrow> (nat \<Rightarrow> env) \<Rightarrow> write_req \<Rightarrow> dn_conn \<Rightarrow> dn_conn option \<Rightarrow> extent_sys \<Rightarrow>
     (extent_sys \<times> dn_conn \<times> dn_conn option \<times> bool) option" where
  "write_loop lib net envs param c m s =
     (case ReadPacket lib (c_in c) of
        None \<Rightarrow> None
      | Some (header, None, is) \<Rightarrow> Some (s, put_out (Ack (ph_seqno header) [ERROR]) (c\<lparr>c_in := is\<rparr>), m, False)
      | Some (header, Some data, is) \<Rightarrow>
          (case WriteBlock net envs (wr_bid param) (nat (ph_offset header mod 2 ^ 64)) (length data) data s of
             None \<Rightarrow> None
           | Some (s, False) \<Rightarrow> Some (s, put_out (Ack (ph_seqno header) [ERROR]) (c\<lparr>c_in := is\<rparr>), m, False)
           | Some (s, True) \<Rightarrow>
               (let (m, replies) =
                      (case m of
                         None \<Rightarrow> (None, [])
                       | Some mc \<Rightarrow> (let (mc, rs) = mirror_packet lib (length (wr_targets param)) header data mc in (Some mc, rs)));
                    c = put_out (Ack (ph_seqno header) (SUCCESS # replies)) (c\<lparr>c_in := is\<rparr>)
                in if ph_last header then Some (s, c, m, True) else write_loop lib net envs param c m s)))"
  by pat_completeness auto
termination
  by (relation "measure (\<lambda>(lib, net, envs, param, c, m, s). length (c_in c))")
    (auto simp: put_out_def dest: ReadPacket_shrinks)

declare write_loop.simps [simp del]

definition dn_WriteBlock ::
  "dn_lib \<Rightarrow> connector \<Rightarrow> (nat \<Rightarrow> rpc_outcome) \<Rightarrow> (nat \<Rightarrow> env) \<Rightarrow> dn_conn \<Rightarrow> extent_sys \<Rightarrow>
     (extent_sys \<times> dn_conn \<times> dn_conn option \<times> bool) option" where
  "dn_WriteBlock lib connect net envs c s =
     (case rd_write lib (c_in c) of
        (None, is) \<Rightarrow> Some (s, put_out (Block_resp ERROR) (c\<lparr>c_in := is\<rparr>), None, False)
      | (Some param, is) \<Rightarrow>
          let c = c\<lparr>c_in := is\<rparr>
          in if wr_targets param \<noteq> []
             then (case ConnectToMirror lib connect param of
                     None \<Rightarrow> Some (s, put_out (Block_resp ERROR) c, None, False)
                   | Some m \<Rightarrow> write_loop lib net envs param (put_out (Block_resp SUCCESS) c) (Some m) s)
             else write_loop lib net envs param (put_out (Block_resp SUCCESS) c) None s)"

text \<open>Sending a packet to the mirror and reading its acknowledgement; one without replies is read out of bounds.\<close>

definition transfer_packet :: "dn_lib \<Rightarrow> nat \<Rightarrow> nat \<Rightarrow> bool \<Rightarrow> nat \<Rightarrow> string \<Rightarrow> dn_conn \<Rightarrow> (dn_conn \<times> bool) option" where
  "transfer_packet lib offset seqno last_in_block len buf m =
     (case WritePacket_at lib offset seqno last_in_block len buf m of
        (m, False) \<Rightarrow> Some (m, False)
      | (m, True) \<Rightarrow>
          (case rd_ack lib (c_in m) of
             (None, is) \<Rightarrow> Some (m\<lparr>c_in := is\<rparr>, False)
           | (Some (_, []), is) \<Rightarrow> None
           | (Some (_, r # _), is) \<Rightarrow> Some (m\<lparr>c_in := is\<rparr>, r = SUCCESS)))"

text \<open>
  \<open>targets(0)\<close> of a request without targets is out of bounds as well, and so are \<open>BLOCK_SIZE\<close> bytes of a shorter block.
\<close>

definition dn_TransferBlock ::
  "dn_lib \<Rightarrow> connector \<Rightarrow> (nat \<Rightarrow> rpc_outcome) \<Rightarrow> (nat \<Rightarrow> env) \<Rightarrow> dn_conn \<Rightarrow> extent_sys \<Rightarrow>
     (extent_sys \<times> dn_conn \<times> dn_conn option \<times> bool) option" where
  "dn_TransferBlock lib connect net envs c s =
     (case rd_transfer lib (c_in c) of
        (None, is) \<Rightarrow> Some (s, c\<lparr>c_in := is\<rparr>, None, False)
      | (Some param, is) \<Rightarrow>
          do {
            let c = c\<lparr>c_in := is\<rparr>;
            (s, ok, block) \<leftarrow> ReadBlock net envs (tr_bid param) 0 BLOCK_SIZE s;
            (if \<not> ok then Some (s, c, None, False)
             else if tr_targets param = [] then None
             else case ConnectToMirror lib connect (transfer_write param) of
                    None \<Rightarrow> Some (s, c, None, False)
                  | Some m \<Rightarrow>
                      if length block < BLOCK_SIZE then None
                      else do {
                        (m, ok) \<leftarrow> transfer_packet lib 0 0 False BLOCK_SIZE block m;
                        (if \<not> ok then Some (s, c, Some m, False)
                         else do {
                           (m, ok) \<leftarrow> transfer_packet lib BLOCK_SIZE 1 True 0 [] m;
                           (if \<not> ok then Some (s, c, Some m, False)
                            else Some (s, put_out (Block_resp SUCCESS) c, Some m, True))
                         })
                      })
          })"

text \<open>
  The thread of a client's connection. It ends when a request fails or has an unknown number, and when the
  input is used up; \<open>n\<close> bounds the number of requests that are served, and the length of the input is
  enough (\<open>dn_worker_enough\<close>). The connections to mirrors are collected.
\<close>

fun dn_worker ::
  "nat \<Rightarrow> dn_lib \<Rightarrow> connector \<Rightarrow> (nat \<Rightarrow> rpc_outcome) \<Rightarrow> (nat \<Rightarrow> env) \<Rightarrow> dn_conn \<Rightarrow> dn_conn list \<Rightarrow> extent_sys \<Rightarrow>
     (extent_sys \<times> dn_conn \<times> dn_conn list) option" where
  "dn_worker 0 lib connect net envs c ms s = Some (s, c, ms)"
| "dn_worker (Suc n) lib connect net envs c ms s =
     (case ReadOp (c_in c) of
        (None, is) \<Rightarrow> Some (s, c\<lparr>c_in := is\<rparr>, ms)
      | (Some op, is) \<Rightarrow>
          do {
            let c = c\<lparr>c_in := is\<rparr>;
            (if op = 81 then do {
               (s, c, ok) \<leftarrow> dn_ReadBlock lib net envs c s;
               (if ok then dn_worker n lib connect net envs c ms s else Some (s, c, ms))
             }
             else if op = 80 then do {
               (s, c, m, ok) \<leftarrow> dn_WriteBlock lib connect net envs c s;
               let ms = ms @ (case m of None \<Rightarrow> [] | Some m \<Rightarrow> [m]);
               (if ok then dn_worker n lib connect net envs c ms s else Some (s, c, ms))
             }
             else if op = 86 then do {
               (s, c, m, ok) \<leftarrow> dn_TransferBlock lib connect net envs c s;
               let ms = ms @ (case m of None \<Rightarrow> [] | Some m \<Rightarrow> [m]);
               (if ok then dn_worker n lib connect net envs c ms s
                else Some (s, put_out (Block_resp ERROR) c, ms))
             }
             else Some (s, c, ms))
          })"

section \<open>Start-up and the name node\<close>

text \<open>The messages to the name node, as far as the data node fills them in.\<close>

datatype 'id nn_payload = Register_request bool 'id | Heartbeat_request 'id

record 'id nn_lib =
  varint_size :: "nat \<Rightarrow> nat"
  ser_rpc_header :: "nat \<Rightarrow> string \<Rightarrow> out_msg"
  ser_request_header :: "string \<Rightarrow> string \<Rightarrow> nat \<Rightarrow> out_msg"
  ser_payload :: "'id nn_payload \<Rightarrow> out_msg"
  parse_rpc_response :: "byte list \<Rightarrow> nat option"

definition RPC_SUCCESS :: nat where "RPC_SUCCESS = 0"

text \<open>
  What is sent, whether the call succeeded, and the connection. \<open>sent\<close> is the result of \<open>HrpcWrite\<close>, \<open>uuid\<close> a
  random string, and \<open>hostname\<close> that of the machine: the master is the data node on the machine \<open>name\<close>.
\<close>

definition nn_response :: "'id nn_lib \<Rightarrow> conn \<Rightarrow> (bool \<times> conn) option" where
  "nn_response lib fd =
     do {
       (r, fd) \<leftarrow> HrpcRead1 (parse_rpc_response lib) fd;
       Some (case r of None \<Rightarrow> False | Some (st, buf) \<Rightarrow> st = RPC_SUCCESS, fd)
     }"

definition RegisterOnNamenode ::
  "'id nn_lib \<Rightarrow> string \<Rightarrow> string \<Rightarrow> 'id \<Rightarrow> bool \<Rightarrow> conn \<Rightarrow> (byte list \<times> bool \<times> conn) option" where
  "RegisterOnNamenode lib hostname uuid self sent fd =
     (let msg = HrpcWrite3 (varint_size lib) (ser_rpc_header lib 0 uuid)
                  (ser_request_header lib ''registerDatanode'' ''org.apache.hadoop.hdfs.server.protocol.DatanodeProtocol'' 1)
                  (ser_payload lib (Register_request (hostname = ''name'') self))
      in if \<not> sent then Some (msg, False, fd) else do { (ok, fd) \<leftarrow> nn_response lib fd; Some (msg, ok, fd) })"

definition SendHeartbeat_dn ::
  "'id nn_lib \<Rightarrow> string \<Rightarrow> 'id \<Rightarrow> bool \<Rightarrow> conn \<Rightarrow> (byte list \<times> bool \<times> conn) option" where
  "SendHeartbeat_dn lib uuid self sent fd =
     (let msg = HrpcWrite3 (varint_size lib) (ser_rpc_header lib 0 uuid) (ser_request_header lib ''datanodeHeartbeat'' ''yfs'' 1)
                  (ser_payload lib (Heartbeat_request self))
      in if \<not> sent then Some (msg, False, fd) else do { (ok, fd) \<leftarrow> nn_response lib fd; Some (msg, ok, fd) })"

text \<open>\<open>connected\<close> is the result of \<open>ConnectToNN\<close>, \<open>registered\<close> that of the registration.\<close>

definition dn_init :: "(nat \<Rightarrow> rpc_outcome) \<Rightarrow> (nat \<Rightarrow> env) \<Rightarrow> bool \<Rightarrow> bool \<Rightarrow> extent_sys \<Rightarrow> (extent_sys \<times> int) option" where
  "dn_init net envs connected registered s =
     (if \<not> connected then Some (s, -1)
      else if \<not> registered then Some (s, -1)
      else do { (s, _) \<leftarrow> cl_put net envs 1 [] s; Some (s, 0) })"

section \<open>Blocks are read and written\<close>

definition block_str :: "inode_manager \<Rightarrow> nat \<Rightarrow> string" where
  "block_str im bid = string_of (bm_blocks im bid) BLOCK_SIZE"

lemma length_string_of [simp]: "length (string_of b n) = n"
  by (simp add: string_of_def)

lemma string_of_cong: "(\<And>k. k < n \<Longrightarrow> b k = b' k) \<Longrightarrow> string_of b n = string_of b' n"
  by (simp add: string_of_def)

lemma length_block_str [simp]: "length (block_str im bid) = BLOCK_SIZE"
  by (simp add: block_str_def)

lemma block_id_small: "bid < BLOCK_NUM \<Longrightarrow> bid mod 2 ^ 32 = bid"
  by (simp add: BLOCK_NUM_eq)

lemma string_of_c_str: "length x = n \<Longrightarrow> string_of (c_str mem x) n = x"
  by (rule nth_equalityI) (simp_all add: string_of_def c_str_def)

lemma cl_read_block_ok:
  assumes "reliable net" and "bid < BLOCK_NUM"
  shows "cl_read_block net envs bid buf s = Some (s\<lparr>x_calls := x_calls s + 1\<rparr>, ext_OK, block_str (x_im s) bid)"
proof -
  have "string_of (im_read_block (x_im s) bid (junk (envs (x_calls s)) 0)) BLOCK_SIZE = block_str (x_im s) bid"
    unfolding block_str_def using assms(2) by (intro string_of_cong) (simp add: im_read_block_def bm.rd_in)
  then have "es_read_block bid (envs (x_calls s)) (x_im s) = Some (x_im s, ext_OK, block_str (x_im s) bid)"
    by (simp add: es_read_block_def)
  from rpc_call_reliable [OF assms(1), of "es_read_block bid" envs s, OF this, of buf]
  show ?thesis
    by (simp add: cl_read_block_def yfs_OK_def)
qed

lemma cl_write_block_ok:
  assumes "reliable net" and "bid < BLOCK_NUM" and "length buf = BLOCK_SIZE"
  shows "\<exists>s'. cl_write_block net envs bid buf s = Some (s', ext_OK) \<and> block_str (x_im s') bid = buf
    \<and> (\<forall>b. b \<noteq> bid \<longrightarrow> bm_blocks (x_im s') b = bm_blocks (x_im s) b)"
proof -
  let ?im = "im_write_block (x_im s) bid (c_str (junk (envs (x_calls s)) 5) buf)"
  have "es_write_block bid buf (envs (x_calls s)) (x_im s) = Some (?im, ext_OK, ())"
    using assms(3) by (simp add: es_write_block_def)
  from rpc_call_reliable [OF assms(1), of "es_write_block bid buf" envs s, OF this, of "()"]
  have "cl_write_block net envs bid buf s = Some (s\<lparr>x_calls := x_calls s + 1, x_im := ?im\<rparr>, ext_OK)"
    by (simp add: cl_write_block_def yfs_OK_def)
  moreover have "block_str ?im bid = string_of (c_str (junk (envs (x_calls s)) 5) buf) BLOCK_SIZE"
    unfolding block_str_def im_write_block_def using assms(2) by (intro string_of_cong) (simp add: bm.wr_same)
  moreover have "bm_blocks ?im b = bm_blocks (x_im s) b" if "b \<noteq> bid" for b
    using that by (simp add: im_write_block_def bm.wr_other)
  ultimately show ?thesis
    using string_of_c_str [OF assms(3)] by simp
qed

lemma ReadBlock_ok:
  assumes "reliable net" and "bid < BLOCK_NUM" and "off \<le> BLOCK_SIZE"
  shows "ReadBlock net envs bid off len s = Some (s\<lparr>x_calls := x_calls s + 1\<rparr>, True, take len (drop off (block_str (x_im s) bid)))"
  using cl_read_block_ok [OF assms(1,2), of envs "[]" s] assms(3) unfolding ReadBlock_def block_id_small [OF assms(2)] by simp

lemma WriteBlock_ok:
  assumes net: "reliable net" and bid: "bid < BLOCK_NUM" and fits: "off + length buf \<le> BLOCK_SIZE"
  shows "\<exists>s'. WriteBlock net envs bid off (length buf) buf s = Some (s', True)
    \<and> block_str (x_im s') bid = patch (block_str (x_im s) bid) off buf
    \<and> (\<forall>b. b \<noteq> bid \<longrightarrow> bm_blocks (x_im s') b = bm_blocks (x_im s) b)"
proof -
  let ?new = "patch (block_str (x_im s) bid) off buf"
  have m: "(off + length buf) mod 2 ^ 64 = off + length buf"
    using fits by (simp add: BLOCK_SIZE_def)
  have new: "?new = take off (block_str (x_im s) bid) @ buf @ drop (off + length buf) (block_str (x_im s) bid)" "length ?new = BLOCK_SIZE"
    using fits by (simp_all add: patch_def)
  obtain s' where "cl_write_block net envs bid ?new (s\<lparr>x_calls := x_calls s + 1 + 1\<rparr>) = Some (s', ext_OK)"
    "block_str (x_im s') bid = ?new" "\<forall>b. b \<noteq> bid \<longrightarrow> bm_blocks (x_im s') b = bm_blocks (x_im s) b"
    using cl_write_block_ok [OF net bid new(2), of envs "s\<lparr>x_calls := x_calls s + 1 + 1\<rparr>"] by auto
  then show ?thesis
    using cl_read_block_ok [OF net bid, of envs "[]"] fits new(1)
    unfolding WriteBlock_def block_id_small [OF bid] m by (simp add: substr_def)
qed

lemma WriteBlock_beyond:
  assumes "reliable net" and "bid < BLOCK_NUM" and "BLOCK_SIZE < off + length buf" and "off + length buf < 2 ^ 64"
  shows "WriteBlock net envs bid off (length buf) buf s = None"
  using assms(3,4) cl_read_block_ok [OF assms(1,2), of envs "[]"] unfolding WriteBlock_def block_id_small [OF assms(2)] by (simp add: substr_def)

section \<open>Packets are read as they are written\<close>

text \<open>The fields are two 64-bit integers, a flag and a 32-bit integer, all of fixed length.\<close>

definition header_ok :: "packet_header \<Rightarrow> bool" where
  "header_ok h \<longleftrightarrow> - (2 ^ 63) \<le> ph_offset h \<and> ph_offset h < 2 ^ 63 \<and> - (2 ^ 63) \<le> ph_seqno h \<and> ph_seqno h < 2 ^ 63 \<and>
     - (2 ^ 31) \<le> ph_datalen h \<and> ph_datalen h < 2 ^ 31"

definition header_codec :: "dn_lib \<Rightarrow> bool" where
  "header_codec lib \<longleftrightarrow> (\<forall>h. header_ok h \<longrightarrow> length (ser_header lib h) = 25 \<and> pr_header lib (ser_header lib h) = (True, h))"

lemma of_be16: "of_be32 (be16 25) = 25"
  by code_simp

lemma ReadPacket_write:
  assumes lib: "header_codec lib" and h: "header_ok h" and d: "ph_datalen h = int (length d)" "length d < 2 ^ 30"
  shows "ReadPacket lib (packet_bytes lib h d @ rest) = Some (h, Some d, rest)"
proof -
  let ?d = "map byte_of_char d"
  have plen: "nat ((4 + ph_datalen h) mod 2 ^ 32) = 4 + length d"
    using d by simp
  have p: "packet_bytes lib h d @ rest = be32 (4 + length d) @ be16 25 @ ser_header lib h @ ?d @ rest"
    unfolding packet_bytes_def plen using d(1) by simp
  have raw: "ReadRaw 4 (be32 n @ x) = (Some (be32 n), x)" "ReadRaw 2 (be16 n @ x) = (Some (be16 n), x)" for n x
    by (simp_all add: ReadRaw_def be32_def be16_def)
  have data: "ReadRaw (nat (ph_datalen h)) (?d @ rest) = (Some ?d, rest)"
    using d(1) by (simp add: ReadRaw_def)
  have "of_be32 (be32 (4 + length d)) = 4 + length d"
    using d(2) by (simp add: of_be32_be32)
  then have skip: "Skip (int (of_be32 (be32 (4 + length d))) - 4 - ph_datalen h) x = x" for x
    using d(1) by (simp add: Skip_def)
  show ?thesis
    unfolding p ReadPacket_def
    using lib h d(1) data skip [of "?d @ rest"] by (simp add: raw of_be16 header_codec_def Let_def comp_def)
qed

section \<open>Writing a block\<close>

text \<open>A packet whose data is as long as its header says and stays inside the block.\<close>

definition packet_ok :: "packet_header \<Rightarrow> string \<Rightarrow> bool" where
  "packet_ok h d \<longleftrightarrow> header_ok h \<and> ph_datalen h = int (length d) \<and> 0 \<le> ph_offset h \<and> ph_offset h + int (length d) \<le> int BLOCK_SIZE"

text \<open>The packets of one write: the last one, and only it, is marked as the last one.\<close>

fun packets_ok :: "(packet_header \<times> string) list \<Rightarrow> bool" where
  "packets_ok [] \<longleftrightarrow> False"
| "packets_ok [(h, d)] \<longleftrightarrow> packet_ok h d \<and> ph_last h"
| "packets_ok ((h, d) # p # ps) \<longleftrightarrow> packet_ok h d \<and> \<not> ph_last h \<and> packets_ok (p # ps)"

definition apply_packets :: "string \<Rightarrow> (packet_header \<times> string) list \<Rightarrow> string" where
  "apply_packets b ps = foldl (\<lambda>b (h, d). patch b (nat (ph_offset h)) d) b ps"

definition wire :: "dn_lib \<Rightarrow> (packet_header \<times> string) list \<Rightarrow> byte list" where
  "wire lib ps = concat (map (\<lambda>(h, d). packet_bytes lib h d) ps)"

text \<open>The acknowledgements of the packets: success here, then the results of the mirrors.\<close>

definition acks_for :: "(packet_header \<times> string) list \<Rightarrow> dn_out list \<Rightarrow> bool" where
  "acks_for ps outs \<longleftrightarrow> list_all2 (\<lambda>(h, d) x. \<exists>rs. x = Ack (ph_seqno h) (SUCCESS # rs)) ps outs"

text \<open>The mirror's stream gets the packets as they came.\<close>

definition mirrored :: "dn_lib \<Rightarrow> (packet_header \<times> string) list \<Rightarrow> dn_conn option \<Rightarrow> dn_conn option \<Rightarrow> bool" where
  "mirrored lib ps m m' \<longleftrightarrow>
     map_option c_out m' = map_option (\<lambda>m. c_out m @ map (\<lambda>(h, d). Packet (packet_bytes lib h d)) ps) m"

lemma mirror_packet_out: "c_out (fst (mirror_packet lib n h d m)) = c_out m @ [Packet (packet_bytes lib h d)]"
  by (simp add: mirror_packet_def WritePacket_def put_out_def Let_def split: prod.split option.split bool.split)

lemma write_loop_step:
  assumes lib: "header_codec lib" and net: "reliable net" and bid: "wr_bid param < BLOCK_NUM" and ok: "packet_ok h d"
    and c: "c_in c = packet_bytes lib h d @ rest"
  obtains s1 m1 rs where "mirrored lib [(h, d)] m m1"
    "block_str (x_im s1) (wr_bid param) = patch (block_str (x_im s) (wr_bid param)) (nat (ph_offset h)) d"
    "\<forall>b. b \<noteq> wr_bid param \<longrightarrow> bm_blocks (x_im s1) b = bm_blocks (x_im s) b"
    "write_loop lib net envs param c m s =
       (let c = put_out (Ack (ph_seqno h) (SUCCESS # rs)) (c\<lparr>c_in := rest\<rparr>)
        in if ph_last h then Some (s1, c, m1, True) else write_loop lib net envs param c m1 s1)"
proof -
  have d: "header_ok h" "ph_datalen h = int (length d)" "length d < 2 ^ 30" "nat (ph_offset h mod 2 ^ 64) = nat (ph_offset h)"
    "nat (ph_offset h) + length d \<le> BLOCK_SIZE"
    using ok by (auto simp: packet_ok_def BLOCK_SIZE_def)
  obtain s1 where s1: "WriteBlock net envs (wr_bid param) (nat (ph_offset h)) (length d) d s = Some (s1, True)"
    "block_str (x_im s1) (wr_bid param) = patch (block_str (x_im s) (wr_bid param)) (nat (ph_offset h)) d"
    "\<forall>b. b \<noteq> wr_bid param \<longrightarrow> bm_blocks (x_im s1) b = bm_blocks (x_im s) b"
    using WriteBlock_ok [OF net bid d(5), of envs s] by blast
  note step = write_loop.simps [of lib net envs param c m s, unfolded c ReadPacket_write [OF lib d(1-3)] option.case prod.case d(4) s1(1) bool.case]
  show thesis
  proof (cases m)
    case None
    show thesis
      by (rule that [of None s1 "[]"]) (use s1 None in \<open>simp_all add: mirrored_def step [unfolded None]\<close>)
  next
    case (Some mc)
    obtain mc' rs where mc: "mirror_packet lib (length (wr_targets param)) h d mc = (mc', rs)"
      by fastforce
    have "mirrored lib [(h, d)] m (Some mc')"
      using mirror_packet_out [of lib "length (wr_targets param)" h d mc] mc Some by (simp add: mirrored_def)
    then show thesis
      by (rule that [of "Some mc'" s1 rs]) (use s1 Some mc in \<open>simp_all add: step [unfolded Some]\<close>)
  qed
qed

lemma mirrored_trans: "mirrored lib ps m m1 \<Longrightarrow> mirrored lib qs m1 m2 \<Longrightarrow> mirrored lib (ps @ qs) m m2"
  by (cases m; cases m1; cases m2) (auto simp: mirrored_def)

lemma write_loop_ok:
  assumes lib: "header_codec lib" and net: "reliable net" and bid: "wr_bid param < BLOCK_NUM"
  shows "packets_ok ps \<Longrightarrow> c_in c = wire lib ps @ rest \<Longrightarrow>
    \<exists>s' c' m' outs. write_loop lib net envs param c m s = Some (s', c', m', True) \<and> c_in c' = rest
      \<and> c_out c' = c_out c @ outs \<and> acks_for ps outs \<and> mirrored lib ps m m'
      \<and> block_str (x_im s') (wr_bid param) = apply_packets (block_str (x_im s) (wr_bid param)) ps
      \<and> (\<forall>b. b \<noteq> wr_bid param \<longrightarrow> bm_blocks (x_im s') b = bm_blocks (x_im s) b)"
proof (induction ps arbitrary: c m s rule: packets_ok.induct)
  case (2 h d)
  have c: "c_in c = packet_bytes lib h d @ rest" "packet_ok h d" "ph_last h"
    using 2 by (simp_all add: wire_def)
  show ?case
    by (rule write_loop_step [OF lib net bid c(2,1), of m s envs])
      (use c(3) in \<open>auto simp: put_out_def acks_for_def apply_packets_def\<close>)
next
  case (3 h d p ps)
  have c: "c_in c = packet_bytes lib h d @ wire lib (p # ps) @ rest" "packet_ok h d" "\<not> ph_last h" "packets_ok (p # ps)"
    using 3(2,3) by (simp_all add: wire_def)
  obtain s1 m1 rs where s1: "mirrored lib [(h, d)] m m1"
    "block_str (x_im s1) (wr_bid param) = patch (block_str (x_im s) (wr_bid param)) (nat (ph_offset h)) d"
    "\<forall>b. b \<noteq> wr_bid param \<longrightarrow> bm_blocks (x_im s1) b = bm_blocks (x_im s) b"
    "write_loop lib net envs param c m s =
       write_loop lib net envs param (put_out (Ack (ph_seqno h) (SUCCESS # rs)) (c\<lparr>c_in := wire lib (p # ps) @ rest\<rparr>)) m1 s1"
    by (rule write_loop_step [OF lib net bid c(2,1), of m s envs]) (use c(3) in \<open>simp add: Let_def\<close>)
  let ?c = "put_out (Ack (ph_seqno h) (SUCCESS # rs)) (c\<lparr>c_in := wire lib (p # ps) @ rest\<rparr>)"
  have in1: "c_in ?c = wire lib (p # ps) @ rest" "c_out ?c = c_out c @ [Ack (ph_seqno h) (SUCCESS # rs)]"
    by (simp_all add: put_out_def)
  obtain s' c' m' outs where r: "write_loop lib net envs param ?c m1 s1 = Some (s', c', m', True)" "c_in c' = rest"
      "c_out c' = c_out ?c @ outs" "acks_for (p # ps) outs" "mirrored lib (p # ps) m1 m'"
      "block_str (x_im s') (wr_bid param) = apply_packets (block_str (x_im s1) (wr_bid param)) (p # ps)"
      "\<forall>b. b \<noteq> wr_bid param \<longrightarrow> bm_blocks (x_im s') b = bm_blocks (x_im s1) b"
    using 3(1) [OF c(4) in1(1), of m1 s1] by blast
  have "acks_for ((h, d) # p # ps) (Ack (ph_seqno h) (SUCCESS # rs) # outs)"
    using r(4) by (simp add: acks_for_def)
  then show ?case
    using s1 r in1(2) mirrored_trans [OF s1(1) r(5)]
    by (intro exI [of _ s'] exI [of _ c'] exI [of _ m'] exI [of _ "Ack (ph_seqno h) (SUCCESS # rs) # outs"])
      (simp add: apply_packets_def)
qed simp

section \<open>Theorems\<close>

text \<open>
  C7. A client writes a block with a sequence of packets, the last one marked, each inside the block: the data node accepts the
  request, acknowledges every packet in order, and hands every packet unchanged to the mirror when the request has targets and the
  mirror accepts. Reading any part of the block afterwards gives what the packets wrote over the old contents, and all other blocks
  are as before. Of the protobuf library this uses that a packet header takes 25 bytes and parses to itself.
\<close>

theorem block_write_then_read:
  assumes lib: "header_codec lib" and net: "reliable net"
    and req: "rd_write lib (c_in c) = (Some param, wire lib ps @ rest)" and ps: "packets_ok ps"
    and bid: "wr_bid param < BLOCK_NUM"
    and m: "if wr_targets param = [] then m = None else m = ConnectToMirror lib connect param \<and> m \<noteq> None"
  shows "\<exists>s' c' m' outs. dn_WriteBlock lib connect net envs c s = Some (s', c', m', True) \<and> c_in c' = rest
    \<and> c_out c' = c_out c @ Block_resp SUCCESS # outs \<and> acks_for ps outs \<and> mirrored lib ps m m'
    \<and> (\<forall>off len. off \<le> BLOCK_SIZE \<longrightarrow>
         (\<exists>s''. ReadBlock net envs (wr_bid param) off len s'
            = Some (s'', True, take len (drop off (apply_packets (block_str (x_im s) (wr_bid param)) ps)))))
    \<and> (\<forall>b. b \<noteq> wr_bid param \<longrightarrow> bm_blocks (x_im s') b = bm_blocks (x_im s) b)"
proof -
  let ?c = "put_out (Block_resp SUCCESS) (c\<lparr>c_in := wire lib ps @ rest\<rparr>)"
  have in1: "c_in ?c = wire lib ps @ rest" "c_out ?c = c_out c @ [Block_resp SUCCESS]"
    by (simp_all add: put_out_def)
  have start: "dn_WriteBlock lib connect net envs c s = write_loop lib net envs param ?c m s"
    using req m by (auto simp: dn_WriteBlock_def split: if_splits)
  obtain s' c' m' outs where r: "write_loop lib net envs param ?c m s = Some (s', c', m', True)" "c_in c' = rest"
    "c_out c' = c_out ?c @ outs" "acks_for ps outs" "mirrored lib ps m m'"
    "block_str (x_im s') (wr_bid param) = apply_packets (block_str (x_im s) (wr_bid param)) ps"
    "\<forall>b. b \<noteq> wr_bid param \<longrightarrow> bm_blocks (x_im s') b = bm_blocks (x_im s) b"
    using write_loop_ok [OF lib net bid ps in1(1), of envs m s] by blast
  then show ?thesis
    unfolding start using ReadBlock_ok [OF net bid, of _ envs _ s'] in1(2)
    by (intro exI [of _ s'] exI [of _ c'] exI [of _ m'] exI [of _ outs]) simp
qed

text \<open>
  A packet that reaches over the end of the block ends the data node: \<open>WriteBlock\<close> takes the rest of the block from behind the
  packet, \<open>string::substr\<close> throws, and nothing catches the exception. A client can do that with one packet.
\<close>

lemma packet_beyond_block:
  assumes lib: "header_codec lib" and net: "reliable net" and bid: "wr_bid param < BLOCK_NUM"
    and c: "c_in c = packet_bytes lib h d @ rest"
    and h: "header_ok h" "ph_datalen h = int (length d)" "length d < 2 ^ 30" "0 \<le> ph_offset h"
    and beyond: "int BLOCK_SIZE < ph_offset h + int (length d)"
  shows "write_loop lib net envs param c m s = None"
proof -
  have off: "nat (ph_offset h mod 2 ^ 64) = nat (ph_offset h)"
    using h(1,4) by (simp add: header_ok_def)
  have "nat (ph_offset h) < 2 ^ 63"
    using h(1,4) by (simp add: nat_less_iff header_ok_def)
  then have "BLOCK_SIZE < nat (ph_offset h) + length d" "nat (ph_offset h) + length d < 2 ^ 64"
    using beyond h(3,4) by (linarith, simp)
  from WriteBlock_beyond [OF net bid this, of envs s] show ?thesis
    by (subst write_loop.simps) (simp add: c ReadPacket_write [OF lib h(1-3)] off [simplified])
qed

text \<open>
  Starting a data node empties the root directory of the file system: \<open>init\<close> puts an empty string into file 1 after it has
  registered, whatever the directory has. No other file changes.
\<close>

lemma datanode_start_empties_root:
  assumes "reliable net" and "fs_inv (x_im s)" and "ext_fs (x_im s) 1 = Some (T_DIR, old)"
  shows "\<exists>s'. dn_init net envs True True s = Some (s', 0) \<and> ext_fs (x_im s') = (ext_fs (x_im s))(1 \<mapsto> (T_DIR, []))
    \<and> fs_inv (x_im s')"
proof -
  have "mask_id 1 = 1"
    by simp
  then obtain im' where im': "es_put 1 [] (envs (x_calls s)) (x_im s) = Some (im', ext_OK, ())" "fs_inv im'"
    "ext_fs im' = (ext_fs (x_im s))(1 \<mapsto> (T_DIR, []))"
    using es_put_ok [OF assms(2), of 1 T_DIR old "[]" "envs (x_calls s)"] assms(3) by auto
  from rpc_call_reliable [OF assms(1), of "es_put 1 []" envs s, OF im'(1), of "()"] im'(2,3) show ?thesis
    by (simp add: dn_init_def cl_put_def yfs_OK_def)
qed

section \<open>Samples\<close>

text \<open>
  An instance of the library's functions: headers in the wire format of protobuf, with the field numbers 1 to 4 and
  little-endian integers; requests are not parsed but fixed.
\<close>

definition to_signed :: "nat \<Rightarrow> nat \<Rightarrow> int" where
  "to_signed w n = (if n < 2 ^ (w - 1) then int n else int n - 2 ^ w)"

lemma to_signed_mod: "0 < w \<Longrightarrow> - (2 ^ (w - 1)) \<le> i \<Longrightarrow> i < 2 ^ (w - 1) \<Longrightarrow> to_signed w (nat (i mod 2 ^ w)) = i"
proof -
  assume w: "0 < w" and i: "- (2 ^ (w - 1)) \<le> i" "i < 2 ^ (w - 1)"
  have p: "(2 :: int) ^ w = 2 * 2 ^ (w - 1)"
    using w by (cases w) simp_all
  have "i mod 2 ^ w = (if 0 \<le> i then i else i + 2 ^ w)"
  proof (cases "0 \<le> i")
    case False
    then have "(i + 2 ^ w) mod 2 ^ w = i + 2 ^ w"
      using i p by (intro mod_pos_pos_trivial) linarith+
    then show ?thesis
      using False by simp
  qed (use i p in \<open>simp add: mod_pos_pos_trivial\<close>)
  then show ?thesis
    using i p by (auto simp: to_signed_def nat_less_iff)
qed

definition header_to_wire :: "packet_header \<Rightarrow> byte list" where
  "header_to_wire h =
     [0x09] @ le_bytes 8 (nat (ph_offset h mod 2 ^ 64)) @ [0x11] @ le_bytes 8 (nat (ph_seqno h mod 2 ^ 64)) @
     [0x18, if ph_last h then 1 else 0, 0x25] @ le_bytes 4 (nat (ph_datalen h mod 2 ^ 32))"

definition header_of_wire :: "byte list \<Rightarrow> bool \<times> packet_header" where
  "header_of_wire b =
     (True, \<lparr>ph_offset = to_signed 64 (le_nat (take 8 (drop 1 b))), ph_seqno = to_signed 64 (le_nat (take 8 (drop 10 b))),
             ph_last = (b ! 19 = 1), ph_datalen = to_signed 32 (le_nat (take 4 (drop 21 b)))\<rparr>)"

definition write_req0 :: write_req where
  "write_req0 = \<lparr>wr_bid = 1500, wr_targets = [], wr_storagetypes = [], wr_pinnings = [], wr_stage = PIPELINE_SETUP_CREATE,
     wr_pipelinesize = 1, wr_minbytes = 0, wr_maxbytes = 0, wr_genstamp = 0, wr_checksum = (CHECKSUM_NULL, 0)\<rparr>"

definition dn_lib0 :: dn_lib where
  "dn_lib0 = \<lparr>rd_read = (\<lambda>b. (None, b)), rd_write = (\<lambda>b. (Some write_req0, b)), rd_transfer = (\<lambda>b. (None, b)),
     rd_resp = (\<lambda>b. (Some SUCCESS, b)), rd_ack = (\<lambda>b. (Some (0, [SUCCESS]), b)), pr_header = header_of_wire,
     ser_header = header_to_wire\<rparr>"

lemma header_codec0: "header_codec dn_lib0"
  unfolding header_codec_def
proof (intro allI impI conjI)
  fix h assume h: "header_ok h"
  show "length (ser_header dn_lib0 h) = 25"
    by (simp add: dn_lib0_def header_to_wire_def)
  have m: "nat (i mod 2 ^ 64) mod 256 ^ 8 = nat (i mod 2 ^ 64)" "nat (i mod 2 ^ 32) mod 256 ^ 4 = nat (i mod 2 ^ 32)" for i :: int
    by (simp_all add: nat_less_iff)
  show "pr_header dn_lib0 (ser_header dn_lib0 h) = (True, h)"
    using h to_signed_mod [of 64 "ph_offset h"] to_signed_mod [of 64 "ph_seqno h"] to_signed_mod [of 32 "ph_datalen h"]
    by (cases h) (simp add: dn_lib0_def header_of_wire_def header_to_wire_def le_nat_le_bytes m header_ok_def nth_append)
qed

definition packets0 :: "(packet_header \<times> string) list" where
  "packets0 = [(\<lparr>ph_offset = 3, ph_seqno = 0, ph_last = False, ph_datalen = 2\<rparr>, ''ab''),
               (\<lparr>ph_offset = 5, ph_seqno = 1, ph_last = True, ph_datalen = 0\<rparr>, [])]"

definition ext0 :: extent_sys where
  "ext0 = \<lparr>x_im = im0, x_calls = 0\<rparr>"

lemma packets0_ok: "packets_ok packets0"
  by (simp add: packets0_def packet_ok_def header_ok_def BLOCK_SIZE_def)

lemma packets0_apply: "length b = BLOCK_SIZE \<Longrightarrow> take 2 (drop 3 (apply_packets b packets0)) = ''ab''"
  by (simp add: apply_packets_def packets0_def patch_def BLOCK_SIZE_def)

theorem block_write_then_read_witness:
  "\<exists>s' c' s''. dn_WriteBlock dn_lib0 (\<lambda>_. None) (\<lambda>_. Delivered) (\<lambda>_. env0) \<lparr>c_in = wire dn_lib0 packets0, c_out = [], c_err = \<lambda>_. False\<rparr> ext0
       = Some (s', c', None, True)
     \<and> ReadBlock (\<lambda>_. Delivered) (\<lambda>_. env0) 1500 3 2 s' = Some (s'', True, ''ab'')"
proof -
  let ?c = "\<lparr>c_in = wire dn_lib0 packets0, c_out = [], c_err = \<lambda>_. False\<rparr>"
  have req: "rd_write dn_lib0 (c_in ?c) = (Some write_req0, wire dn_lib0 packets0 @ [])" "wr_bid write_req0 < BLOCK_NUM"
    "if wr_targets write_req0 = [] then None = None else None = ConnectToMirror dn_lib0 (\<lambda>_. None) write_req0 \<and> (None :: dn_conn option) \<noteq> None"
    by (simp_all add: dn_lib0_def write_req0_def BLOCK_NUM_eq)
  obtain s' c' m' where w: "dn_WriteBlock dn_lib0 (\<lambda>_. None) (\<lambda>_. Delivered) (\<lambda>_. env0) ?c ext0 = Some (s', c', m', True)"
    "mirrored dn_lib0 packets0 None m'"
    "\<forall>off len. off \<le> BLOCK_SIZE \<longrightarrow> (\<exists>s''. ReadBlock (\<lambda>_. Delivered) (\<lambda>_. env0) (wr_bid write_req0) off len s'
        = Some (s'', True, take len (drop off (apply_packets (block_str (x_im ext0) (wr_bid write_req0)) packets0))))"
    using block_write_then_read [OF header_codec0 reliable_Delivered req(1) packets0_ok req(2,3), of "\<lambda>_. env0" ext0] by blast
  have "m' = None" "wr_bid write_req0 = 1500"
    using w(2) by (simp_all add: mirrored_def write_req0_def)
  then show ?thesis
    using w(1) w(3) [rule_format, of 3 2] packets0_apply [OF length_block_str, of "x_im ext0" 1500] by (auto simp: BLOCK_SIZE_def)
qed

lemma packet_beyond_block_witness:
  "write_loop dn_lib0 (\<lambda>_. Delivered) (\<lambda>_. env0) write_req0
     \<lparr>c_in = packet_bytes dn_lib0 \<lparr>ph_offset = 16383, ph_seqno = 0, ph_last = False, ph_datalen = 2\<rparr> ''ab'', c_out = [], c_err = \<lambda>_. False\<rparr>
     None ext0 = None"
  by (rule packet_beyond_block [OF header_codec0 reliable_Delivered, where rest = "[]" and h = "\<lparr>ph_offset = 16383, ph_seqno = 0, ph_last = False, ph_datalen = 2\<rparr>" and d = "''ab''"])
    (simp_all add: header_ok_def write_req0_def BLOCK_NUM_eq BLOCK_SIZE_def)

lemma datanode_start_empties_root_witness:
  "\<exists>s s'. ext_fs (x_im s) 1 = Some (T_DIR, ''a;2'') \<and> dn_init (\<lambda>_. Delivered) (\<lambda>_. env0) True True s = Some (s', 0)
     \<and> ext_fs (x_im s') 1 = Some (T_DIR, [])"
proof -
  have l: "length (''a;2'' :: string) \<le> BLOCK_SIZE"
    by (simp add: BLOCK_SIZE_def)
  obtain im where im: "fs_inv im" "ext_fs im = [1 \<mapsto> (T_DIR, ''a;2'')]" "room im0 \<le> room im + 1"
    by (rule sample_put [OF im0_facts(2) _ _ l, of 1 T_DIR]) (auto simp: ext_fs_im0 room_def)
  let ?s = "\<lparr>x_im = im, x_calls = 0\<rparr>"
  have s: "fs_inv (x_im ?s)" "ext_fs (x_im ?s) 1 = Some (T_DIR, ''a;2'')"
    by (simp_all add: im)
  from datanode_start_empties_root [OF reliable_Delivered s, of "\<lambda>_. env0"]
  obtain s' where "dn_init (\<lambda>_. Delivered) (\<lambda>_. env0) True True ?s = Some (s', 0)" "ext_fs (x_im s') 1 = Some (T_DIR, [])"
    by auto
  then show ?thesis
    using s(2) by blast
qed

section \<open>A connection is served to its end\<close>

text \<open>
  Every request takes at least the three bytes of its number, so \<open>dn_worker\<close> with as many requests as there are bytes
  has come to the end of the connection: a larger bound changes nothing. All that is needed of the protobuf library is that
  reading a message does not put bytes back.
\<close>

definition lib_shrinks :: "dn_lib \<Rightarrow> bool" where
  "lib_shrinks lib \<longleftrightarrow> (\<forall>is. length (snd (rd_read lib is)) \<le> length is \<and> length (snd (rd_write lib is)) \<le> length is
     \<and> length (snd (rd_transfer lib is)) \<le> length is)"

lemma lib_shrinksD:
  assumes "lib_shrinks lib"
  shows "rd_read lib is = (a, is1) \<Longrightarrow> length is1 \<le> length is" "rd_write lib is = (b, is2) \<Longrightarrow> length is2 \<le> length is"
    "rd_transfer lib is = (d, is3) \<Longrightarrow> length is3 \<le> length is"
  using assms unfolding lib_shrinks_def by (metis snd_conv)+

lemma c_in_put_out [simp]: "c_in (put_out x c) = c_in c"
  by (simp add: put_out_def)

lemma c_in_WritePacket_at: "WritePacket_at lib off i l n buf c = (c', ok) \<Longrightarrow> c_in c' = c_in c"
  by (auto simp: WritePacket_at_def WritePacket_def Let_def)

lemma c_in_send_block: "send_block lib off pos i rest c = (c', ok) \<Longrightarrow> c_in c' = c_in c"
  by (induction lib off pos i rest c rule: send_block.induct)
    (subst (asm) (2) send_block.simps, auto split: if_splits prod.splits bool.splits dest!: c_in_WritePacket_at)

lemma ReadOp_Some: "ReadOp is = (Some op, is') \<Longrightarrow> length is' + 3 \<le> length is"
  by (auto simp: ReadOp_def dest!: ReadRaw_Some split: prod.splits option.splits if_splits)

lemma ReadPacket_length: "ReadPacket lib is = Some (h, d, is') \<Longrightarrow> length is' \<le> length is"
proof (cases d)
  case None
  assume "ReadPacket lib is = Some (h, d, is')"
  with None show ?thesis
    using Skip_length [of "int (of_be32 (take 4 is)) - 4 - ph_datalen h" "drop 31 is"]
    by (auto simp: ReadPacket_def ReadRaw_def Let_def split: prod.splits option.splits if_splits bool.splits)
qed (use ReadPacket_shrinks in fastforce)

lemma dn_ReadBlock_shrinks:
  assumes "lib_shrinks lib" and "dn_ReadBlock lib net envs c s = Some (s', c', ok)"
  shows "length (c_in c') \<le> length (c_in c)"
  using assms(2) lib_shrinksD(1) [OF assms(1)]
  by (auto simp: dn_ReadBlock_def Let_def split: prod.splits option.splits if_splits bind_splits dest!: c_in_send_block)

lemma write_loop_shrinks:
  "write_loop lib net envs param c m s = Some (s', c', m', ok) \<Longrightarrow> length (c_in c') \<le> length (c_in c)"
proof (induction "length (c_in c)" arbitrary: c m s rule: less_induct)
  case less
  obtain h d rest where r: "ReadPacket lib (c_in c) = Some (h, d, rest)"
    using less.prems by (subst (asm) write_loop.simps) (auto split: option.splits)
  note le = ReadPacket_length [OF r]
  note run = less.prems [unfolded write_loop.simps [of lib net envs param c] r, simplified]
  show ?case
  proof (cases d)
    case None
    then show ?thesis using run le by auto
  next
    case (Some data)
    let ?w = "WriteBlock net envs (wr_bid param) (nat (ph_offset h mod 2 ^ 64)) (length data) data s"
    obtain s1 b where w: "?w = Some (s1, b)"
      using run Some by (cases ?w) auto
    let ?c = "\<lambda>rs. put_out (Ack (ph_seqno h) (SUCCESS # rs)) (c\<lparr>c_in := rest\<rparr>)"
    have "length rest < length (c_in c)"
      using ReadPacket_shrinks r Some by blast
    then have IH: "write_loop lib net envs param (?c rs) m1 s1 = Some (s', c', m', ok) \<Longrightarrow> length (c_in c') \<le> length (c_in c)" for rs m1
      using less.hyps [of "?c rs" m1 s1] by simp
    show ?thesis
      using run le Some w by (cases b) (auto simp: Let_def split: prod.splits if_splits dest: IH)
  qed
qed

lemma dn_WriteBlock_shrinks:
  assumes "lib_shrinks lib" and "dn_WriteBlock lib connect net envs c s = Some (s', c', m, ok)"
  shows "length (c_in c') \<le> length (c_in c)"
  using assms(2) lib_shrinksD(2) [OF assms(1), of "c_in c"]
  by (fastforce simp: dn_WriteBlock_def Let_def split: prod.splits option.splits if_splits dest: write_loop_shrinks)

lemma dn_TransferBlock_shrinks:
  assumes "lib_shrinks lib" and "dn_TransferBlock lib connect net envs c s = Some (s', c', m, ok)"
  shows "length (c_in c') \<le> length (c_in c)"
  using assms(2) lib_shrinksD(3) [OF assms(1), of "c_in c"]
  by (auto simp: dn_TransferBlock_def Let_def split: prod.splits option.splits if_splits bind_splits)

lemma dn_worker_enough:
  assumes "lib_shrinks lib"
  shows "length (c_in c) \<le> n \<Longrightarrow> n \<le> n' \<Longrightarrow> dn_worker n' lib connect net envs c ms s = dn_worker n lib connect net envs c ms s"
proof (induction n' arbitrary: n c ms s)
  case (Suc n')
  show ?case
  proof (cases n)
    case 0
    then show ?thesis using Suc.prems by (simp add: ReadOp_def ReadRaw_def)
  next
    case (Suc k)
    show ?thesis
    proof (cases "ReadOp (c_in c)")
      case (Pair op rest)
      show ?thesis
      proof (cases op)
        case None
        then show ?thesis using Suc Pair by simp
      next
        case (Some op)
        let ?c = "c\<lparr>c_in := rest\<rparr>"
        have k: "k \<le> n'" "length (c_in ?c) \<le> k"
          using Suc Suc.prems ReadOp_Some [of "c_in c" op rest] Pair Some by auto
        have IH: "dn_worker n' lib connect net envs c' ms' s' = dn_worker k lib connect net envs c' ms' s'"
          if "length (c_in c') \<le> length (c_in ?c)" for c' ms' s'
          using Suc.IH [of c' k ms' s'] k that by simp
        show ?thesis
          using Suc Pair Some IH dn_ReadBlock_shrinks [OF assms, of net envs ?c s] dn_WriteBlock_shrinks [OF assms, of connect net envs ?c s]
            dn_TransferBlock_shrinks [OF assms, of connect net envs ?c s]
          by (auto simp: Let_def split: bind_splits)
      qed
    qed
  qed
qed simp

end
