(* ===== verification/Coded_Stream.thy ===== *)
theory Coded_Stream
  imports Hrpc
begin

text \<open>
  The inline functions of \<open>src/yfs/proto/output/google/protobuf/io/coded_stream.h\<close> that the generated messages are
  parsed and written with: fast paths for bytes that are in the current buffer, in front of functions of the
  library for the general case. Those (\<open>\<dots>Fallback\<close>) are parameters, the record \<open>cis_lib\<close>, and \<open>cis_spec\<close> says what the
  comments of the header promise of them. The lemmas show that the fast paths keep these promises, so that the split of the
  input into buffers cannot be seen. Unsigned and signed integers of 32 and 64 bits are both words.
\<close>

section \<open>The input stream\<close>

text \<open>
  \<open>cis_buffer\<close> are the bytes from \<open>buffer_\<close> to \<open>buffer_end_\<close>, which respects the current limit; \<open>cis_input\<close> is the
  underlying stream, of a type that the library knows.
\<close>

record 'i cis =
  cis_buffer :: "byte list"
  cis_input :: 'i
  total_bytes_read :: int
  last_tag :: "32 word"
  legitimate_message_end :: bool
  current_limit :: int
  buffer_size_after_limit :: int
  recursion_budget :: int
  recursion_limit :: int

text \<open>Functions that return \<open>bool\<close> and store a value return \<open>None\<close> for \<open>false\<close>; \<open>int64\<close> and \<open>int\<close> results are integers.\<close>

record 'i cis_lib =
  ReadVarint32Fallback :: "32 word \<Rightarrow> 'i cis \<Rightarrow> int \<times> 'i cis"
  ReadVarint64Fallback :: "'i cis \<Rightarrow> 64 word option \<times> 'i cis"
  ReadVarintSizeAsIntFallback :: "'i cis \<Rightarrow> int \<times> 'i cis"
  ReadLittleEndian32Fallback :: "'i cis \<Rightarrow> 32 word option \<times> 'i cis"
  ReadLittleEndian64Fallback :: "'i cis \<Rightarrow> 64 word option \<times> 'i cis"
  ReadTagFallback :: "32 word \<Rightarrow> 'i cis \<Rightarrow> 32 word \<times> 'i cis"

definition Advance :: "nat \<Rightarrow> 'i cis \<Rightarrow> 'i cis" where
  "Advance amount s = s\<lparr>cis_buffer := drop amount (cis_buffer s)\<rparr>"

definition BufferSize :: "'i cis \<Rightarrow> nat" where
  "BufferSize s = length (cis_buffer s)"

text \<open>The constructor for a flat array; the limits on recursion are \<open>default_recursion_limit_\<close>.\<close>

definition flat_cis :: "int \<Rightarrow> 'i \<Rightarrow> byte list \<Rightarrow> 'i cis" where
  "flat_cis rl null buffer =
     \<lparr>cis_buffer = buffer, cis_input = null, total_bytes_read = int (length buffer), last_tag = 0, legitimate_message_end = False,
      current_limit = int (length buffer), buffer_size_after_limit = 0, recursion_budget = rl, recursion_limit = rl\<rparr>"

definition ReadVarint32 :: "'i cis_lib \<Rightarrow> 'i cis \<Rightarrow> 32 word option \<times> 'i cis" where
  "ReadVarint32 lib s =
     (let v = (case cis_buffer s of [] \<Rightarrow> 0 | b # _ \<Rightarrow> ucast b)
      in if cis_buffer s \<noteq> [] \<and> v < 0x80 then (Some v, Advance 1 s)
         else let (result, s) = ReadVarint32Fallback lib v s
              in (if 0 \<le> result then Some (word_of_int result) else None, s))"

definition ReadVarint64 :: "'i cis_lib \<Rightarrow> 'i cis \<Rightarrow> 64 word option \<times> 'i cis" where
  "ReadVarint64 lib s =
     (case cis_buffer s of
        b # _ \<Rightarrow> if b < 0x80 then (Some (ucast b), Advance 1 s) else ReadVarint64Fallback lib s
      | [] \<Rightarrow> ReadVarint64Fallback lib s)"

definition ReadVarintSizeAsInt :: "'i cis_lib \<Rightarrow> 'i cis \<Rightarrow> nat option \<times> 'i cis" where
  "ReadVarintSizeAsInt lib s =
     (case cis_buffer s of
        b # _ \<Rightarrow>
          if unat b < 0x80 then (Some (unat b), Advance 1 s)
          else let (v, s) = ReadVarintSizeAsIntFallback lib s in (if 0 \<le> v then Some (nat v) else None, s)
      | [] \<Rightarrow> let (v, s) = ReadVarintSizeAsIntFallback lib s in (if 0 \<le> v then Some (nat v) else None, s))"

text \<open>
  On a little-endian machine, where \<open>memcpy\<close> is used. The functions on an array return the pointer behind
  the integer: here what is left of the array. Reading outside the array is undefined.
\<close>

definition ReadLittleEndian32FromArray :: "byte list \<Rightarrow> (32 word \<times> byte list) option" where
  "ReadLittleEndian32FromArray buffer =
     (if length buffer < 4 then None else Some (of_nat (le_nat (take 4 buffer)), drop 4 buffer))"

definition ReadLittleEndian64FromArray :: "byte list \<Rightarrow> (64 word \<times> byte list) option" where
  "ReadLittleEndian64FromArray buffer =
     (if length buffer < 8 then None else Some (of_nat (le_nat (take 8 buffer)), drop 8 buffer))"

definition ReadLittleEndian32 :: "'i cis_lib \<Rightarrow> 'i cis \<Rightarrow> 32 word option \<times> 'i cis" where
  "ReadLittleEndian32 lib s =
     (if 4 \<le> BufferSize s then (Some (of_nat (le_nat (take 4 (cis_buffer s)))), Advance 4 s)
      else ReadLittleEndian32Fallback lib s)"

definition ReadLittleEndian64 :: "'i cis_lib \<Rightarrow> 'i cis \<Rightarrow> 64 word option \<times> 'i cis" where
  "ReadLittleEndian64 lib s =
     (if 8 \<le> BufferSize s then (Some (of_nat (le_nat (take 8 (cis_buffer s)))), Advance 8 s)
      else ReadLittleEndian64Fallback lib s)"

definition ReadTag :: "'i cis_lib \<Rightarrow> 'i cis \<Rightarrow> 32 word \<times> 'i cis" where
  "ReadTag lib s =
     (let v = (case cis_buffer s of [] \<Rightarrow> 0 | b # _ \<Rightarrow> ucast b)
      in if cis_buffer s \<noteq> [] \<and> v < 0x80 then (v, Advance 1 (s\<lparr>last_tag := v\<rparr>))
         else let (t, s) = ReadTagFallback lib v s in (t, s\<lparr>last_tag := t\<rparr>))"

text \<open>Two fast paths, for tags of one and of two bytes, and the slow one.\<close>

definition ReadTagWithCutoff :: "'i cis_lib \<Rightarrow> 32 word \<Rightarrow> 'i cis \<Rightarrow> (32 word \<times> bool) \<times> 'i cis" where
  "ReadTagWithCutoff lib cutoff s =
     (let slow = (\<lambda>first_byte_or_zero.
            let (t, s) = ReadTagFallback lib first_byte_or_zero s
            in ((t, t - 1 < cutoff), s\<lparr>last_tag := t\<rparr>))
      in case cis_buffer s of
           [] \<Rightarrow> slow 0
         | b0 # bs \<Rightarrow>
             if 0 <s b0
             then let tag = ucast b0 in ((tag, 0x7f \<le> cutoff \<or> tag \<le> cutoff), Advance 1 (s\<lparr>last_tag := tag\<rparr>))
             else (case bs of
                     b1 # _ \<Rightarrow>
                       if 0x80 \<le> cutoff \<and> 0x80 \<le> b0 AND NOT b1
                       then let tag = 2 ^ 7 * ucast b1 + (ucast b0 - 0x80)
                            in ((tag, 0x3fff \<le> cutoff \<or> tag \<le> cutoff), Advance 2 (s\<lparr>last_tag := tag\<rparr>))
                       else slow (ucast b0)
                   | [] \<Rightarrow> slow (ucast b0)))"

definition LastTagWas :: "32 word \<Rightarrow> 'i cis \<Rightarrow> bool" where
  "LastTagWas expected s \<longleftrightarrow> last_tag s = expected"

definition ConsumedEntireMessage :: "'i cis \<Rightarrow> bool" where
  "ConsumedEntireMessage s = legitimate_message_end s"

text \<open>\<open>Some None\<close> is \<open>NULL\<close>, and \<open>None\<close> a read outside the array.\<close>

definition ExpectTagFromArray :: "byte list \<Rightarrow> 32 word \<Rightarrow> byte list option option" where
  "ExpectTagFromArray buffer expected =
     (if expected < 2 ^ 7
      then (case buffer of [] \<Rightarrow> None | b0 # bs \<Rightarrow> Some (if ucast b0 = expected then Some bs else None))
      else if expected < 2 ^ 14
      then (case buffer of
              [] \<Rightarrow> None
            | b0 # bs \<Rightarrow>
                if b0 \<noteq> ucast (expected OR 0x80) then Some None
                else (case bs of
                        [] \<Rightarrow> None
                      | b1 # bs \<Rightarrow> Some (if b1 = ucast (drop_bit 7 expected) then Some bs else None)))
      else Some None)"

definition ExpectTag :: "32 word \<Rightarrow> 'i cis \<Rightarrow> bool \<times> 'i cis" where
  "ExpectTag expected s =
     (if expected < 2 ^ 7
      then (case cis_buffer s of b0 # _ \<Rightarrow> if ucast b0 = expected then (True, Advance 1 s) else (False, s) | [] \<Rightarrow> (False, s))
      else if expected < 2 ^ 14
      then (case cis_buffer s of
              b0 # b1 # _ \<Rightarrow>
                if b0 = ucast (expected OR 0x80) \<and> b1 = ucast (drop_bit 7 expected) then (True, Advance 2 s) else (False, s)
            | _ \<Rightarrow> (False, s))
      else (False, s))"

definition ExpectAtEnd :: "'i cis \<Rightarrow> bool \<times> 'i cis" where
  "ExpectAtEnd s =
     (if cis_buffer s = [] \<and> (buffer_size_after_limit s \<noteq> 0 \<or> total_bytes_read s = current_limit s)
      then (True, s\<lparr>last_tag := 0, legitimate_message_end := True\<rparr>)
      else (False, s))"

definition CurrentPosition :: "'i cis \<Rightarrow> int" where
  "CurrentPosition s = total_bytes_read s - (int (BufferSize s) + buffer_size_after_limit s)"

definition GetDirectBufferPointerInline :: "'i cis \<Rightarrow> byte list \<times> nat" where
  "GetDirectBufferPointerInline s = (cis_buffer s, length (cis_buffer s))"

text \<open>The budget for nested messages; the \<open>assert\<close> of the unsafe version fails as \<open>None\<close>.\<close>

definition SetRecursionLimit :: "int \<Rightarrow> 'i cis \<Rightarrow> 'i cis" where
  "SetRecursionLimit limit s = s\<lparr>recursion_budget := recursion_budget s + (limit - recursion_limit s), recursion_limit := limit\<rparr>"

definition IncrementRecursionDepth :: "'i cis \<Rightarrow> bool \<times> 'i cis" where
  "IncrementRecursionDepth s =
     (let s = s\<lparr>recursion_budget := recursion_budget s - 1\<rparr> in (0 \<le> recursion_budget s, s))"

definition DecrementRecursionDepth :: "'i cis \<Rightarrow> 'i cis" where
  "DecrementRecursionDepth s =
     (if recursion_budget s < recursion_limit s then s\<lparr>recursion_budget := recursion_budget s + 1\<rparr> else s)"

definition UnsafeDecrementRecursionDepth :: "'i cis \<Rightarrow> 'i cis option" where
  "UnsafeDecrementRecursionDepth s =
     (if recursion_budget s < recursion_limit s then Some (s\<lparr>recursion_budget := recursion_budget s + 1\<rparr>) else None)"

section \<open>Writing into an array\<close>

text \<open>The bytes that are stored from \<open>target\<close> on. The writer of 64-bit varints and the size of long ones are of the library.\<close>

definition WriteLittleEndian32ToArray :: "32 word \<Rightarrow> byte list" where
  "WriteLittleEndian32ToArray v = le_bytes 4 (unat v)"

definition WriteLittleEndian64ToArray :: "64 word \<Rightarrow> byte list" where
  "WriteLittleEndian64ToArray v = le_bytes 8 (unat v)"

record cos_lib =
  WriteVarint64ToArray :: "64 word \<Rightarrow> byte list"
  VarintSize32Fallback :: "32 word \<Rightarrow> int"
  VarintSize64 :: "64 word \<Rightarrow> int"

definition WriteVarint32SignExtendedToArray :: "cos_lib \<Rightarrow> 32 word \<Rightarrow> byte list" where
  "WriteVarint32SignExtendedToArray lib v =
     (if v <s 0 then WriteVarint64ToArray lib (scast v) else WriteVarint32ToArray (unat v))"

definition WriteTagToArray :: "32 word \<Rightarrow> byte list" where
  "WriteTagToArray v = WriteVarint32ToArray (unat v)"

definition VarintSize32 :: "cos_lib \<Rightarrow> 32 word \<Rightarrow> int" where
  "VarintSize32 lib v = (if v < 2 ^ 7 then 1 else VarintSize32Fallback lib v)"

definition VarintSize32SignExtended :: "cos_lib \<Rightarrow> 32 word \<Rightarrow> int" where
  "VarintSize32SignExtended lib v = (if v <s 0 then 10 else VarintSize32 lib v)"

section \<open>The output stream\<close>

text \<open>
  \<open>written\<close> is what was stored so far, \<open>buffer_size\<close> the room that is left in the current buffer. The slow
  paths, which ask the underlying stream for buffers, are of the library. Storing behind the end of the buffer is undefined.
\<close>

record 'o cos =
  written :: "byte list"
  buffer_size :: int
  total_bytes :: int
  aliasing_enabled :: bool
  cos_output :: 'o

record 'o cos_slow =
  WriteVarint32SlowPath :: "32 word \<Rightarrow> 'o cos \<Rightarrow> 'o cos"
  WriteVarint64_out :: "64 word \<Rightarrow> 'o cos \<Rightarrow> 'o cos"
  WriteLittleEndian32_out :: "32 word \<Rightarrow> 'o cos \<Rightarrow> 'o cos"
  WriteLittleEndian64_out :: "64 word \<Rightarrow> 'o cos \<Rightarrow> 'o cos"
  WriteRaw :: "byte list \<Rightarrow> 'o cos \<Rightarrow> 'o cos"
  WriteAliasedRaw :: "byte list \<Rightarrow> 'o cos \<Rightarrow> 'o cos"

definition store_bytes :: "byte list \<Rightarrow> 'o cos \<Rightarrow> 'o cos option" where
  "store_bytes bs s =
     (if int (length bs) \<le> buffer_size s
      then Some (s\<lparr>written := written s @ bs, buffer_size := buffer_size s - int (length bs)\<rparr>) else None)"

definition WriteVarint32 :: "'o cos_slow \<Rightarrow> 32 word \<Rightarrow> 'o cos \<Rightarrow> 'o cos option" where
  "WriteVarint32 lib v s =
     (if 5 \<le> buffer_size s then store_bytes (WriteVarint32ToArray (unat v)) s else Some (WriteVarint32SlowPath lib v s))"

definition WriteVarint32SignExtended :: "'o cos_slow \<Rightarrow> 32 word \<Rightarrow> 'o cos \<Rightarrow> 'o cos option" where
  "WriteVarint32SignExtended lib v s =
     (if v <s 0 then Some (WriteVarint64_out lib (scast v) s) else WriteVarint32 lib v s)"

definition WriteTag :: "'o cos_slow \<Rightarrow> 32 word \<Rightarrow> 'o cos \<Rightarrow> 'o cos option" where
  "WriteTag lib v s = WriteVarint32 lib v s"

definition WriteString :: "'o cos_slow \<Rightarrow> byte list \<Rightarrow> 'o cos \<Rightarrow> 'o cos" where
  "WriteString lib str s = WriteRaw lib str s"

definition WriteRawMaybeAliased :: "'o cos_slow \<Rightarrow> byte list \<Rightarrow> 'o cos \<Rightarrow> 'o cos" where
  "WriteRawMaybeAliased lib bs s = (if aliasing_enabled s then WriteAliasedRaw lib bs s else WriteRaw lib bs s)"

definition ByteCount :: "'o cos \<Rightarrow> int" where
  "ByteCount s = total_bytes s - buffer_size s"

text \<open>\<open>GetDirectBufferForNBytesAndAdvance\<close> and what its caller stores there; \<open>None\<close> is \<open>NULL\<close>.\<close>

definition GetDirectBufferForNBytesAndAdvance :: "byte list \<Rightarrow> 'o cos \<Rightarrow> 'o cos option" where
  "GetDirectBufferForNBytesAndAdvance bs s =
     (if buffer_size s < int (length bs) then None
      else Some (s\<lparr>written := written s @ bs, buffer_size := buffer_size s - int (length bs)\<rparr>))"

definition appends :: "('o cos \<Rightarrow> 'o cos) \<Rightarrow> byte list \<Rightarrow> bool" where
  "appends f bs \<longleftrightarrow> (\<forall>s. 0 \<le> buffer_size s \<longrightarrow> written (f s) = written s @ bs \<and> 0 \<le> buffer_size (f s))"

definition cos_slow_spec :: "'o cos_slow \<Rightarrow> bool" where
  "cos_slow_spec lib \<longleftrightarrow>
     (\<forall>v. appends (WriteVarint32SlowPath lib v) (WriteVarint32ToArray (unat v))) \<and>
     (\<forall>v. appends (WriteVarint64_out lib v) (WriteVarint32ToArray (unat v))) \<and>
     (\<forall>v. appends (WriteLittleEndian32_out lib v) (WriteLittleEndian32ToArray v)) \<and>
     (\<forall>v. appends (WriteLittleEndian64_out lib v) (WriteLittleEndian64ToArray v)) \<and>
     (\<forall>bs. appends (WriteRaw lib bs) bs \<and> appends (WriteAliasedRaw lib bs) bs)"

section \<open>What the library promises\<close>

text \<open>
  \<open>ahead\<close> are the bytes that the underlying stream will still deliver before the limit. A varint is what
  \<open>WriteVarint32ToArray\<close> writes, which has no bound on its own.
\<close>

definition stream_rest :: "('i \<Rightarrow> byte list) \<Rightarrow> 'i cis \<Rightarrow> byte list" where
  "stream_rest ahead s = cis_buffer s @ ahead (cis_input s)"

definition first_byte_or_zero :: "'i cis \<Rightarrow> 32 word" where
  "first_byte_or_zero s = (case cis_buffer s of [] \<Rightarrow> 0 | b # _ \<Rightarrow> ucast b)"

definition varint32_spec :: "'i cis_lib \<Rightarrow> ('i \<Rightarrow> byte list) \<Rightarrow> bool" where
  "varint32_spec lib ahead \<longleftrightarrow> (\<forall>s n r. n < 2 ^ 64 \<and> stream_rest ahead s = WriteVarint32ToArray n @ r \<longrightarrow>
     (\<exists>s'. ReadVarint32Fallback lib (first_byte_or_zero s) s = (int (n mod 2 ^ 32), s') \<and> stream_rest ahead s' = r))"

definition varint64_spec :: "'i cis_lib \<Rightarrow> ('i \<Rightarrow> byte list) \<Rightarrow> bool" where
  "varint64_spec lib ahead \<longleftrightarrow> (\<forall>s n r. n < 2 ^ 64 \<and> stream_rest ahead s = WriteVarint32ToArray n @ r \<longrightarrow>
     (\<exists>s'. ReadVarint64Fallback lib s = (Some (of_nat n), s') \<and> stream_rest ahead s' = r))"

definition little_endian_spec :: "'i cis_lib \<Rightarrow> ('i \<Rightarrow> byte list) \<Rightarrow> bool" where
  "little_endian_spec lib ahead \<longleftrightarrow>
     (\<forall>s v r. stream_rest ahead s = le_bytes 4 (unat v) @ r \<longrightarrow>
        (\<exists>s'. ReadLittleEndian32Fallback lib s = (Some v, s') \<and> stream_rest ahead s' = r)) \<and>
     (\<forall>s v r. stream_rest ahead s = le_bytes 8 (unat v) @ r \<longrightarrow>
        (\<exists>s'. ReadLittleEndian64Fallback lib s = (Some v, s') \<and> stream_rest ahead s' = r))"

text \<open>A tag is a varint of 32 bits; the end of the input, or of the limit, reads as the tag 0 and is a legitimate end.\<close>

definition tag_spec :: "'i cis_lib \<Rightarrow> ('i \<Rightarrow> byte list) \<Rightarrow> bool" where
  "tag_spec lib ahead \<longleftrightarrow>
     (\<forall>s n r. n < 2 ^ 32 \<and> stream_rest ahead s = WriteVarint32ToArray n @ r \<longrightarrow>
        (\<exists>s'. ReadTagFallback lib (first_byte_or_zero s) s = (of_nat n, s') \<and> stream_rest ahead s' = r)) \<and>
     (\<forall>s. stream_rest ahead s = [] \<longrightarrow>
        (\<exists>s'. ReadTagFallback lib 0 s = (0, s') \<and> stream_rest ahead s' = [] \<and> legitimate_message_end s'))"

definition cis_spec :: "'i cis_lib \<Rightarrow> ('i \<Rightarrow> byte list) \<Rightarrow> bool" where
  "cis_spec lib ahead \<longleftrightarrow>
     varint32_spec lib ahead \<and> varint64_spec lib ahead \<and> little_endian_spec lib ahead \<and> tag_spec lib ahead"

definition cos_spec :: "cos_lib \<Rightarrow> bool" where
  "cos_spec lib \<longleftrightarrow>
     (\<forall>v. WriteVarint64ToArray lib v = WriteVarint32ToArray (unat v)) \<and>
     (\<forall>v. VarintSize32Fallback lib v = int (length (WriteVarint32ToArray (unat v)))) \<and>
     (\<forall>v. VarintSize64 lib v = int (length (WriteVarint32ToArray (unat v))))"

section \<open>Bytes of varints\<close>

lemma varint_small: "n < 128 \<Longrightarrow> WriteVarint32ToArray n = [of_nat n]"
  by (simp add: WriteVarint32ToArray.simps)

lemma varint_large: "128 \<le> n \<Longrightarrow> WriteVarint32ToArray n = (of_nat n OR 0x80) # WriteVarint32ToArray (n div 128)"
  by (subst WriteVarint32ToArray.simps) simp

lemma varint_head:
  "\<exists>b bs. WriteVarint32ToArray n = b # bs \<and> (if b < 0x80 then bs = [] \<and> n = unat b else 128 \<le> n \<and> b = of_nat n OR 0x80 \<and> bs = WriteVarint32ToArray (n div 128))"
proof (cases "n < 128")
  case True
  then have "(of_nat n :: byte) < 0x80" "unat (of_nat n :: byte) = n"
    by (simp_all add: word_less_nat_alt unat_byte_of_nat)
  then show ?thesis
    using varint_small [OF True] by auto
next
  case False
  moreover have "\<not> (of_nat n OR 0x80 :: byte) < 0x80"
    using byte_or_128 [of "of_nat n"] by (simp add: not_less)
  ultimately show ?thesis
    using varint_large [of n] by auto
qed

lemma stream_rest_Advance: "n \<le> length (cis_buffer s) \<Longrightarrow> stream_rest ahead (Advance n s) = drop n (stream_rest ahead s)"
  by (simp add: stream_rest_def Advance_def)

lemma stream_rest_update [simp]:
  "stream_rest ahead (s\<lparr>last_tag := t\<rparr>) = stream_rest ahead s" "stream_rest ahead (s\<lparr>legitimate_message_end := e\<rparr>) = stream_rest ahead s"
  by (simp_all add: stream_rest_def)

lemma varint_buffer:
  assumes "stream_rest ahead s = WriteVarint32ToArray n @ r" and "cis_buffer s = b # bs"
  shows "\<exists>w. WriteVarint32ToArray n = b # w \<and> bs @ ahead (cis_input s) = w @ r
    \<and> (if b < 0x80 then w = [] \<and> n = unat b else 128 \<le> n \<and> b = of_nat n OR 0x80 \<and> w = WriteVarint32ToArray (n div 128))"
  using varint_head [of n] assms by (auto simp: stream_rest_def)

lemma rest_after_byte: "cis_buffer s = b # bs \<Longrightarrow> stream_rest ahead (Advance (Suc 0) s) = bs @ ahead (cis_input s)"
  by (simp add: stream_rest_def Advance_def)

lemma unat_word_of_byte [simp]: "unat (ucast (b :: byte) :: 32 word) = unat b" "unat (ucast b :: 64 word) = unat b"
  using unat_byte_less [of b] by (simp_all add: unsigned_ucast_eq take_bit_nat_eq_self)

section \<open>Reading\<close>

lemma ReadVarint64_ok:
  assumes "varint64_spec lib ahead" and "n < 2 ^ 64" and "stream_rest ahead s = WriteVarint32ToArray n @ r"
  shows "\<exists>s'. ReadVarint64 lib s = (Some (of_nat n), s') \<and> stream_rest ahead s' = r"
proof (cases "\<exists>b bs. cis_buffer s = b # bs \<and> b < 0x80")
  case True
  then obtain b bs where b: "cis_buffer s = b # bs" "b < 0x80" by blast
  then show ?thesis
    using varint_buffer [OF assms(3) b(1)] by (auto simp: ReadVarint64_def rest_after_byte)
next
  case False
  then have "ReadVarint64 lib s = ReadVarint64Fallback lib s"
    by (auto simp: ReadVarint64_def split: list.split)
  then show ?thesis
    using assms unfolding varint64_spec_def by metis
qed

lemma ReadVarint32_ok:
  assumes "varint32_spec lib ahead" and "n < 2 ^ 64" and "stream_rest ahead s = WriteVarint32ToArray n @ r"
  shows "\<exists>s'. ReadVarint32 lib s = (Some (of_nat n), s') \<and> stream_rest ahead s' = r"
proof (cases "\<exists>b bs. cis_buffer s = b # bs \<and> b < 0x80")
  case True
  then obtain b bs where b: "cis_buffer s = b # bs" "b < 0x80" by blast
  then have "(ucast b :: 32 word) < 0x80"
    by (simp add: word_less_nat_alt)
  then show ?thesis
    using varint_buffer [OF assms(3) b(1)] b by (auto simp: ReadVarint32_def rest_after_byte)
next
  case False
  have "\<not> (cis_buffer s \<noteq> [] \<and> first_byte_or_zero s < 0x80)"
    using False by (auto simp: first_byte_or_zero_def word_less_nat_alt split: list.splits)
  moreover obtain s' where "ReadVarint32Fallback lib (first_byte_or_zero s) s = (int (n mod 2 ^ 32), s')" "stream_rest ahead s' = r"
    using assms unfolding varint32_spec_def by metis
  moreover have "word_of_int (int (n mod 2 ^ 32)) = (of_nat n :: 32 word)"
    by (simp add: word_of_nat_eq_iff take_bit_nat_def)
  ultimately show ?thesis
    by (auto simp: ReadVarint32_def Let_def first_byte_or_zero_def [symmetric])
qed

lemma le_word_bytes:
  "(of_nat (le_nat (le_bytes 4 (unat (v :: 32 word)))) :: 32 word) = v" "(of_nat (le_nat (le_bytes 8 (unat (w :: 64 word)))) :: 64 word) = w"
  using unsigned_less [of v, where ?'a = nat] unsigned_less [of w, where ?'a = nat] by (simp_all add: le_nat_le_bytes)

lemma ReadLittleEndian32_ok:
  assumes "little_endian_spec lib ahead" and "stream_rest ahead s = WriteLittleEndian32ToArray v @ r"
  shows "\<exists>s'. ReadLittleEndian32 lib s = (Some v, s') \<and> stream_rest ahead s' = r"
proof (cases "4 \<le> length (cis_buffer s)")
  case True
  have "take 4 (stream_rest ahead s) = le_bytes 4 (unat v)"
    by (simp add: assms(2) WriteLittleEndian32ToArray_def)
  then have "take 4 (cis_buffer s) = le_bytes 4 (unat v)"
    using True by (simp add: stream_rest_def)
  then show ?thesis
    using True assms(2)
    by (simp add: ReadLittleEndian32_def BufferSize_def stream_rest_Advance le_word_bytes WriteLittleEndian32ToArray_def)
next
  case False
  then show ?thesis
    using assms unfolding little_endian_spec_def by (simp add: ReadLittleEndian32_def BufferSize_def WriteLittleEndian32ToArray_def)
qed

lemma ReadLittleEndian64_ok:
  assumes "little_endian_spec lib ahead" and "stream_rest ahead s = WriteLittleEndian64ToArray v @ r"
  shows "\<exists>s'. ReadLittleEndian64 lib s = (Some v, s') \<and> stream_rest ahead s' = r"
proof (cases "8 \<le> length (cis_buffer s)")
  case True
  have "take 8 (stream_rest ahead s) = le_bytes 8 (unat v)"
    by (simp add: assms(2) WriteLittleEndian64ToArray_def)
  then have "take 8 (cis_buffer s) = le_bytes 8 (unat v)"
    using True by (simp add: stream_rest_def)
  then show ?thesis
    using True assms(2)
    by (simp add: ReadLittleEndian64_def BufferSize_def stream_rest_Advance le_word_bytes WriteLittleEndian64ToArray_def)
next
  case False
  then show ?thesis
    using assms unfolding little_endian_spec_def by (simp add: ReadLittleEndian64_def BufferSize_def WriteLittleEndian64ToArray_def)
qed

section \<open>Tags\<close>

lemma ReadTag_ok:
  assumes "tag_spec lib ahead" and "n < 2 ^ 32" and "stream_rest ahead s = WriteVarint32ToArray n @ r"
  shows "\<exists>s'. ReadTag lib s = (of_nat n, s') \<and> stream_rest ahead s' = r \<and> last_tag s' = of_nat n"
proof (cases "cis_buffer s \<noteq> [] \<and> first_byte_or_zero s < 0x80")
  case True
  then obtain b bs where b: "cis_buffer s = b # bs" "b < 0x80"
    by (cases "cis_buffer s") (auto simp: first_byte_or_zero_def word_less_nat_alt)
  have "stream_rest ahead (Advance (Suc 0) (s\<lparr>last_tag := t\<rparr>)) = bs @ ahead (cis_input s)"
    "last_tag (Advance (Suc 0) (s\<lparr>last_tag := t\<rparr>)) = t" for t
    using b(1) by (simp_all add: stream_rest_def Advance_def)
  then show ?thesis
    using varint_buffer [OF assms(3) b(1)] b True by (auto simp: ReadTag_def Let_def first_byte_or_zero_def)
next
  case False
  moreover obtain s' where "ReadTagFallback lib (first_byte_or_zero s) s = (of_nat n, s')" "stream_rest ahead s' = r"
    using assms unfolding tag_spec_def by metis
  ultimately show ?thesis
    by (auto simp: ReadTag_def Let_def first_byte_or_zero_def [symmetric])
qed

lemma one_byte_tag: "0 <s (b :: byte) \<longleftrightarrow> 0 < unat b \<and> unat b < 0x80"
proof (rule all_bytes [of _ b])
  have "list_all (\<lambda>n. (0 <s (of_nat n :: byte)) = (0 < unat (of_nat n :: byte) \<and> unat (of_nat n :: byte) < 0x80)) [0..<256]"
    by code_simp
  then show "\<forall>n<256. (0 <s (of_nat n :: byte)) = (0 < unat (of_nat n :: byte) \<and> unat (of_nat n :: byte) < 0x80)"
    by (auto simp: list_all_iff)
qed

lemma high_bit_and_not: "0x80 \<le> (x AND NOT y :: byte) \<longleftrightarrow> 0x80 \<le> x \<and> y < 0x80"
proof -
  have bit7: "0x80 \<le> (z :: byte) \<longleftrightarrow> bit z 7" for z
  proof (rule all_bytes [of _ z])
    have "list_all (\<lambda>n. (0x80 \<le> (of_nat n :: byte)) = bit (of_nat n :: byte) 7) [0..<256]"
      by code_simp
    then show "\<forall>n<256. (0x80 \<le> (of_nat n :: byte)) = bit (of_nat n :: byte) 7"
      by (auto simp: list_all_iff)
  qed
  show ?thesis
    by (simp add: bit7 not_le [symmetric] bit_and_iff bit_not_iff)
qed

lemma unat_or_128: "unat (of_nat n OR 0x80 :: byte) = 128 + n mod 128"
proof -
  let ?x = "unat (of_nat n OR 0x80 :: byte)"
  have "0x80 \<le> (of_nat n OR 0x80 :: byte)" "(of_nat n OR 0x80 :: byte) AND 0x7f = of_nat n AND 0x7f"
    using byte_or_128 [of "of_nat n"] by auto
  then have x: "128 \<le> ?x" "?x mod 128 = n mod 128"
    using unat_and_127 [of "of_nat n OR 0x80"] unat_of_nat_and_127 [of n] by (simp_all add: word_le_nat_alt)
  moreover have "?x mod 128 = ?x - 128"
    using x(1) unat_byte_less [of "of_nat n OR 0x80"] by (simp add: le_mod_geq)
  ultimately show ?thesis
    by linarith
qed

lemma two_byte_tag:
  assumes "n div 128 < 128"
  shows "2 ^ 7 * ucast (of_nat (n div 128) :: byte) + (ucast (of_nat n OR 0x80 :: byte) - 0x80) = (of_nat n :: 32 word)"
proof -
  have "(ucast (of_nat n OR 0x80 :: byte) :: 32 word) = of_nat (128 + n mod 128)"
    using of_nat_unat [of "of_nat n OR 0x80 :: byte", where ?'a = "32 word"] unat_or_128 [of n] by metis
  then have a: "ucast (of_nat n OR 0x80 :: byte) - (0x80 :: 32 word) = of_nat (n mod 128)"
    by simp
  have b: "(ucast (of_nat (n div 128) :: byte) :: 32 word) = of_nat (n div 128)"
    using of_nat_unat [of "of_nat (n div 128) :: byte", where ?'a = "32 word"] assms by (simp only: unat_byte_of_nat) simp
  have "2 ^ 7 * of_nat (n div 128) + of_nat (n mod 128) = (of_nat (128 * (n div 128) + n mod 128) :: 32 word)"
    by (simp only: of_nat_add of_nat_mult) simp
  then show ?thesis
    unfolding a b by (simp only: mult_div_mod_eq)
qed

lemma unat_tag: "n < 2 ^ 32 \<Longrightarrow> unat (of_nat n :: 32 word) = n"
  by (simp add: unat_of_nat take_bit_nat_eq_self)

lemma below_cutoff: "0 < n \<Longrightarrow> n < 2 ^ 32 \<Longrightarrow> (of_nat n - 1 < (c :: 32 word)) = (n \<le> unat c)"
proof -
  assume n: "0 < n" "n < 2 ^ 32"
  have "(of_nat n - 1 :: 32 word) = of_nat (n - 1)"
    using n(1) by (simp add: of_nat_diff)
  moreover have "unat (of_nat (n - 1) :: 32 word) = n - 1"
    using n by (intro unat_tag) simp
  ultimately show ?thesis
    using n(1) by (simp only: word_less_nat_alt) linarith
qed

lemma slow_tag:
  assumes "tag_spec lib ahead" and "0 < n" and "n < 2 ^ 32" and "stream_rest ahead s = WriteVarint32ToArray n @ r"
  shows "\<exists>s'. (let (t, s) = ReadTagFallback lib (first_byte_or_zero s) s in ((t, t - 1 < c), s\<lparr>last_tag := t\<rparr>))
      = ((of_nat n, n \<le> unat c), s') \<and> stream_rest ahead s' = r \<and> last_tag s' = of_nat n"
proof -
  obtain s' where "ReadTagFallback lib (first_byte_or_zero s) s = (of_nat n, s')" "stream_rest ahead s' = r"
    using assms(1,3,4) unfolding tag_spec_def by metis
  then show ?thesis
    using below_cutoff [OF assms(2,3)] by simp
qed

lemma fast_tag:
  assumes "cis_buffer s = w @ bs" and "stream_rest ahead s = w @ r" and "length w = k"
  shows "stream_rest ahead (Advance k (s\<lparr>last_tag := t\<rparr>)) = r \<and> last_tag (Advance k (s\<lparr>last_tag := t\<rparr>)) = t"
  using assms by (auto simp: stream_rest_def Advance_def)

lemma cutoff_one:
  "cis_buffer s = b0 # bs \<Longrightarrow> 0 <s b0 \<Longrightarrow>
     ReadTagWithCutoff lib c s = ((ucast b0, 0x7f \<le> c \<or> ucast b0 \<le> c), Advance 1 (s\<lparr>last_tag := ucast b0\<rparr>))"
  by (simp add: ReadTagWithCutoff_def Let_def)

lemma cutoff_two:
  assumes "cis_buffer s = b0 # b1 # bs" and "\<not> 0 <s b0" and "0x80 \<le> c" and "0x80 \<le> b0 AND NOT b1"
    and "2 ^ 7 * ucast b1 + (ucast b0 - 0x80) = tag"
  shows "ReadTagWithCutoff lib c s = ((tag, 0x3fff \<le> c \<or> tag \<le> c), Advance 2 (s\<lparr>last_tag := tag\<rparr>))"
  using assms(1-4) by (simp add: ReadTagWithCutoff_def Let_def assms(5) [symmetric])

lemma cutoff_slow:
  assumes "cis_buffer s = [] \<or> \<not> 0 <s hd (cis_buffer s)"
    and "\<forall>b0 b1 bs. cis_buffer s = b0 # b1 # bs \<longrightarrow> \<not> (0x80 \<le> c \<and> 0x80 \<le> b0 AND NOT b1)"
  shows "ReadTagWithCutoff lib c s =
    (let (t, s) = ReadTagFallback lib (first_byte_or_zero s) s in ((t, t - 1 < c), s\<lparr>last_tag := t\<rparr>))"
  unfolding ReadTagWithCutoff_def first_byte_or_zero_def Let_def
  using assms by (cases "cis_buffer s" rule: remdups_adj.cases) auto

lemma small_tag_le: "n < m \<Longrightarrow> m < 2 ^ 32 \<Longrightarrow> (of_nat (m - 1) \<le> c \<or> of_nat n \<le> (c :: 32 word)) = (n \<le> unat c)"
  using unat_tag [of n] unat_tag [of "m - 1"] unfolding word_le_nat_alt by auto

lemma two_byte_parts:
  assumes "128 \<le> n" and "WriteVarint32ToArray (n div 128) = w" and "b1 # bs = w @ r" and "b1 < 0x80"
  shows "b1 = of_nat (n div 128) \<and> w = [b1] \<and> n div 128 < 128"
  using varint_head [of "n div 128"] assms by (auto simp: word_less_nat_alt)

lemma ReadTagWithCutoff_ok:
  assumes spec: "tag_spec lib ahead" and n: "0 < n" "n < 2 ^ 32" and s: "stream_rest ahead s = WriteVarint32ToArray n @ r"
  shows "\<exists>s'. ReadTagWithCutoff lib c s = ((of_nat n, n \<le> unat c), s') \<and> stream_rest ahead s' = r \<and> last_tag s' = of_nat n"
proof -
  consider (slow) "cis_buffer s = [] \<or> \<not> 0 <s hd (cis_buffer s)"
      "\<forall>b0 b1 bs. cis_buffer s = b0 # b1 # bs \<longrightarrow> \<not> (0x80 \<le> c \<and> 0x80 \<le> b0 AND NOT b1)"
    | (one) b0 bs where "cis_buffer s = b0 # bs" "0 <s b0"
    | (two) b0 b1 bs where "cis_buffer s = b0 # b1 # bs" "\<not> 0 <s b0" "0x80 \<le> c" "0x80 \<le> b0 AND NOT b1"
    by (cases "cis_buffer s") auto
  then show ?thesis
  proof cases
    case slow
    show ?thesis
      using slow_tag [OF spec n s, of c] cutoff_slow [OF slow, of lib] by simp
  next
    case one
    have b: "unat b0 < 128" "b0 < 0x80"
      using one(2) by (simp_all add: one_byte_tag word_less_nat_alt)
    then have w: "WriteVarint32ToArray n = [b0]" "n = unat b0"
      using varint_buffer [OF s one(1)] by auto
    have "(0x7f \<le> c \<or> ucast b0 \<le> c) = (n \<le> unat c)"
      using small_tag_le [of n 128 c] b(1) w(2) by simp
    then show ?thesis
      unfolding cutoff_one [OF one] using fast_tag [of s "[b0]" bs ahead r 1 "ucast b0"] one(1) s w by simp
  next
    case two
    have b: "0x80 \<le> b0" "b1 < 0x80" "\<not> b0 < 0x80"
      using two(4) by (auto simp: high_bit_and_not)
    obtain w where w: "WriteVarint32ToArray n = b0 # w" "b1 # bs @ ahead (cis_input s) = w @ r" "128 \<le> n" "b0 = of_nat n OR 0x80"
      "WriteVarint32ToArray (n div 128) = w"
      using varint_buffer [OF s two(1)] b(3) by auto
    note p = two_byte_parts [OF w(3,5,2) b(2)]
    have tag: "2 ^ 7 * ucast b1 + (ucast b0 - 0x80) = (of_nat n :: 32 word)"
      using p two_byte_tag [of n] w(4) by blast
    have "(0x3fff \<le> c \<or> of_nat n \<le> c) = (n \<le> unat c)"
      using small_tag_le [of n "2 ^ 14" c] p by (simp add: div_less_iff_less_mult)
    then show ?thesis
      unfolding cutoff_two [OF two tag] using fast_tag [of s "[b0, b1]" bs ahead r 2 "of_nat n"] two(1) s w(1) p by simp
  qed
qed

lemma ReadTagWithCutoff_end:
  assumes "tag_spec lib ahead" and "stream_rest ahead s = []"
  shows "\<exists>s'. ReadTagWithCutoff lib c s = ((0, False), s') \<and> stream_rest ahead s' = [] \<and> legitimate_message_end s'"
proof -
  obtain s' where "ReadTagFallback lib 0 s = (0, s')" "stream_rest ahead s' = []" "legitimate_message_end s'"
    using assms unfolding tag_spec_def by blast
  moreover have "cis_buffer s = []" "\<not> (- 1 :: 32 word) < c"
    using assms(2) by (simp_all add: stream_rest_def not_less)
  ultimately show ?thesis
    by (simp add: ReadTagWithCutoff_def Let_def)
qed

text \<open>\<open>ExpectTag\<close> takes a tag of at most 14 bits, or nothing.\<close>

lemma ExpectTag_True:
  assumes "ExpectTag t s = (True, s')"
  shows "stream_rest ahead s = WriteVarint32ToArray (unat t) @ stream_rest ahead s'"
proof (cases "t < 2 ^ 7")
  case True
  then obtain b bs where b: "cis_buffer s = b # bs" "ucast b = t" "s' = Advance 1 s"
    using assms by (auto simp: ExpectTag_def split: list.splits if_splits)
  have "unat t = unat b" "unat t < 128"
    using b(2) True by (auto simp: word_less_nat_alt)
  then have "WriteVarint32ToArray (unat t) = [b]"
    by (simp add: varint_small)
  then show ?thesis
    using b by (simp add: stream_rest_def Advance_def)
next
  case False
  then obtain b0 b1 bs where b: "cis_buffer s = b0 # b1 # bs" "b0 = ucast (t OR 0x80)" "b1 = ucast (drop_bit 7 t)" "s' = Advance 2 s"
    "t < 2 ^ 14"
    using assms by (auto simp: ExpectTag_def split: list.splits if_splits)
  have n: "128 \<le> unat t" "unat t < 16384"
    using False b(5) by (simp_all add: word_less_nat_alt not_less)
  have "b0 = of_nat (unat t) OR 0x80"
    unfolding b(2) by (simp add: unsigned_or_eq)
  moreover have "b1 = of_nat (unat t div 128)"
    unfolding b(3) using of_nat_unat [of "t div 128", where ?'a = byte] by (simp add: drop_bit_eq_div unat_div)
  ultimately have "WriteVarint32ToArray (unat t) = [b0, b1]"
    using n varint_large [of "unat t"] varint_small [of "unat t div 128"] by (simp add: div_less_iff_less_mult)
  then show ?thesis
    using b by (simp add: stream_rest_def Advance_def)
qed

lemma ExpectTag_False: "ExpectTag t s = (False, s') \<Longrightarrow> s' = s"
  by (auto simp: ExpectTag_def split: list.splits if_splits)

section \<open>Writing\<close>

lemma varint_length_le: "n < 128 ^ Suc k \<Longrightarrow> length (WriteVarint32ToArray n) \<le> Suc k"
proof (induction k arbitrary: n)
  case 0
  then show ?case
    by (simp add: varint_small)
next
  case (Suc k)
  show ?case
  proof (cases "n < 128")
    case False
    moreover have "n div 128 < 128 ^ Suc k"
      using Suc.prems by (simp add: div_less_iff_less_mult mult.commute)
    ultimately show ?thesis
      using Suc.IH varint_large [of n] by simp
  qed (simp add: varint_small)
qed

lemma varint32_length: "length (WriteVarint32ToArray (unat (v :: 32 word))) \<le> 5"
  using varint_length_le [of "unat v" 4] unsigned_less [of v, where ?'a = nat] by simp

definition emits :: "('o cos \<Rightarrow> 'o cos option) \<Rightarrow> byte list \<Rightarrow> bool" where
  "emits f bs \<longleftrightarrow> (\<forall>s. 0 \<le> buffer_size s \<longrightarrow> (\<exists>s'. f s = Some s' \<and> written s' = written s @ bs \<and> 0 \<le> buffer_size s'))"

lemma emits_appends: "appends f bs \<Longrightarrow> emits (\<lambda>s. Some (f s)) bs"
  by (simp add: emits_def appends_def)

lemma emits_Nil: "emits Some []"
  by (simp add: emits_def)

lemma emits_bind: "emits f bs \<Longrightarrow> emits g cs \<Longrightarrow> emits (\<lambda>s. Option.bind (f s) g) (bs @ cs)"
  unfolding emits_def by fastforce

text \<open>The fast path never stores behind the end of the buffer, because a 32-bit varint has at most five bytes.\<close>

lemma WriteVarint32_ok: "cos_slow_spec lib \<Longrightarrow> emits (WriteVarint32 lib v) (WriteVarint32ToArray (unat v))"
  using varint32_length [of v] by (auto simp: emits_def WriteVarint32_def store_bytes_def cos_slow_spec_def appends_def)

lemma WriteVarint32SignExtended_ok:
  assumes "cos_slow_spec lib" and "cos_spec alib"
  shows "emits (WriteVarint32SignExtended lib v) (WriteVarint32SignExtendedToArray alib v)"
proof (cases "v <s 0")
  case True
  then have "WriteVarint32SignExtended lib v = (\<lambda>s. Some (WriteVarint64_out lib (scast v) s))"
    by (simp add: WriteVarint32SignExtended_def fun_eq_iff)
  then show ?thesis
    using True assms by (simp add: emits_appends WriteVarint32SignExtendedToArray_def cos_slow_spec_def cos_spec_def)
next
  case False
  then have "WriteVarint32SignExtended lib v = WriteVarint32 lib v"
    by (simp add: WriteVarint32SignExtended_def fun_eq_iff)
  then show ?thesis
    using False WriteVarint32_ok [OF assms(1)] by (simp add: WriteVarint32SignExtendedToArray_def)
qed

lemma VarintSize32_ok: "cos_spec lib \<Longrightarrow> VarintSize32 lib v = int (length (WriteVarint32ToArray (unat v)))"
  by (simp add: VarintSize32_def cos_spec_def varint_small word_less_nat_alt)

section \<open>A stream that is one buffer\<close>

fun parse_varint :: "byte list \<Rightarrow> (nat \<times> byte list) option" where
  "parse_varint [] = None"
| "parse_varint (b # bs) =
     (if b < 0x80 then Some (unat b, bs)
      else map_option (\<lambda>(n, r). (unat b - 128 + 128 * n, r)) (parse_varint bs))"

lemma parse_varint_ok: "parse_varint (WriteVarint32ToArray n @ r) = Some (n, r)"
proof (induction n rule: less_induct)
  case (less n)
  show ?case
  proof (cases "n < 128")
    case True
    then show ?thesis
      by (simp add: varint_small word_less_nat_alt unat_byte_of_nat)
  next
    case False
    then have "parse_varint (WriteVarint32ToArray (n div 128) @ r) = Some (n div 128, r)"
      using less.IH [of "n div 128"] by simp
    then show ?thesis
      using False by (simp add: varint_large word_less_nat_alt unat_or_128)
  qed
qed

definition flat_read :: "(byte list \<Rightarrow> ('v \<times> byte list) option) \<Rightarrow> 'i cis \<Rightarrow> 'v option \<times> 'i cis" where
  "flat_read parse s = (case parse (cis_buffer s) of None \<Rightarrow> (None, s) | Some (v, r) \<Rightarrow> (Some v, s\<lparr>cis_buffer := r\<rparr>))"

definition flat_lib :: "unit cis_lib" where
  "flat_lib =
     \<lparr>ReadVarint32Fallback =
        (\<lambda>_ s. let (v, s) = flat_read parse_varint s in (case v of None \<Rightarrow> (-1, s) | Some n \<Rightarrow> (int (n mod 2 ^ 32), s))),
      ReadVarint64Fallback = flat_read (\<lambda>bs. map_option (map_prod of_nat id) (parse_varint bs)),
      ReadVarintSizeAsIntFallback =
        (\<lambda>s. let (v, s) = flat_read parse_varint s in (case v of None \<Rightarrow> (-1, s) | Some n \<Rightarrow> (if n < 2 ^ 31 then int n else -1, s))),
      ReadLittleEndian32Fallback = flat_read ReadLittleEndian32FromArray,
      ReadLittleEndian64Fallback = flat_read ReadLittleEndian64FromArray,
      ReadTagFallback =
        (\<lambda>_ s. if cis_buffer s = [] then (0, s\<lparr>legitimate_message_end := True\<rparr>)
               else let (v, s) = flat_read parse_varint s in (case v of None \<Rightarrow> (0, s) | Some n \<Rightarrow> (of_nat n, s)))\<rparr>"

lemma flat_spec: "cis_spec flat_lib (\<lambda>_. [])"
  unfolding cis_spec_def
proof (intro conjI)
  show "varint32_spec flat_lib (\<lambda>_. [])"
    by (simp add: varint32_spec_def flat_lib_def flat_read_def stream_rest_def parse_varint_ok)
  show "varint64_spec flat_lib (\<lambda>_. [])"
    by (simp add: varint64_spec_def flat_lib_def flat_read_def stream_rest_def parse_varint_ok)
  show "little_endian_spec flat_lib (\<lambda>_. [])"
    by (simp add: little_endian_spec_def flat_lib_def flat_read_def stream_rest_def ReadLittleEndian32FromArray_def
        ReadLittleEndian64FromArray_def le_word_bytes)
  show "tag_spec flat_lib (\<lambda>_. [])"
  proof -
    have "WriteVarint32ToArray n \<noteq> []" for n
      using varint_head [of n] by auto
    then show ?thesis
      by (simp add: tag_spec_def flat_lib_def flat_read_def stream_rest_def parse_varint_ok)
  qed
qed

section \<open>Properties\<close>

text \<open>
  C25. \<open>ReadTagWithCutoff\<close>, with its fast paths for tags of one and two bytes, reads the same tag as \<open>ReadTag\<close> and leaves the same
  input, however the bytes of the tag are split between the buffer and the stream; its flag says whether the tag is at most
  the cutoff.
\<close>

theorem read_tag_with_cutoff:
  assumes "tag_spec lib ahead" and "0 < n" and "n < 2 ^ 32" and "stream_rest ahead s = WriteVarint32ToArray n @ r"
  shows "\<exists>s' s''. ReadTagWithCutoff lib c s = ((of_nat n, n \<le> unat c), s') \<and> ReadTag lib s = (of_nat n, s'') \<and>
    stream_rest ahead s' = r \<and> stream_rest ahead s'' = r \<and> LastTagWas (of_nat n) s' \<and> LastTagWas (of_nat n) s''"
  using ReadTagWithCutoff_ok [OF assms, of c] ReadTag_ok [OF assms(1,3,4)] by (auto simp: LastTagWas_def)

theorem read_tag_with_cutoff_witness:
  "\<exists>s' s''. ReadTagWithCutoff flat_lib 127 (flat_cis 100 () (WriteVarint32ToArray 136 @ [1])) = ((136, False), s') \<and>
    ReadTag flat_lib (flat_cis 100 () (WriteVarint32ToArray 136 @ [1])) = (136, s'') \<and>
    stream_rest (\<lambda>_. []) s' = [1] \<and> stream_rest (\<lambda>_. []) s'' = [1] \<and> LastTagWas 136 s' \<and> LastTagWas 136 s''"
  using read_tag_with_cutoff [of flat_lib "\<lambda>_. []" 136 "flat_cis 100 () (WriteVarint32ToArray 136 @ [1])" "[1]" 127] flat_spec
  by (simp add: cis_spec_def stream_rest_def flat_cis_def)

end
