(* ===== verification/Repeated_Field.thy ===== *)
theory Repeated_Field
  imports Yfs_Prelude
begin

text \<open>
  The growing array behind the repeated fields of a message, \<open>RepeatedField\<close> of
  \<open>src/yfs/proto/output/google/protobuf/repeated_field.h\<close>: the elements in use are the first \<open>current_size_\<close> ones of an array of
  \<open>total_size_\<close>, which is reallocated at twice its size when it is full. Elements are of a primitive type, \<open>dflt\<close> is
  what \<open>Element()\<close> makes. \<open>None\<close> is an access outside the array or through a null pointer, an overflow of \<open>int\<close>, or a
  condition of \<open>GOOGLE_DCHECK\<close> or \<open>GOOGLE_CHECK\<close> that does not hold. The invariant is kept by every operation, and the operations
  are those of lists: the contract \<open>growing_array\<close>, interpreted on them, gives what its users need.
\<close>

section \<open>The array\<close>

text \<open>\<open>rep_\<close> points to the arena and the elements. An arena is a number.\<close>

record 'a rep =
  rep_arena :: "nat option"
  rep_elements :: "'a list"

record 'a repeated_field =
  current_size :: nat
  total_size :: nat
  rf_rep :: "'a rep option"

definition kMinRepeatedFieldAllocationSize :: nat where "kMinRepeatedFieldAllocationSize = 4"

definition RepeatedField :: "'a repeated_field" where
  "RepeatedField = \<lparr>current_size = 0, total_size = 0, rf_rep = None\<rparr>"

definition RepeatedField_on :: "nat option \<Rightarrow> 'a repeated_field" where
  "RepeatedField_on arena =
     \<lparr>current_size = 0, total_size = 0,
      rf_rep = (case arena of None \<Rightarrow> None | Some _ \<Rightarrow> Some \<lparr>rep_arena = arena, rep_elements = []\<rparr>)\<rparr>"

definition GetArenaNoVirtual :: "'a repeated_field \<Rightarrow> nat option" where
  "GetArenaNoVirtual f = (case rf_rep f of None \<Rightarrow> None | Some r \<Rightarrow> rep_arena r)"

definition rf_empty :: "'a repeated_field \<Rightarrow> bool" where
  "rf_empty f \<longleftrightarrow> current_size f = 0"

definition Capacity :: "'a repeated_field \<Rightarrow> nat" where
  "Capacity f = total_size f"

text \<open>\<open>rep_->elements[i] = v\<close> and \<open>rep_->elements[i]\<close>.\<close>

definition put_element :: "nat \<Rightarrow> 'a \<Rightarrow> 'a repeated_field \<Rightarrow> 'a repeated_field option" where
  "put_element i v f =
     do {
       r \<leftarrow> rf_rep f;
       (if i < length (rep_elements r) then Some (f\<lparr>rf_rep := Some (r\<lparr>rep_elements := (rep_elements r)[i := v]\<rparr>)\<rparr>) else None)
     }"

definition get_element :: "nat \<Rightarrow> 'a repeated_field \<Rightarrow> 'a option" where
  "get_element i f =
     do { r \<leftarrow> rf_rep f; (if i < length (rep_elements r) then Some (rep_elements r ! i) else None) }"

text \<open>
  \<open>total_size_ * 2\<close> is an \<open>int\<close>. The check that the array fits into \<open>size_t\<close> always holds for elements of at most eight bytes and
  an \<open>int\<close> number of them. Moving the old elements needs the old array.
\<close>

definition Reserve :: "'a \<Rightarrow> nat \<Rightarrow> 'a repeated_field \<Rightarrow> 'a repeated_field option" where
  "Reserve dflt new_size f =
     (if new_size \<le> total_size f then Some f
      else if 2 ^ 31 \<le> total_size f * 2 \<or> 2 ^ 31 \<le> new_size then None
      else let arena = GetArenaNoVirtual f;
               new_size = max kMinRepeatedFieldAllocationSize (max (total_size f * 2) new_size);
               fresh = replicate new_size dflt
           in do {
                elements \<leftarrow> (if 0 < current_size f
                             then do { old \<leftarrow> rf_rep f;
                                       (if current_size f \<le> length (rep_elements old)
                                        then Some (take (current_size f) (rep_elements old) @ drop (current_size f) fresh) else None) }
                             else Some fresh);
                Some (f\<lparr>total_size := new_size, rf_rep := Some \<lparr>rep_arena = arena, rep_elements = elements\<rparr>\<rparr>)
              })"

definition AddAlreadyReserved :: "'a \<Rightarrow> 'a repeated_field \<Rightarrow> 'a repeated_field option" where
  "AddAlreadyReserved v f =
     (if current_size f < total_size f
      then do { f' \<leftarrow> put_element (current_size f) v f; Some (f'\<lparr>current_size := current_size f + 1\<rparr>) } else None)"

definition Add :: "'a \<Rightarrow> 'a \<Rightarrow> 'a repeated_field \<Rightarrow> 'a repeated_field option" where
  "Add dflt v f =
     do {
       f \<leftarrow> (if current_size f = total_size f then Reserve dflt (total_size f + 1) f else Some f);
       f' \<leftarrow> put_element (current_size f) v f;
       Some (f'\<lparr>current_size := current_size f + 1\<rparr>)
     }"

definition Resize :: "'a \<Rightarrow> nat \<Rightarrow> 'a \<Rightarrow> 'a repeated_field \<Rightarrow> 'a repeated_field option" where
  "Resize dflt new_size v f =
     do {
       f \<leftarrow> (if current_size f < new_size
             then do { f \<leftarrow> Reserve dflt new_size f; ofold (\<lambda>i. put_element i v) [current_size f..<new_size] f }
             else Some f);
       Some (f\<lparr>current_size := new_size\<rparr>)
     }"

definition Get :: "nat \<Rightarrow> 'a repeated_field \<Rightarrow> 'a option" where
  "Get i f = (if i < current_size f then get_element i f else None)"

definition Set :: "nat \<Rightarrow> 'a \<Rightarrow> 'a repeated_field \<Rightarrow> 'a repeated_field option" where
  "Set i v f = (if i < current_size f then put_element i v f else None)"

definition RemoveLast :: "'a repeated_field \<Rightarrow> 'a repeated_field option" where
  "RemoveLast f = (if 0 < current_size f then Some (f\<lparr>current_size := current_size f - 1\<rparr>) else None)"

definition Truncate :: "nat \<Rightarrow> 'a repeated_field \<Rightarrow> 'a repeated_field option" where
  "Truncate new_size f =
     (if new_size \<le> current_size f then Some (if 0 < current_size f then f\<lparr>current_size := new_size\<rparr> else f) else None)"

text \<open>The elements that are taken out are also the result; the source stores them when it is given an array for them.\<close>

definition ExtractSubrange :: "nat \<Rightarrow> nat \<Rightarrow> 'a repeated_field \<Rightarrow> ('a list \<times> 'a repeated_field) option" where
  "ExtractSubrange start num f =
     (if start + num \<le> current_size f
      then do {
        elements \<leftarrow> ofold (\<lambda>i es. do { e \<leftarrow> Get (i + start) f; Some (es @ [e]) }) [0..<num] [];
        f \<leftarrow> (if 0 < num
              then do {
                g \<leftarrow> ofold (\<lambda>i f. do { e \<leftarrow> Get i f; Set (i - num) e f }) [start + num..<current_size f] f;
                Truncate (current_size g - num) g
              }
              else Some f);
        Some (elements, f)
      }
      else None)"

definition Clear :: "'a repeated_field \<Rightarrow> 'a repeated_field" where
  "Clear f = f\<lparr>current_size := 0\<rparr>"

text \<open>Merging and copying of two different fields; \<open>CopyArray\<close> copies element by element.\<close>

definition MergeFrom :: "'a \<Rightarrow> 'a repeated_field \<Rightarrow> 'a repeated_field \<Rightarrow> 'a repeated_field option" where
  "MergeFrom dflt other f =
     (if current_size other \<noteq> 0
      then do {
        f \<leftarrow> (if 2 ^ 31 \<le> current_size f + current_size other then None
              else Reserve dflt (current_size f + current_size other) f);
        f \<leftarrow> ofold (\<lambda>i g. do { e \<leftarrow> get_element i other; put_element (current_size f + i) e g }) [0..<current_size other] f;
        Some (f\<lparr>current_size := current_size f + current_size other\<rparr>)
      }
      else Some f)"

definition CopyFrom :: "'a \<Rightarrow> 'a repeated_field \<Rightarrow> 'a repeated_field \<Rightarrow> 'a repeated_field option" where
  "CopyFrom dflt other f = MergeFrom dflt other (Clear f)"

definition SwapElements :: "nat \<Rightarrow> nat \<Rightarrow> 'a repeated_field \<Rightarrow> 'a repeated_field option" where
  "SwapElements index1 index2 f =
     do { a \<leftarrow> get_element index1 f; b \<leftarrow> get_element index2 f; f \<leftarrow> put_element index1 b f; put_element index2 a f }"

text \<open>Swapping two different fields: the new \<open>this\<close> and the new \<open>other\<close>.\<close>

definition UnsafeArenaSwap :: "'a repeated_field \<Rightarrow> 'a repeated_field \<Rightarrow> ('a repeated_field \<times> 'a repeated_field) option" where
  "UnsafeArenaSwap f other = (if GetArenaNoVirtual f = GetArenaNoVirtual other then Some (other, f) else None)"

definition Swap :: "'a \<Rightarrow> 'a repeated_field \<Rightarrow> 'a repeated_field \<Rightarrow> ('a repeated_field \<times> 'a repeated_field) option" where
  "Swap dflt f other =
     (if GetArenaNoVirtual f = GetArenaNoVirtual other then Some (other, f)
      else do {
        temp \<leftarrow> MergeFrom dflt f (RepeatedField_on (GetArenaNoVirtual other));
        f \<leftarrow> CopyFrom dflt other f;
        (other, temp) \<leftarrow> UnsafeArenaSwap other temp;
        Some (f, other)
      })"

text \<open>The constructor from a range whose length is known, and \<open>erase\<close> of the range from \<open>first\<close> to \<open>last\<close>, which moves the rest down.\<close>

definition RepeatedField_of :: "'a \<Rightarrow> 'a list \<Rightarrow> 'a repeated_field option" where
  "RepeatedField_of dflt xs =
     do { f \<leftarrow> (if 2 ^ 31 \<le> length xs then None else Reserve dflt (length xs) RepeatedField); ofold AddAlreadyReserved xs f }"

definition rf_erase :: "nat \<Rightarrow> nat \<Rightarrow> 'a repeated_field \<Rightarrow> (nat \<times> 'a repeated_field) option" where
  "rf_erase first_offset last_offset f =
     do {
       f \<leftarrow> (if first_offset \<noteq> last_offset
             then do {
               g \<leftarrow> ofold (\<lambda>i g. do { e \<leftarrow> get_element (last_offset + i) g; put_element (first_offset + i) e g })
                      [0..<current_size f - last_offset] f;
               Truncate (first_offset + (current_size f - last_offset)) g
             }
             else Some f);
       Some (first_offset, f)
     }"

section \<open>The invariant, and the list a field stands for\<close>

definition rf_array :: "'a repeated_field \<Rightarrow> 'a list" where
  "rf_array f = (case rf_rep f of None \<Rightarrow> [] | Some r \<Rightarrow> rep_elements r)"

definition rf_inv :: "'a repeated_field \<Rightarrow> bool" where
  "rf_inv f \<longleftrightarrow> current_size f \<le> total_size f \<and> total_size f < 2 ^ 31 \<and> length (rf_array f) = total_size f"

definition rf_list :: "'a repeated_field \<Rightarrow> 'a list" where
  "rf_list f = take (current_size f) (rf_array f)"

lemma rf_invD: "rf_inv f \<Longrightarrow> length (rf_array f) = total_size f" "rf_inv f \<Longrightarrow> current_size f \<le> total_size f"
  by (simp_all add: rf_inv_def)

lemma length_rf_list [simp]: "rf_inv f \<Longrightarrow> length (rf_list f) = current_size f"
  by (simp add: rf_list_def rf_inv_def)

lemma RepeatedField_ok: "rf_inv RepeatedField \<and> rf_list RepeatedField = []"
  "rf_inv (RepeatedField_on a) \<and> rf_list (RepeatedField_on a) = [] \<and> current_size (RepeatedField_on a) = 0
    \<and> GetArenaNoVirtual (RepeatedField_on a) = a"
  by (auto simp: rf_inv_def rf_list_def rf_array_def RepeatedField_def RepeatedField_on_def GetArenaNoVirtual_def split: option.split)

text \<open>Only the array and the sizes matter; a size up to the total can be chosen freely.\<close>

lemma rf_resized:
  "rf_inv f \<Longrightarrow> n \<le> total_size f \<Longrightarrow> rf_inv (f\<lparr>current_size := n\<rparr>) \<and> rf_list (f\<lparr>current_size := n\<rparr>) = take n (rf_array f)
     \<and> GetArenaNoVirtual (f\<lparr>current_size := n\<rparr>) = GetArenaNoVirtual f"
  by (simp add: rf_inv_def rf_list_def rf_array_def GetArenaNoVirtual_def)

lemma put_element_ok:
  assumes "rf_inv f" and "i < total_size f"
  obtains f' where "put_element i v f = Some f'" "rf_inv f'" "rf_array f' = (rf_array f)[i := v]" "current_size f' = current_size f"
    "total_size f' = total_size f" "GetArenaNoVirtual f' = GetArenaNoVirtual f"
  using assms by (cases "rf_rep f") (auto simp: put_element_def rf_inv_def rf_array_def GetArenaNoVirtual_def)

lemma get_element_ok: "rf_inv f \<Longrightarrow> i < total_size f \<Longrightarrow> get_element i f = Some (rf_array f ! i)"
  by (cases "rf_rep f") (auto simp: get_element_def rf_inv_def rf_array_def)

lemma Reserve_ok:
  assumes inv: "rf_inv f" and n: "n \<le> 2 ^ 30"
  obtains f' where "Reserve dflt n f = Some f'" "rf_inv f'" "rf_list f' = rf_list f" "current_size f' = current_size f"
    "n \<le> total_size f'" "GetArenaNoVirtual f' = GetArenaNoVirtual f"
proof (cases "n \<le> total_size f")
  case True
  then show ?thesis
    using that [of f] inv by (simp add: Reserve_def)
next
  case False
  let ?n = "max kMinRepeatedFieldAllocationSize (max (total_size f * 2) n)"
  let ?es = "take (current_size f) (rf_array f) @ replicate (?n - current_size f) dflt"
  let ?f = "f\<lparr>total_size := ?n, rf_rep := Some \<lparr>rep_arena = GetArenaNoVirtual f, rep_elements = ?es\<rparr>\<rparr>"
  have small: "\<not> 2 ^ 31 \<le> total_size f * 2" "\<not> 2 ^ 31 \<le> n" "?n < 2 ^ 31" "current_size f \<le> ?n"
    using False n rf_invD(2) [OF inv] by (auto simp: kMinRepeatedFieldAllocationSize_def)
  have "Reserve dflt n f = Some ?f"
    using False small(1,2) inv rf_invD [OF inv]
    by (cases "rf_rep f") (auto simp: Reserve_def Let_def rf_array_def)
  moreover have "rf_inv ?f" "rf_list ?f = rf_list f" "GetArenaNoVirtual ?f = GetArenaNoVirtual f"
    using small(3,4) rf_invD [OF inv] by (simp_all add: rf_inv_def rf_list_def rf_array_def GetArenaNoVirtual_def)
  ultimately show ?thesis
    using that [of ?f] by simp
qed

lemma AddAlreadyReserved_ok:
  assumes "rf_inv f" and "current_size f < total_size f"
  obtains f' where "AddAlreadyReserved v f = Some f'" "rf_inv f'" "rf_list f' = rf_list f @ [v]" "total_size f' = total_size f"
    "current_size f' = current_size f + 1"
proof -
  obtain g where g: "put_element (current_size f) v f = Some g" "rf_inv g" "rf_array g = (rf_array f)[current_size f := v]"
    "current_size g = current_size f" "total_size g = total_size f"
    using put_element_ok [OF assms] by metis
  have "take (Suc (current_size f)) (rf_array g) = rf_list f @ [v]"
    using g(3) assms rf_invD(1) [OF assms(1)] by (simp add: rf_list_def take_Suc_conv_app_nth)
  then show ?thesis
    using that [of "g\<lparr>current_size := current_size f + 1\<rparr>"] g assms rf_resized [of g "current_size f + 1"]
    by (simp add: AddAlreadyReserved_def)
qed

lemma Add_ok:
  assumes inv: "rf_inv f" and small: "current_size f < 2 ^ 30"
  obtains f' where "Add dflt v f = Some f'" "rf_inv f'" "rf_list f' = rf_list f @ [v]"
proof -
  obtain g where g: "(if current_size f = total_size f then Reserve dflt (total_size f + 1) f else Some f) = Some g"
    "rf_inv g" "rf_list g = rf_list f" "current_size g = current_size f" "current_size g < total_size g"
  proof (cases "current_size f = total_size f")
    case True
    then show ?thesis
      using Reserve_ok [OF inv, of "total_size f + 1" dflt] small that by (metis Suc_eq_plus1 Suc_leI less_eq_Suc_le)
  next
    case False
    then show ?thesis
      using inv rf_invD(2) [OF inv] that [of f] by simp
  qed
  obtain f' where "AddAlreadyReserved v g = Some f'" "rf_inv f'" "rf_list f' = rf_list g @ [v]"
    using AddAlreadyReserved_ok [OF g(2,5)] by metis
  then show ?thesis
    using that [of f'] g by (simp add: Add_def AddAlreadyReserved_def)
qed

section \<open>Loops over the elements\<close>

text \<open>What a loop that stores \<open>n\<close> elements from \<open>k\<close> on leaves behind: everything but the array stays as it is.\<close>

definition stored :: "'a repeated_field \<Rightarrow> 'a list \<Rightarrow> 'a repeated_field \<Rightarrow> bool" where
  "stored f arr f' \<longleftrightarrow> rf_inv f' \<and> rf_array f' = arr \<and> current_size f' = current_size f \<and> total_size f' = total_size f
     \<and> GetArenaNoVirtual f' = GetArenaNoVirtual f"

lemma stored_refl: "rf_inv f \<Longrightarrow> stored f (rf_array f) f"
  by (simp add: stored_def)

lemma stored_put:
  assumes "stored f arr g" and "i < total_size f"
  shows "\<exists>g'. put_element i v g = Some g' \<and> stored f (arr[i := v]) g'"
proof -
  have "rf_inv g" "i < total_size g"
    using assms by (simp_all add: stored_def)
  from put_element_ok [OF this, of v] show ?thesis
    using assms by (auto simp: stored_def)
qed

lemma list_update_splice:
  "k + n < length xs \<Longrightarrow> length ys = n \<Longrightarrow>
     (take k xs @ ys @ drop (k + n) xs)[k + n := v] = take k xs @ (ys @ [v]) @ drop (k + Suc n) xs"
  by (simp add: list_update_append Cons_nth_drop_Suc [symmetric])

text \<open>
  A loop that stores \<open>value i\<close> at \<open>k + i\<close>, where the value may be read from the array itself as long as the place
  has not been overwritten.
\<close>

lemma store_loop:
  assumes inv: "rf_inv f" and room: "k + n \<le> total_size f"
    and body: "\<And>i g. i < n \<Longrightarrow> stored f (take k (rf_array f) @ map val [0..<i] @ drop (k + i) (rf_array f)) g \<Longrightarrow>
      step i g = put_element (k + i) (val i) g"
  shows "\<exists>g. ofold step [0..<n] f = Some g \<and> stored f (take k (rf_array f) @ map val [0..<n] @ drop (k + n) (rf_array f)) g"
  using room body
proof (induction n)
  case 0
  then show ?case
    using inv by (simp add: stored_refl)
next
  case (Suc n)
  obtain g where g: "ofold step [0..<n] f = Some g"
    "stored f (take k (rf_array f) @ map val [0..<n] @ drop (k + n) (rf_array f)) g"
    using Suc.IH Suc.prems by (metis Suc_leD add_Suc_right less_SucI)
  have len: "k + n < length (rf_array f)"
    using Suc.prems(1) rf_invD(1) [OF inv] by simp
  obtain g' where "put_element (k + n) (val n) g = Some g'"
    "stored f ((take k (rf_array f) @ map val [0..<n] @ drop (k + n) (rf_array f))[k + n := val n]) g'"
    using stored_put [OF g(2), of "k + n" "val n"] Suc.prems(1) by auto
  then show ?case
    using g Suc.prems(2) [of n g] list_update_splice [OF len, of "map val [0..<n]" "val n"] by (simp add: ofold_append)
qed

lemma ofold_shift: "ofold h [a..<a + n] x = ofold (\<lambda>i. h (a + i)) [0..<n] x"
proof (induction n arbitrary: x)
  case (Suc n)
  then show ?case
    by (simp add: ofold_append)
qed simp

lemma fill_loop:
  assumes "rf_inv f" and "k + n \<le> total_size f"
  shows "\<exists>g. ofold (\<lambda>i. put_element i v) [k..<k + n] f = Some g
    \<and> stored f (take k (rf_array f) @ replicate n v @ drop (k + n) (rf_array f)) g"
  using store_loop [OF assms, of "\<lambda>_. v" "\<lambda>i. put_element (k + i) v"] by (simp add: ofold_shift map_replicate_trivial)

lemma nth_loop: "n \<le> length xs \<Longrightarrow> map (\<lambda>i. xs ! i) [0..<n] = take n xs"
  by (rule nth_equalityI) simp_all

lemma copy_loop:
  assumes "rf_inv f" and "rf_inv other" and "k + n \<le> total_size f" and "n \<le> total_size other"
  shows "\<exists>g. ofold (\<lambda>i g. do { e \<leftarrow> get_element i other; put_element (k + i) e g }) [0..<n] f = Some g
    \<and> stored f (take k (rf_array f) @ take n (rf_array other) @ drop (k + n) (rf_array f)) g"
  using store_loop [OF assms(1,3), of "\<lambda>i. rf_array other ! i" "\<lambda>i g. do { e \<leftarrow> get_element i other; put_element (k + i) e g }"]
    assms(4) rf_invD(1) [OF assms(2)]
  by (simp add: get_element_ok [OF assms(2)] nth_loop)

text \<open>Moving elements down, in place.\<close>

lemma slide_loop:
  assumes inv: "rf_inv f" and kl: "k \<le> l" "l + n \<le> total_size f"
    and step: "\<And>i g. i < n \<Longrightarrow> current_size g = current_size f \<Longrightarrow> step i g = do { e \<leftarrow> get_element (l + i) g; put_element (k + i) e g }"
  shows "\<exists>g. ofold step [0..<n] f = Some g
    \<and> stored f (take k (rf_array f) @ take n (drop l (rf_array f)) @ drop (k + n) (rf_array f)) g"
proof -
  let ?v = "\<lambda>i. rf_array f ! (l + i)"
  have len: "length (rf_array f) = total_size f"
    by (rule rf_invD(1) [OF inv])
  have body: "step i g = put_element (k + i) (?v i) g"
    if "i < n" "stored f (take k (rf_array f) @ map ?v [0..<i] @ drop (k + i) (rf_array f)) g" for i g
  proof -
    have "rf_inv g" "total_size g = total_size f" "rf_array g = take k (rf_array f) @ map ?v [0..<i] @ drop (k + i) (rf_array f)"
      using that(2) by (simp_all add: stored_def)
    moreover have "current_size g = current_size f"
      using that(2) by (simp add: stored_def)
    moreover have "(take k (rf_array f) @ map ?v [0..<i] @ drop (k + i) (rf_array f)) ! (l + i) = ?v i"
      using that(1) kl len by (auto simp: nth_append add.commute)
    ultimately show ?thesis
      using that(1) kl by (simp add: step get_element_ok)
  qed
  have "map ?v [0..<n] = take n (drop l (rf_array f))"
    using kl len by (intro nth_equalityI) simp_all
  then show ?thesis
    using store_loop [of f k n ?v step, OF inv _ body] kl by simp
qed

section \<open>Operations on lists\<close>

lemma stored_list: "stored f arr f' \<Longrightarrow> n \<le> total_size f \<Longrightarrow> rf_inv (f'\<lparr>current_size := n\<rparr>) \<and> rf_list (f'\<lparr>current_size := n\<rparr>) = take n arr"
  using rf_resized [of f' n] by (simp add: stored_def)

lemma rf_take: "rf_inv f \<Longrightarrow> n \<le> current_size f \<Longrightarrow> take n (rf_array f) = take n (rf_list f)"
  by (simp add: rf_list_def min_def)

lemma Resize_ok:
  assumes inv: "rf_inv f" and n: "n \<le> 2 ^ 30"
  obtains f' where "Resize dflt n v f = Some f'" "rf_inv f'" "rf_list f' = take n (rf_list f) @ replicate (n - current_size f) v"
proof (cases "current_size f < n")
  case True
  obtain g where g: "Reserve dflt n f = Some g" "rf_inv g" "rf_list g = rf_list f" "current_size g = current_size f" "n \<le> total_size g"
    using Reserve_ok [OF inv n, of dflt] by metis
  let ?k = "current_size f"
  obtain h where h: "ofold (\<lambda>i. put_element i v) [?k..<?k + (n - ?k)] g = Some h"
    "stored g (take ?k (rf_array g) @ replicate (n - ?k) v @ drop (?k + (n - ?k)) (rf_array g)) h"
    using fill_loop [OF g(2), of ?k "n - ?k" v] g(5) True by auto
  have "take n (take ?k (rf_array g) @ replicate (n - ?k) v @ drop (?k + (n - ?k)) (rf_array g)) = rf_list f @ replicate (n - ?k) v"
    using g rf_invD [OF g(2)] rf_invD [OF inv] True by (simp add: rf_list_def)
  then show ?thesis
    using that [of "h\<lparr>current_size := n\<rparr>"] stored_list [OF h(2) g(5)] g h(1) True inv by (simp add: Resize_def)
next
  case False
  then show ?thesis
    using that [of "f\<lparr>current_size := n\<rparr>"] rf_resized [OF inv, of n] rf_invD(2) [OF inv] rf_take [OF inv, of n] by (simp add: Resize_def)
qed

lemma Get_ok: "rf_inv f \<Longrightarrow> Get i f = (if i < length (rf_list f) then Some (rf_list f ! i) else None)"
  using rf_invD [of f] by (simp add: Get_def get_element_ok rf_list_def)

lemma Set_ok:
  assumes "rf_inv f" and "i < current_size f"
  obtains f' where "Set i v f = Some f'" "rf_inv f'" "rf_list f' = (rf_list f)[i := v]"
proof -
  obtain f' where "put_element i v f = Some f'" "stored f ((rf_array f)[i := v]) f'"
    using stored_put [OF stored_refl [OF assms(1)], of i v] assms rf_invD(2) [OF assms(1)] by auto
  then show ?thesis
    using that [of f'] assms(2) by (simp add: Set_def stored_def rf_list_def take_update_swap)
qed

lemma Truncate_ok:
  assumes "rf_inv f" and "n \<le> current_size f"
  obtains f' where "Truncate n f = Some f'" "rf_inv f'" "rf_list f' = take n (rf_list f)"
proof (cases "current_size f = 0")
  case True
  then show ?thesis
    using that [of f] assms by (simp add: Truncate_def rf_list_def)
next
  case False
  then show ?thesis
    using that [of "f\<lparr>current_size := n\<rparr>"] assms rf_resized [OF assms(1), of n] rf_invD(2) [OF assms(1)] rf_take [OF assms]
    by (simp add: Truncate_def)
qed

lemma MergeFrom_ok:
  assumes inv: "rf_inv f" and other: "rf_inv other" and n: "current_size f + current_size other \<le> 2 ^ 30"
  obtains f' where "MergeFrom dflt other f = Some f'" "rf_inv f'" "rf_list f' = rf_list f @ rf_list other"
    "GetArenaNoVirtual f' = GetArenaNoVirtual f"
proof (cases "current_size other = 0")
  case True
  then show ?thesis
    using that [of f] inv other by (simp add: MergeFrom_def rf_list_def)
next
  case False
  let ?k = "current_size f" and ?n = "current_size other"
  obtain g where g: "Reserve dflt (?k + ?n) f = Some g" "rf_inv g" "rf_list g = rf_list f" "current_size g = ?k" "?k + ?n \<le> total_size g"
    "GetArenaNoVirtual g = GetArenaNoVirtual f"
    using Reserve_ok [OF inv n, of dflt] by metis
  let ?a = "take ?k (rf_array g) @ take ?n (rf_array other) @ drop (?k + ?n) (rf_array g)"
  obtain h where h: "ofold (\<lambda>i g. do { e \<leftarrow> get_element i other; put_element (?k + i) e g }) [0..<?n] g = Some h" "stored g ?a h"
    using copy_loop [OF g(2) other g(5) rf_invD(2) [OF other]] by blast
  have "take (?k + ?n) ?a = rf_list f @ rf_list other"
    using g rf_invD [OF g(2)] rf_invD [OF inv] rf_invD [OF other] by (simp add: rf_list_def)
  moreover have "GetArenaNoVirtual (h\<lparr>current_size := ?k + ?n\<rparr>) = GetArenaNoVirtual f"
    using h(2) g(6) by (simp add: stored_def GetArenaNoVirtual_def)
  moreover have "MergeFrom dflt other f = Some (h\<lparr>current_size := ?k + ?n\<rparr>)"
    using False n g(1,4) h by (simp add: MergeFrom_def stored_def)
  ultimately show ?thesis
    using that stored_list [OF h(2) g(5)] by simp
qed

lemma CopyFrom_ok:
  assumes "rf_inv f" and "rf_inv other" and "current_size other \<le> 2 ^ 30"
  obtains f' where "CopyFrom dflt other f = Some f'" "rf_inv f'" "rf_list f' = rf_list other" "GetArenaNoVirtual f' = GetArenaNoVirtual f"
proof -
  have "rf_inv (Clear f)" "rf_list (Clear f) = []" "current_size (Clear f) = 0" "GetArenaNoVirtual (Clear f) = GetArenaNoVirtual f"
    using rf_resized [OF assms(1), of 0] by (simp_all add: Clear_def)
  then show ?thesis
    using that MergeFrom_ok [of "Clear f" other dflt] assms(2,3) by (simp add: CopyFrom_def) metis
qed

text \<open>Fields on different arenas are exchanged by copying, with the same result.\<close>

lemma Swap_ok:
  assumes "rf_inv f" and "rf_inv other" and "current_size f \<le> 2 ^ 30" and "current_size other \<le> 2 ^ 30"
  shows "\<exists>f' other'. Swap dflt f other = Some (f', other') \<and> rf_inv f' \<and> rf_inv other' \<and> rf_list f' = rf_list other \<and> rf_list other' = rf_list f"
proof (cases "GetArenaNoVirtual f = GetArenaNoVirtual other")
  case True
  then show ?thesis
    using assms by (simp add: Swap_def)
next
  case False
  let ?new = "RepeatedField_on (GetArenaNoVirtual other)"
  obtain temp where temp: "MergeFrom dflt f ?new = Some temp" "rf_inv temp" "rf_list temp = rf_list f" "GetArenaNoVirtual temp = GetArenaNoVirtual other"
    using MergeFrom_ok [of ?new f dflt] RepeatedField_ok(2) [of "GetArenaNoVirtual other"] assms(1,3) by (metis add_0 append_Nil)
  obtain f' where "CopyFrom dflt other f = Some f'" "rf_inv f'" "rf_list f' = rf_list other"
    using CopyFrom_ok [OF assms(1,2,4), of dflt] by metis
  then show ?thesis
    using False temp assms(2) by (simp add: Swap_def UnsafeArenaSwap_def)
qed

lemma ExtractSubrange_ok:
  assumes inv: "rf_inv f" and r: "start + num \<le> current_size f"
  obtains f' where "ExtractSubrange start num f = Some (take num (drop start (rf_list f)), f')" "rf_inv f'"
    "rf_list f' = take start (rf_list f) @ drop (start + num) (rf_list f)"
proof -
  have "ofold (\<lambda>i es. do { e \<leftarrow> Get (i + start) f; Some (es @ [e]) }) [0..<n] [] = Some (take n (drop start (rf_list f)))" if "n \<le> num" for n
    using that
  proof (induction n)
    case (Suc n)
    then show ?case
      using Get_ok [OF inv, of "n + start"] r inv by (simp add: ofold_append take_Suc_conv_app_nth add.commute)
  qed simp
  from this [of num] have es: "ofold (\<lambda>i es. do { e \<leftarrow> Get (i + start) f; Some (es @ [e]) }) [0..<num] [] = Some (take num (drop start (rf_list f)))"
    by simp
  show ?thesis
  proof (cases "num = 0")
    case True
    then show ?thesis
      using that [of f] inv r es by (simp add: ExtractSubrange_def)
  next
    case False
    let ?a = "start + num" and ?n = "current_size f - (start + num)"
    have step: "(do { e \<leftarrow> Get (?a + i) g; Set (?a + i - num) e g }) = do { e \<leftarrow> get_element (?a + i) g; put_element (start + i) e g }"
      if "i < ?n" "current_size g = current_size f" for i g
      using that r by (auto simp: Get_def Set_def)
    let ?arr = "take start (rf_array f) @ take ?n (drop ?a (rf_array f)) @ drop (start + ?n) (rf_array f)"
    obtain g where g: "ofold (\<lambda>i g. do { e \<leftarrow> Get (?a + i) g; Set (?a + i - num) e g }) [0..<?n] f = Some g" "stored f ?arr g"
      using slide_loop [of f start ?a ?n, OF inv _ _ step] r rf_invD(2) [OF inv] by auto
    then have loop: "ofold (\<lambda>i g. do { e \<leftarrow> Get i g; Set (i - num) e g }) [?a..<current_size f] f = Some g"
      using ofold_shift [of "\<lambda>i g. do { e \<leftarrow> Get i g; Set (i - num) e g }" ?a ?n f] r by simp
    have g2: "rf_inv g" "current_size g = current_size f" "current_size f - num \<le> current_size g" "rf_array g = ?arr"
      using g(2) by (simp_all add: stored_def)
    obtain f' where f': "Truncate (current_size f - num) g = Some f'" "rf_inv f'" "rf_list f' = take (current_size f - num) (rf_list g)"
      using Truncate_ok [OF g2(1,3)] by metis
    have "rf_list f' = take start (rf_list f) @ drop ?a (rf_list f)"
      using f'(3) g2 r rf_invD [OF inv] by (simp add: rf_list_def drop_take add.commute)
    then show ?thesis
      using that [of f'] False r es loop g2(2) f'(1,2) by (simp add: ExtractSubrange_def)
  qed
qed

lemma rf_erase_ok:
  assumes inv: "rf_inv f" and r: "first \<le> l" "l \<le> current_size f"
  obtains f' where "rf_erase first l f = Some (first, f')" "rf_inv f'" "rf_list f' = take first (rf_list f) @ drop l (rf_list f)"
proof (cases "first = l")
  case True
  then show ?thesis
    using that [of f] inv by (simp add: rf_erase_def)
next
  case False
  let ?n = "current_size f - l"
  let ?arr = "take first (rf_array f) @ take ?n (drop l (rf_array f)) @ drop (first + ?n) (rf_array f)"
  obtain g where g: "ofold (\<lambda>i g. do { e \<leftarrow> get_element (l + i) g; put_element (first + i) e g }) [0..<?n] f = Some g" "stored f ?arr g"
    using slide_loop [of f first l ?n, OF inv r(1) _ refl] r rf_invD(2) [OF inv] by auto
  have g2: "rf_inv g" "first + ?n \<le> current_size g" "rf_array g = ?arr" "current_size g = current_size f"
    using g(2) r by (simp_all add: stored_def)
  obtain f' where f': "Truncate (first + ?n) g = Some f'" "rf_inv f'" "rf_list f' = take (first + ?n) (rf_list g)"
    using Truncate_ok [OF g2(1,2)] by metis
  have "rf_list f' = take first (rf_list f) @ drop l (rf_list f)"
    using f'(3) g2 r rf_invD [OF inv] by (simp add: rf_list_def drop_take)
  then show ?thesis
    using that [of f'] False g(1) f'(1,2) by (simp add: rf_erase_def)
qed

lemma SwapElements_ok:
  assumes inv: "rf_inv f" and ij: "i < current_size f" "j < current_size f"
  obtains f' where "SwapElements i j f = Some f'" "rf_inv f'" "rf_list f' = (rf_list f)[i := rf_list f ! j, j := rf_list f ! i]"
proof -
  have t: "i < total_size f" "j < total_size f"
    using ij rf_invD(2) [OF inv] by simp_all
  obtain g where g: "put_element i (rf_array f ! j) f = Some g" "stored f ((rf_array f)[i := rf_array f ! j]) g"
    using stored_put [OF stored_refl [OF inv] t(1)] by blast
  obtain f' where f': "put_element j (rf_array f ! i) g = Some f'" "stored f ((rf_array f)[i := rf_array f ! j, j := rf_array f ! i]) f'"
    using stored_put [OF g(2) t(2)] by blast
  show ?thesis
    using that [of f'] g(1) f' ij by (simp add: SwapElements_def get_element_ok [OF inv] t stored_def rf_list_def take_update_swap)
qed

section \<open>The contract\<close>

text \<open>What users of a growing array rely on; \<open>bound\<close> is the number of elements that it can surely hold.\<close>

locale growing_array =
  fixes inv :: "'f \<Rightarrow> bool" and elems :: "'f \<Rightarrow> 'a list" and add :: "'a \<Rightarrow> 'f \<Rightarrow> 'f option" and get :: "nat \<Rightarrow> 'f \<Rightarrow> 'a option"
    and bound :: nat
  assumes add: "inv f \<Longrightarrow> length (elems f) < bound \<Longrightarrow> \<exists>f'. add v f = Some f' \<and> inv f' \<and> elems f' = elems f @ [v]"
    and get: "inv f \<Longrightarrow> i < length (elems f) \<Longrightarrow> get i f = Some (elems f ! i)"
begin

text \<open>Adding one element after the other.\<close>

lemma add_all:
  "inv f \<Longrightarrow> length (elems f) + length xs \<le> bound \<Longrightarrow> \<exists>f'. ofold add xs f = Some f' \<and> inv f' \<and> elems f' = elems f @ xs"
proof (induction xs arbitrary: f)
  case (Cons x xs)
  then obtain g where "add x f = Some g" "inv g" "elems g = elems f @ [x]"
    using add [of f x] by auto
  then show ?case
    using Cons.IH [of g] Cons.prems(2) by auto
qed simp

text \<open>A loop over all indices that appends something for each element.\<close>

lemma get_all:
  assumes "inv f"
  shows "n \<le> length (elems f) \<Longrightarrow>
    ofold (\<lambda>i out. do { x \<leftarrow> get i f; Some (out @ h x) }) [0..<n] out = Some (out @ concat (map h (take n (elems f))))"
proof (induction n)
  case (Suc n)
  then show ?case
    using get [OF assms, of n] by (simp add: ofold_append take_Suc_conv_app_nth)
qed simp

end

interpretation rf: growing_array rf_inv rf_list "Add dflt" Get "2 ^ 30" for dflt :: 'a
proof unfold_locales
  fix f :: "'a repeated_field" and v :: 'a
  assume "rf_inv f" and "length (rf_list f) < 2 ^ 30"
  then show "\<exists>f'. Add dflt v f = Some f' \<and> rf_inv f' \<and> rf_list f' = rf_list f @ [v]"
    using Add_ok [of f dflt v] by auto
qed (simp add: Get_ok)

lemma RepeatedField_of_ok:
  assumes "length xs \<le> 2 ^ 30"
  obtains f where "RepeatedField_of dflt xs = Some f" "rf_inv f" "rf_list f = xs"
proof -
  obtain g where g: "Reserve dflt (length xs) RepeatedField = Some g" "rf_inv g" "rf_list g = []" "current_size g = 0" "length xs \<le> total_size g"
    using Reserve_ok [of RepeatedField "length xs" dflt] RepeatedField_ok(1) assms by (metis RepeatedField_def select_convs(1))
  have "rf_inv h \<Longrightarrow> current_size h + length ys \<le> total_size h \<Longrightarrow>
    \<exists>f. ofold AddAlreadyReserved ys h = Some f \<and> rf_inv f \<and> rf_list f = rf_list h @ ys" for ys and h :: "'a repeated_field"
  proof (induction ys arbitrary: h)
    case (Cons y ys)
    then obtain k where "AddAlreadyReserved y h = Some k" "rf_inv k" "rf_list k = rf_list h @ [y]" "total_size k = total_size h"
      "current_size k = current_size h + 1"
      using AddAlreadyReserved_ok [of h y] by auto
    then show ?case
      using Cons.IH [of k] Cons.prems by auto
  qed simp
  from this [of g xs] show ?thesis
    using that g assms by (auto simp: RepeatedField_of_def)
qed

section \<open>Sequences of operations\<close>

datatype 'a rf_op =
  Op_Add 'a
| Op_Set nat 'a
| Op_RemoveLast
| Op_Resize nat 'a
| Op_Truncate nat
| Op_Clear
| Op_ExtractSubrange nat nat
| Op_erase nat nat
| Op_SwapElements nat nat
| Op_MergeFrom "'a list"
| Op_CopyFrom "'a list"

fun rf_run :: "'a \<Rightarrow> 'a rf_op \<Rightarrow> 'a repeated_field \<Rightarrow> 'a repeated_field option" where
  "rf_run d (Op_Add v) f = Add d v f"
| "rf_run d (Op_Set i v) f = Set i v f"
| "rf_run d Op_RemoveLast f = RemoveLast f"
| "rf_run d (Op_Resize n v) f = Resize d n v f"
| "rf_run d (Op_Truncate n) f = Truncate n f"
| "rf_run d Op_Clear f = Some (Clear f)"
| "rf_run d (Op_ExtractSubrange i n) f = map_option snd (ExtractSubrange i n f)"
| "rf_run d (Op_erase i j) f = map_option snd (rf_erase i j f)"
| "rf_run d (Op_SwapElements i j) f = SwapElements i j f"
| "rf_run d (Op_MergeFrom xs) f = do { other \<leftarrow> RepeatedField_of d xs; MergeFrom d other f }"
| "rf_run d (Op_CopyFrom xs) f = do { other \<leftarrow> RepeatedField_of d xs; CopyFrom d other f }"

text \<open>The same on lists; \<open>None\<close> where an index is out of range, or a list would get longer than \<open>2 ^ 30\<close>.\<close>

fun list_run :: "'a rf_op \<Rightarrow> 'a list \<Rightarrow> 'a list option" where
  "list_run (Op_Add v) xs = (if length xs < 2 ^ 30 then Some (xs @ [v]) else None)"
| "list_run (Op_Set i v) xs = (if i < length xs then Some (xs[i := v]) else None)"
| "list_run Op_RemoveLast xs = (if xs \<noteq> [] then Some (butlast xs) else None)"
| "list_run (Op_Resize n v) xs = (if n \<le> 2 ^ 30 then Some (take n xs @ replicate (n - length xs) v) else None)"
| "list_run (Op_Truncate n) xs = (if n \<le> length xs then Some (take n xs) else None)"
| "list_run Op_Clear xs = Some []"
| "list_run (Op_ExtractSubrange i n) xs = (if i + n \<le> length xs then Some (take i xs @ drop (i + n) xs) else None)"
| "list_run (Op_erase i j) xs = (if i \<le> j \<and> j \<le> length xs then Some (take i xs @ drop j xs) else None)"
| "list_run (Op_SwapElements i j) xs = (if i < length xs \<and> j < length xs then Some (xs[i := xs ! j, j := xs ! i]) else None)"
| "list_run (Op_MergeFrom ys) xs = (if length xs + length ys \<le> 2 ^ 30 then Some (xs @ ys) else None)"
| "list_run (Op_CopyFrom ys) xs = (if length ys \<le> 2 ^ 30 then Some ys else None)"

fun_cases list_run_SomeE: "list_run op xs = Some ys"

lemma RemoveLast_ok:
  assumes "rf_inv f" and "0 < current_size f"
  shows "\<exists>f'. RemoveLast f = Some f' \<and> rf_inv f' \<and> rf_list f' = butlast (rf_list f)"
  using rf_resized [OF assms(1), of "current_size f - 1"] assms rf_invD [OF assms(1)]
    rf_take [OF assms(1), of "current_size f - 1"]
  by (simp add: RemoveLast_def butlast_conv_take)

lemma rf_run_simulates:
  assumes inv: "rf_inv f" and l: "list_run op (rf_list f) = Some ys"
  shows "\<exists>f'. rf_run d op f = Some f' \<and> rf_inv f' \<and> rf_list f' = ys"
proof (cases op)
  case (Op_Add v)
  then show ?thesis
    using l inv rf.add [of f d v] by (auto split: if_splits)
next
  case (Op_Set i v)
  then show ?thesis
    using l inv Set_ok [OF inv, of i v] by (auto split: if_splits)
next
  case Op_RemoveLast
  then show ?thesis
    using l RemoveLast_ok [OF inv] length_rf_list [OF inv] by (fastforce split: if_splits)
next
  case (Op_Resize n v)
  then show ?thesis
    using l Resize_ok [OF inv, of n d v] inv by (auto split: if_splits)
next
  case (Op_Truncate n)
  then show ?thesis
    using l Truncate_ok [OF inv, of n] inv by (auto split: if_splits)
next
  case Op_Clear
  then show ?thesis
    using l rf_resized [OF inv, of 0] by (auto simp: Clear_def)
next
  case (Op_ExtractSubrange i n)
  then have "i + n \<le> current_size f" and ys: "ys = take i (rf_list f) @ drop (i + n) (rf_list f)"
    using l inv by (auto split: if_splits)
  then obtain f' where "ExtractSubrange i n f = Some (take n (drop i (rf_list f)), f')" "rf_inv f'" "rf_list f' = ys"
    using ExtractSubrange_ok [OF inv, of i n] by metis
  then show ?thesis
    using Op_ExtractSubrange by simp
next
  case (Op_erase i j)
  then have "i \<le> j" "j \<le> current_size f" and ys: "ys = take i (rf_list f) @ drop j (rf_list f)"
    using l inv by (auto split: if_splits)
  then obtain f' where "rf_erase i j f = Some (i, f')" "rf_inv f'" "rf_list f' = ys"
    using rf_erase_ok [OF inv, of i j] by metis
  then show ?thesis
    using Op_erase by simp
next
  case (Op_SwapElements i j)
  then show ?thesis
    using l SwapElements_ok [OF inv, of i j] inv by (auto split: if_splits)
next
  case (Op_MergeFrom xs)
  then have n: "length (rf_list f) + length xs \<le> 2 ^ 30" "length xs \<le> 2 ^ 30"
    using l by (auto split: if_splits)
  obtain other where "RepeatedField_of d xs = Some other" "rf_inv other" "rf_list other = xs"
    using RepeatedField_of_ok [OF n(2), of d] by metis
  then show ?thesis
    using Op_MergeFrom l n inv MergeFrom_ok [OF inv, of other d] length_rf_list [of other] by auto
next
  case (Op_CopyFrom xs)
  then have n: "length xs \<le> 2 ^ 30"
    using l by (auto split: if_splits)
  obtain other where "RepeatedField_of d xs = Some other" "rf_inv other" "rf_list other = xs"
    using RepeatedField_of_ok [OF n, of d] by metis
  then show ?thesis
    using Op_CopyFrom l n inv CopyFrom_ok [OF inv, of other d] length_rf_list [of other] by auto
qed

text \<open>
  C13. A repeated field is a list: every sequence of operations that is possible on a list is possible on the field, without an access
  outside its array, and leaves a field that stands for the resulting list; growing the array in between does not show.
\<close>

theorem repeated_field_refines_list:
  assumes "rf_inv f" and "ofold list_run ops (rf_list f) = Some ys"
  shows "\<exists>f'. ofold (rf_run d) ops f = Some f' \<and> rf_inv f' \<and> rf_list f' = ys"
  using assms
proof (induction ops arbitrary: f)
  case (Cons op ops)
  then obtain xs where xs: "list_run op (rf_list f) = Some xs" "ofold list_run ops xs = Some ys"
    by (auto split: bind_splits)
  obtain g where "rf_run d op f = Some g" "rf_inv g" "rf_list g = xs"
    using rf_run_simulates [OF Cons.prems(1) xs(1)] by blast
  then show ?case
    using Cons.IH [of g] xs(2) by auto
qed simp

theorem repeated_field_refines_list_witness:
  "\<exists>f'. ofold (rf_run 0) [Op_Add 1, Op_Add 2, Op_MergeFrom [3, 4, 5], Op_ExtractSubrange 1 2, Op_RemoveLast] RepeatedField = Some f'
     \<and> rf_inv f' \<and> rf_list f' = [1 :: nat, 4]"
proof (rule repeated_field_refines_list)
  show "rf_inv (RepeatedField :: nat repeated_field)"
    by (simp add: RepeatedField_ok)
  show "ofold list_run [Op_Add 1, Op_Add 2, Op_MergeFrom [3, 4, 5], Op_ExtractSubrange 1 2, Op_RemoveLast]
      (rf_list (RepeatedField :: nat repeated_field)) = Some [1, 4]"
    by (simp add: RepeatedField_ok del: length_rf_list)
qed

end
