(* ===== verification/Wire_Format.thy ===== *)
theory Wire_Format
  imports Coded_Stream Repeated_Field
begin

text \<open>
  The inline functions of \<open>google/protobuf/wire_format_lite.h\<close> and \<open>wire_format_lite_inl.h\<close> under \<open>src/yfs/proto/output\<close>: tags,
  the transformation of signed integers, and the readers and writers for each type of field, single and repeated. The
  contract \<open>wire_codec\<close> says that a reader takes back what the writer for the same type stored, and that the size that is announced
  is the number of bytes; it is interpreted for every type. Fields of type \<open>float\<close> and \<open>double\<close>, which no
  message of the program has, are left out.
\<close>

section \<open>Tags\<close>

datatype WireType =
  WIRETYPE_VARINT | WIRETYPE_FIXED64 | WIRETYPE_LENGTH_DELIMITED | WIRETYPE_START_GROUP | WIRETYPE_END_GROUP | WIRETYPE_FIXED32

primrec WireType_value :: "WireType \<Rightarrow> 32 word" where
  "WireType_value WIRETYPE_VARINT = 0"
| "WireType_value WIRETYPE_FIXED64 = 1"
| "WireType_value WIRETYPE_LENGTH_DELIMITED = 2"
| "WireType_value WIRETYPE_START_GROUP = 3"
| "WireType_value WIRETYPE_END_GROUP = 4"
| "WireType_value WIRETYPE_FIXED32 = 5"

definition kTagTypeBits :: nat where
  "kTagTypeBits = 3"

definition kTagTypeMask :: "32 word" where
  "kTagTypeMask = push_bit kTagTypeBits 1 - 1"

definition MakeTag :: "32 word \<Rightarrow> WireType \<Rightarrow> 32 word" where
  "MakeTag field_number type = push_bit kTagTypeBits field_number OR WireType_value type"

text \<open>The cast to the enumeration keeps the number, also 6 and 7, which have no name.\<close>

definition GetTagWireType :: "32 word \<Rightarrow> 32 word" where
  "GetTagWireType tag = tag AND kTagTypeMask"

definition GetTagFieldNumber :: "32 word \<Rightarrow> 32 word" where
  "GetTagFieldNumber tag = drop_bit kTagTypeBits tag"

definition TagSize :: "cos_lib \<Rightarrow> 32 word \<Rightarrow> bool \<Rightarrow> int" where
  "TagSize lib field_number is_group =
     (let result = VarintSize32 lib (push_bit kTagTypeBits field_number) in if is_group then result * 2 else result)"

section \<open>Signed integers\<close>

definition ZigZagEncode32 :: "32 word \<Rightarrow> 32 word" where
  "ZigZagEncode32 n = push_bit 1 n XOR signed_drop_bit 31 n"

definition ZigZagDecode32 :: "32 word \<Rightarrow> 32 word" where
  "ZigZagDecode32 n = drop_bit 1 n XOR - (n AND 1)"

definition ZigZagEncode64 :: "64 word \<Rightarrow> 64 word" where
  "ZigZagEncode64 n = push_bit 1 n XOR signed_drop_bit 63 n"

definition ZigZagDecode64 :: "64 word \<Rightarrow> 64 word" where
  "ZigZagDecode64 n = drop_bit 1 n XOR - (n AND 1)"

section \<open>Reading values\<close>

definition read_as :: "('v \<Rightarrow> 'w) \<Rightarrow> 'v option \<times> 'i cis \<Rightarrow> 'w option \<times> 'i cis" where
  "read_as f r = (map_option f (fst r), snd r)"

definition ReadPrimitive_int32 :: "'i cis_lib \<Rightarrow> 'i cis \<Rightarrow> 32 word option \<times> 'i cis" where
  "ReadPrimitive_int32 lib s = ReadVarint32 lib s"

definition ReadPrimitive_int64 :: "'i cis_lib \<Rightarrow> 'i cis \<Rightarrow> 64 word option \<times> 'i cis" where
  "ReadPrimitive_int64 lib s = ReadVarint64 lib s"

definition ReadPrimitive_uint32 :: "'i cis_lib \<Rightarrow> 'i cis \<Rightarrow> 32 word option \<times> 'i cis" where
  "ReadPrimitive_uint32 lib s = ReadVarint32 lib s"

definition ReadPrimitive_uint64 :: "'i cis_lib \<Rightarrow> 'i cis \<Rightarrow> 64 word option \<times> 'i cis" where
  "ReadPrimitive_uint64 lib s = ReadVarint64 lib s"

definition ReadPrimitive_sint32 :: "'i cis_lib \<Rightarrow> 'i cis \<Rightarrow> 32 word option \<times> 'i cis" where
  "ReadPrimitive_sint32 lib s = read_as ZigZagDecode32 (ReadVarint32 lib s)"

definition ReadPrimitive_sint64 :: "'i cis_lib \<Rightarrow> 'i cis \<Rightarrow> 64 word option \<times> 'i cis" where
  "ReadPrimitive_sint64 lib s = read_as ZigZagDecode64 (ReadVarint64 lib s)"

definition ReadPrimitive_fixed32 :: "'i cis_lib \<Rightarrow> 'i cis \<Rightarrow> 32 word option \<times> 'i cis" where
  "ReadPrimitive_fixed32 lib s = ReadLittleEndian32 lib s"

definition ReadPrimitive_fixed64 :: "'i cis_lib \<Rightarrow> 'i cis \<Rightarrow> 64 word option \<times> 'i cis" where
  "ReadPrimitive_fixed64 lib s = ReadLittleEndian64 lib s"

definition ReadPrimitive_sfixed32 :: "'i cis_lib \<Rightarrow> 'i cis \<Rightarrow> 32 word option \<times> 'i cis" where
  "ReadPrimitive_sfixed32 lib s = ReadLittleEndian32 lib s"

definition ReadPrimitive_sfixed64 :: "'i cis_lib \<Rightarrow> 'i cis \<Rightarrow> 64 word option \<times> 'i cis" where
  "ReadPrimitive_sfixed64 lib s = ReadLittleEndian64 lib s"

definition ReadPrimitive_bool :: "'i cis_lib \<Rightarrow> 'i cis \<Rightarrow> bool option \<times> 'i cis" where
  "ReadPrimitive_bool lib s = read_as (\<lambda>temp. temp \<noteq> 0) (ReadVarint64 lib s)"

definition ReadPrimitive_enum :: "'i cis_lib \<Rightarrow> 'i cis \<Rightarrow> 32 word option \<times> 'i cis" where
  "ReadPrimitive_enum lib s = ReadVarint32 lib s"

definition ReadPrimitiveFromArray32 :: "byte list \<Rightarrow> (32 word \<times> byte list) option" where
  "ReadPrimitiveFromArray32 buffer = ReadLittleEndian32FromArray buffer"

definition ReadPrimitiveFromArray64 :: "byte list \<Rightarrow> (64 word \<times> byte list) option" where
  "ReadPrimitiveFromArray64 buffer = ReadLittleEndian64FromArray buffer"

section \<open>Writing values into an array\<close>

definition WriteInt32NoTagToArray :: "cos_lib \<Rightarrow> 32 word \<Rightarrow> byte list" where
  "WriteInt32NoTagToArray lib v = WriteVarint32SignExtendedToArray lib v"

definition WriteInt64NoTagToArray :: "cos_lib \<Rightarrow> 64 word \<Rightarrow> byte list" where
  "WriteInt64NoTagToArray lib v = WriteVarint64ToArray lib v"

definition WriteUInt32NoTagToArray :: "cos_lib \<Rightarrow> 32 word \<Rightarrow> byte list" where
  "WriteUInt32NoTagToArray lib v = WriteVarint32ToArray (unat v)"

definition WriteUInt64NoTagToArray :: "cos_lib \<Rightarrow> 64 word \<Rightarrow> byte list" where
  "WriteUInt64NoTagToArray lib v = WriteVarint64ToArray lib v"

definition WriteSInt32NoTagToArray :: "cos_lib \<Rightarrow> 32 word \<Rightarrow> byte list" where
  "WriteSInt32NoTagToArray lib v = WriteVarint32ToArray (unat (ZigZagEncode32 v))"

definition WriteSInt64NoTagToArray :: "cos_lib \<Rightarrow> 64 word \<Rightarrow> byte list" where
  "WriteSInt64NoTagToArray lib v = WriteVarint64ToArray lib (ZigZagEncode64 v)"

definition WriteFixed32NoTagToArray :: "cos_lib \<Rightarrow> 32 word \<Rightarrow> byte list" where
  "WriteFixed32NoTagToArray lib v = WriteLittleEndian32ToArray v"

definition WriteFixed64NoTagToArray :: "cos_lib \<Rightarrow> 64 word \<Rightarrow> byte list" where
  "WriteFixed64NoTagToArray lib v = WriteLittleEndian64ToArray v"

definition WriteSFixed32NoTagToArray :: "cos_lib \<Rightarrow> 32 word \<Rightarrow> byte list" where
  "WriteSFixed32NoTagToArray lib v = WriteLittleEndian32ToArray v"

definition WriteSFixed64NoTagToArray :: "cos_lib \<Rightarrow> 64 word \<Rightarrow> byte list" where
  "WriteSFixed64NoTagToArray lib v = WriteLittleEndian64ToArray v"

definition WriteBoolNoTagToArray :: "cos_lib \<Rightarrow> bool \<Rightarrow> byte list" where
  "WriteBoolNoTagToArray lib v = WriteVarint32ToArray (if v then 1 else 0)"

definition WriteEnumNoTagToArray :: "cos_lib \<Rightarrow> 32 word \<Rightarrow> byte list" where
  "WriteEnumNoTagToArray lib v = WriteVarint32SignExtendedToArray lib v"

definition WriteTagToArray_field :: "32 word \<Rightarrow> WireType \<Rightarrow> byte list" where
  "WriteTagToArray_field field_number type = WriteTagToArray (MakeTag field_number type)"

definition WriteInt32ToArray :: "cos_lib \<Rightarrow> 32 word \<Rightarrow> 32 word \<Rightarrow> byte list" where
  "WriteInt32ToArray lib fn v = WriteTagToArray_field fn WIRETYPE_VARINT @ WriteInt32NoTagToArray lib v"

definition WriteInt64ToArray :: "cos_lib \<Rightarrow> 32 word \<Rightarrow> 64 word \<Rightarrow> byte list" where
  "WriteInt64ToArray lib fn v = WriteTagToArray_field fn WIRETYPE_VARINT @ WriteInt64NoTagToArray lib v"

definition WriteUInt32ToArray :: "cos_lib \<Rightarrow> 32 word \<Rightarrow> 32 word \<Rightarrow> byte list" where
  "WriteUInt32ToArray lib fn v = WriteTagToArray_field fn WIRETYPE_VARINT @ WriteUInt32NoTagToArray lib v"

definition WriteUInt64ToArray :: "cos_lib \<Rightarrow> 32 word \<Rightarrow> 64 word \<Rightarrow> byte list" where
  "WriteUInt64ToArray lib fn v = WriteTagToArray_field fn WIRETYPE_VARINT @ WriteUInt64NoTagToArray lib v"

definition WriteSInt32ToArray :: "cos_lib \<Rightarrow> 32 word \<Rightarrow> 32 word \<Rightarrow> byte list" where
  "WriteSInt32ToArray lib fn v = WriteTagToArray_field fn WIRETYPE_VARINT @ WriteSInt32NoTagToArray lib v"

definition WriteSInt64ToArray :: "cos_lib \<Rightarrow> 32 word \<Rightarrow> 64 word \<Rightarrow> byte list" where
  "WriteSInt64ToArray lib fn v = WriteTagToArray_field fn WIRETYPE_VARINT @ WriteSInt64NoTagToArray lib v"

definition WriteFixed32ToArray :: "cos_lib \<Rightarrow> 32 word \<Rightarrow> 32 word \<Rightarrow> byte list" where
  "WriteFixed32ToArray lib fn v = WriteTagToArray_field fn WIRETYPE_FIXED32 @ WriteFixed32NoTagToArray lib v"

definition WriteFixed64ToArray :: "cos_lib \<Rightarrow> 32 word \<Rightarrow> 64 word \<Rightarrow> byte list" where
  "WriteFixed64ToArray lib fn v = WriteTagToArray_field fn WIRETYPE_FIXED64 @ WriteFixed64NoTagToArray lib v"

definition WriteSFixed32ToArray :: "cos_lib \<Rightarrow> 32 word \<Rightarrow> 32 word \<Rightarrow> byte list" where
  "WriteSFixed32ToArray lib fn v = WriteTagToArray_field fn WIRETYPE_FIXED32 @ WriteSFixed32NoTagToArray lib v"

definition WriteSFixed64ToArray :: "cos_lib \<Rightarrow> 32 word \<Rightarrow> 64 word \<Rightarrow> byte list" where
  "WriteSFixed64ToArray lib fn v = WriteTagToArray_field fn WIRETYPE_FIXED64 @ WriteSFixed64NoTagToArray lib v"

definition WriteBoolToArray :: "cos_lib \<Rightarrow> 32 word \<Rightarrow> bool \<Rightarrow> byte list" where
  "WriteBoolToArray lib fn v = WriteTagToArray_field fn WIRETYPE_VARINT @ WriteBoolNoTagToArray lib v"

definition WriteEnumToArray :: "cos_lib \<Rightarrow> 32 word \<Rightarrow> 32 word \<Rightarrow> byte list" where
  "WriteEnumToArray lib fn v = WriteTagToArray_field fn WIRETYPE_VARINT @ WriteEnumNoTagToArray lib v"

section \<open>Writing values to a stream\<close>

definition WriteTag_field :: "'o cos_slow \<Rightarrow> 32 word \<Rightarrow> WireType \<Rightarrow> 'o cos \<Rightarrow> 'o cos option" where
  "WriteTag_field lib field_number type = WriteTag lib (MakeTag field_number type)"

definition WriteInt32NoTag :: "'o cos_slow \<Rightarrow> 32 word \<Rightarrow> 'o cos \<Rightarrow> 'o cos option" where
  "WriteInt32NoTag lib v = WriteVarint32SignExtended lib v"

definition WriteInt64NoTag :: "'o cos_slow \<Rightarrow> 64 word \<Rightarrow> 'o cos \<Rightarrow> 'o cos option" where
  "WriteInt64NoTag lib v = (\<lambda>s. Some (WriteVarint64_out lib v s))"

definition WriteUInt32NoTag :: "'o cos_slow \<Rightarrow> 32 word \<Rightarrow> 'o cos \<Rightarrow> 'o cos option" where
  "WriteUInt32NoTag lib v = WriteVarint32 lib v"

definition WriteUInt64NoTag :: "'o cos_slow \<Rightarrow> 64 word \<Rightarrow> 'o cos \<Rightarrow> 'o cos option" where
  "WriteUInt64NoTag lib v = (\<lambda>s. Some (WriteVarint64_out lib v s))"

definition WriteSInt32NoTag :: "'o cos_slow \<Rightarrow> 32 word \<Rightarrow> 'o cos \<Rightarrow> 'o cos option" where
  "WriteSInt32NoTag lib v = WriteVarint32 lib (ZigZagEncode32 v)"

definition WriteSInt64NoTag :: "'o cos_slow \<Rightarrow> 64 word \<Rightarrow> 'o cos \<Rightarrow> 'o cos option" where
  "WriteSInt64NoTag lib v = (\<lambda>s. Some (WriteVarint64_out lib (ZigZagEncode64 v) s))"

definition WriteFixed32NoTag :: "'o cos_slow \<Rightarrow> 32 word \<Rightarrow> 'o cos \<Rightarrow> 'o cos option" where
  "WriteFixed32NoTag lib v = (\<lambda>s. Some (WriteLittleEndian32_out lib v s))"

definition WriteFixed64NoTag :: "'o cos_slow \<Rightarrow> 64 word \<Rightarrow> 'o cos \<Rightarrow> 'o cos option" where
  "WriteFixed64NoTag lib v = (\<lambda>s. Some (WriteLittleEndian64_out lib v s))"

definition WriteSFixed32NoTag :: "'o cos_slow \<Rightarrow> 32 word \<Rightarrow> 'o cos \<Rightarrow> 'o cos option" where
  "WriteSFixed32NoTag lib v = (\<lambda>s. Some (WriteLittleEndian32_out lib v s))"

definition WriteSFixed64NoTag :: "'o cos_slow \<Rightarrow> 64 word \<Rightarrow> 'o cos \<Rightarrow> 'o cos option" where
  "WriteSFixed64NoTag lib v = (\<lambda>s. Some (WriteLittleEndian64_out lib v s))"

definition WriteBoolNoTag :: "'o cos_slow \<Rightarrow> bool \<Rightarrow> 'o cos \<Rightarrow> 'o cos option" where
  "WriteBoolNoTag lib v = WriteVarint32 lib (if v then 1 else 0)"

definition WriteEnumNoTag :: "'o cos_slow \<Rightarrow> 32 word \<Rightarrow> 'o cos \<Rightarrow> 'o cos option" where
  "WriteEnumNoTag lib v = WriteVarint32SignExtended lib v"

section \<open>Sizes\<close>

definition kFixed32Size :: int where
  "kFixed32Size = 4"

definition kFixed64Size :: int where
  "kFixed64Size = 8"

definition kBoolSize :: int where
  "kBoolSize = 1"

definition Int32Size :: "cos_lib \<Rightarrow> 32 word \<Rightarrow> int" where
  "Int32Size lib v = VarintSize32SignExtended lib v"

definition Int64Size :: "cos_lib \<Rightarrow> 64 word \<Rightarrow> int" where
  "Int64Size lib v = VarintSize64 lib v"

definition UInt32Size :: "cos_lib \<Rightarrow> 32 word \<Rightarrow> int" where
  "UInt32Size lib v = VarintSize32 lib v"

definition UInt64Size :: "cos_lib \<Rightarrow> 64 word \<Rightarrow> int" where
  "UInt64Size lib v = VarintSize64 lib v"

definition SInt32Size :: "cos_lib \<Rightarrow> 32 word \<Rightarrow> int" where
  "SInt32Size lib v = VarintSize32 lib (ZigZagEncode32 v)"

definition SInt64Size :: "cos_lib \<Rightarrow> 64 word \<Rightarrow> int" where
  "SInt64Size lib v = VarintSize64 lib (ZigZagEncode64 v)"

definition EnumSize :: "cos_lib \<Rightarrow> 32 word \<Rightarrow> int" where
  "EnumSize lib v = VarintSize32SignExtended lib v"

text \<open>The sum of lengths is computed in \<open>size_t\<close> and cast to \<open>int\<close>; strings are bytes.\<close>

definition StringSize :: "cos_lib \<Rightarrow> byte list \<Rightarrow> int" where
  "StringSize lib v = sint (word_of_int (VarintSize32 lib (of_nat (length v)) + int (length v)) :: 32 word)"

definition LengthDelimitedSize :: "cos_lib \<Rightarrow> 32 word \<Rightarrow> int" where
  "LengthDelimitedSize lib len = VarintSize32 lib len + sint len"

section \<open>Repeated values\<close>

text \<open>
  The templates over the type of the elements: \<open>rd\<close> is \<open>ReadPrimitive\<close>, \<open>rd_array\<close> \<open>ReadPrimitiveFromArray\<close> and \<open>d\<close> the
  element that fresh memory holds. The result is the value that is returned with the field and the stream.
\<close>

primrec read_reserved ::
  "('i cis \<Rightarrow> 'v option \<times> 'i cis) \<Rightarrow> 32 word \<Rightarrow> nat \<Rightarrow> 'i cis \<Rightarrow> 'v repeated_field \<Rightarrow> (bool \<times> 'v repeated_field \<times> 'i cis) option" where
  "read_reserved rd tag 0 s values = Some (True, values, s)"
| "read_reserved rd tag (Suc elements_already_reserved) s values =
     (case ExpectTag tag s of
        (False, s) \<Rightarrow> Some (True, values, s)
      | (True, s) \<Rightarrow>
          (case rd s of
             (None, s) \<Rightarrow> Some (False, values, s)
           | (Some v, s) \<Rightarrow>
               do { values \<leftarrow> AddAlreadyReserved v values; read_reserved rd tag elements_already_reserved s values }))"

definition ReadRepeatedPrimitive ::
  "('i cis \<Rightarrow> 'v option \<times> 'i cis) \<Rightarrow> 'v \<Rightarrow> 32 word \<Rightarrow> 'i cis \<Rightarrow> 'v repeated_field \<Rightarrow> (bool \<times> 'v repeated_field \<times> 'i cis) option" where
  "ReadRepeatedPrimitive rd d tag s values =
     (case rd s of
        (None, s) \<Rightarrow> Some (False, values, s)
      | (Some v, s) \<Rightarrow>
          do { values \<leftarrow> Add d v values; read_reserved rd tag (Capacity values - current_size values) s values })"

text \<open>The loop over the direct buffer, with the number of values that were read.\<close>

primrec read_from_buffer ::
  "(byte list \<Rightarrow> ('v \<times> byte list) option) \<Rightarrow> 32 word \<Rightarrow> nat \<Rightarrow> byte list \<Rightarrow> 'v repeated_field \<Rightarrow> (nat \<times> 'v repeated_field) option" where
  "read_from_buffer rd_array tag 0 buffer values = Some (0, values)"
| "read_from_buffer rd_array tag (Suc k) buffer values =
     do {
       next_buffer \<leftarrow> ExpectTagFromArray buffer tag;
       (case next_buffer of
          None \<Rightarrow> Some (0, values)
        | Some buffer \<Rightarrow>
            do {
              (v, buffer) \<leftarrow> rd_array buffer;
              values \<leftarrow> AddAlreadyReserved v values;
              (num_read, values) \<leftarrow> read_from_buffer rd_array tag k buffer values;
              Some (Suc num_read, values)
            })
     }"

text \<open>\<open>skip\<close> is \<open>CodedInputStream::Skip\<close>, \<open>width\<close> the size of an element; the check of the size of the tag is a \<open>GOOGLE_DCHECK\<close>.\<close>

definition ReadRepeatedFixedSizePrimitive ::
  "cos_lib \<Rightarrow> (nat \<Rightarrow> 'i cis \<Rightarrow> 'i cis) \<Rightarrow> ('i cis \<Rightarrow> 'v option \<times> 'i cis) \<Rightarrow> (byte list \<Rightarrow> ('v \<times> byte list) option) \<Rightarrow> nat \<Rightarrow> 'v
     \<Rightarrow> nat \<Rightarrow> 32 word \<Rightarrow> 'i cis \<Rightarrow> 'v repeated_field \<Rightarrow> (bool \<times> 'v repeated_field \<times> 'i cis) option" where
  "ReadRepeatedFixedSizePrimitive out skip rd rd_array width d tag_size tag s values =
     (if UInt32Size out tag \<noteq> int tag_size then None
      else case rd s of
             (None, s) \<Rightarrow> Some (False, values, s)
           | (Some v, s) \<Rightarrow>
               do {
                 values \<leftarrow> Add d v values;
                 let (buffer, size) = GetDirectBufferPointerInline s;
                 if 0 < size
                 then do {
                   let per_value_size = tag_size + width;
                   let elements_available = min (Capacity values - current_size values) (size div per_value_size);
                   (num_read, values) \<leftarrow> read_from_buffer rd_array tag elements_available buffer values;
                   let read_bytes = num_read * per_value_size;
                   Some (True, values, if 0 < read_bytes then skip read_bytes s else s)
                 }
                 else Some (True, values, s)
               })"

text \<open>
  Packed values, behind the number of their bytes. Limits are of the library; the loop ends when the
  library says that no byte is left before the limit.
\<close>

record 'i limit_lib =
  PushLimit :: "nat \<Rightarrow> 'i cis \<Rightarrow> int \<times> 'i cis"
  PopLimit :: "int \<Rightarrow> 'i cis \<Rightarrow> 'i cis"
  BytesUntilLimit :: "'i cis \<Rightarrow> int"

partial_function (option) read_until_limit ::
  "'i limit_lib \<Rightarrow> ('i cis \<Rightarrow> 'v option \<times> 'i cis) \<Rightarrow> 'v \<Rightarrow> 'i cis \<Rightarrow> 'v repeated_field \<Rightarrow> (bool \<times> 'v repeated_field \<times> 'i cis) option" where
  [code]: "read_until_limit lim rd d s values =
     (if BytesUntilLimit lim s \<le> 0 then Some (True, values, s)
      else case rd s of
             (None, s) \<Rightarrow> Some (False, values, s)
           | (Some v, s) \<Rightarrow> Option.bind (Add d v values) (read_until_limit lim rd d s))"

definition ReadPackedPrimitive ::
  "'i cis_lib \<Rightarrow> 'i limit_lib \<Rightarrow> ('i cis \<Rightarrow> 'v option \<times> 'i cis) \<Rightarrow> 'v \<Rightarrow> 'i cis \<Rightarrow> 'v repeated_field
     \<Rightarrow> (bool \<times> 'v repeated_field \<times> 'i cis) option" where
  "ReadPackedPrimitive lib lim rd d s values =
     (case ReadVarintSizeAsInt lib s of
        (None, s) \<Rightarrow> Some (False, values, s)
      | (Some len, s) \<Rightarrow>
          do {
            let (limit, s) = PushLimit lim len s;
            (ok, values, s) \<leftarrow> read_until_limit lim rd d s values;
            Some (ok, values, if ok then PopLimit lim limit s else s)
          })"

section \<open>Tags are pairs\<close>

lemma kTagTypeMask_eq: "kTagTypeMask = mask 3"
  by (simp add: kTagTypeMask_def kTagTypeBits_def mask_eq_exp_minus_1)

lemma tag_value_bit: "bit (WireType_value t) n \<Longrightarrow> n < 3"
proof -
  have "take_bit 3 (WireType_value t) = WireType_value t"
    by (cases t) simp_all
  then show "bit (WireType_value t) n \<Longrightarrow> n < 3"
    by (metis bit_take_bit_iff)
qed

lemma tag_roundtrip:
  assumes "unat fn < 2 ^ 29"
  shows "GetTagFieldNumber (MakeTag fn t) = fn \<and> GetTagWireType (MakeTag fn t) = WireType_value t"
proof
  have b: "bit fn n \<Longrightarrow> n < 29" for n
    using assms by (metis bit_take_bit_iff take_bit_nat_eq_self_iff unsigned_take_bit_eq word_unat_eq_iff)
  show "GetTagFieldNumber (MakeTag fn t) = fn"
    by (rule bit_word_eqI)
      (use b tag_value_bit [of t] in \<open>auto simp: GetTagFieldNumber_def MakeTag_def kTagTypeBits_def bit_simps\<close>)
  show "GetTagWireType (MakeTag fn t) = WireType_value t"
    by (rule bit_word_eqI)
      (use tag_value_bit [of t] in \<open>auto simp: GetTagWireType_def MakeTag_def kTagTypeMask_eq kTagTypeBits_def bit_simps\<close>)
qed

section \<open>The transformation of signed integers\<close>

lemma sign_word:
  fixes n :: "'a::len word"
  shows "signed_drop_bit (LENGTH('a) - Suc 0) n = (if n <s 0 then - 1 else 0)"
  by (rule bit_word_eqI) (auto simp: bit_signed_drop_bit_iff word_sless_alt bit_last_iff Suc_le_eq)

lemma zigzag_encode:
  fixes n :: "'a::len word"
  shows "push_bit 1 n XOR signed_drop_bit (LENGTH('a) - Suc 0) n = (if n <s 0 then - (2 * n) - 1 else 2 * n)"
  unfolding sign_word by (simp add: not_eq_complement)

lemma zigzag_decode_encode:
  fixes n :: "'a::len word"
  assumes "m = push_bit 1 n XOR signed_drop_bit (LENGTH('a) - Suc 0) n"
  shows "drop_bit 1 m XOR - (m AND 1) = n"
proof -
  have m1: "m AND 1 = (if n <s 0 then 1 else 0)"
    unfolding assms sign_word by (rule bit_word_eqI) (auto simp: bit_simps bit_double_iff mult.commute [of n 2])
  have last: "\<not> Suc i < LENGTH('a) \<Longrightarrow> i < LENGTH('a) \<Longrightarrow> bit n i = (n <s 0)" for i
    using bit_last_iff [of n] by (metis Suc_lessI diff_Suc_Suc diff_zero word_sless_alt signed_0)
  show ?thesis
    by (rule bit_word_eqI)
      (use last in \<open>auto simp: m1, auto simp: assms sign_word bit_simps bit_double_iff mult.commute [of n 2]\<close>)
qed

lemma ZigZag32 [simp]: "ZigZagDecode32 (ZigZagEncode32 n) = n"
  using zigzag_decode_encode [of "ZigZagEncode32 n" n] by (simp add: ZigZagDecode32_def ZigZagEncode32_def)

lemma ZigZag64 [simp]: "ZigZagDecode64 (ZigZagEncode64 n) = n"
  using zigzag_decode_encode [of "ZigZagEncode64 n" n] by (simp add: ZigZagDecode64_def ZigZagEncode64_def)

lemma zigzag_value:
  fixes n :: "'a::len word"
  shows "uint (if n <s 0 then - (2 * n) - 1 else 2 * n) = (if sint n < 0 then - 2 * sint n - 1 else 2 * sint n)"
proof -
  let ?z = "if sint n < 0 then - 2 * sint n - 1 else 2 * sint n"
  have "(if n <s 0 then - (2 * n) - 1 else 2 * n) = of_int ?z"
    by (simp add: word_sless_alt)
  moreover have "- (2 ^ (LENGTH('a) - 1)) \<le> sint n" "sint n < 2 ^ (LENGTH('a) - 1)"
    using sint_greater_eq [of n] sint_less [of n] by auto
  moreover have "(2 :: int) ^ LENGTH('a) = 2 * 2 ^ (LENGTH('a) - 1)"
    by (metis One_nat_def len_gt_0 power_minus_mult mult.commute)
  ultimately show ?thesis
    by (simp add: uint_word_of_int)
qed

text \<open>The table in the comment of \<open>wire_format_lite.h\<close>.\<close>

lemma ZigZagEncode32_value: "uint (ZigZagEncode32 n) = (if sint n < 0 then - 2 * sint n - 1 else 2 * sint n)"
  using zigzag_encode [of n] zigzag_value [of n] by (simp add: ZigZagEncode32_def)

lemma ZigZagEncode64_value: "uint (ZigZagEncode64 n) = (if sint n < 0 then - 2 * sint n - 1 else 2 * sint n)"
  using zigzag_encode [of n] zigzag_value [of n] by (simp add: ZigZagEncode64_def)

section \<open>Values are read back\<close>

locale wire_codec =
  fixes read_val :: "'i cis_lib \<Rightarrow> 'i cis \<Rightarrow> 'v option \<times> 'i cis"
    and write_val :: "cos_lib \<Rightarrow> 'v \<Rightarrow> byte list"
    and size_val :: "cos_lib \<Rightarrow> 'v \<Rightarrow> int"
  assumes read_write: "cis_spec lib ahead \<Longrightarrow> cos_spec out \<Longrightarrow> stream_rest ahead s = write_val out v @ r \<Longrightarrow>
      \<exists>s'. read_val lib s = (Some v, s') \<and> stream_rest ahead s' = r"
    and size_write: "cos_spec out \<Longrightarrow> size_val out v = int (length (write_val out v))"
begin

text \<open>A sequence of values, each behind its tag.\<close>

lemma sizes_write: "cos_spec out \<Longrightarrow> (\<Sum>v\<leftarrow>vs. size_val out v) = int (length (concat (map (write_val out) vs)))"
  by (induction vs) (simp_all add: size_write)

end

lemma scast_nonneg: "\<not> (v :: 32 word) <s 0 \<Longrightarrow> unat (scast v :: 64 word) = unat v"
proof -
  assume "\<not> v <s 0"
  then have "\<not> bit v 31"
    using bit_last_iff [of v] by (simp add: word_sless_alt)
  then have "(scast v :: 64 word) = ucast v"
    by (intro bit_word_eqI) (auto simp: bit_signed_iff bit_unsigned_iff min_def not_le le_less dest: bit_imp_le_length)
  then show ?thesis
    using unsigned_less [of v, where ?'a = nat] by (simp add: unsigned_ucast_eq take_bit_nat_eq_self)
qed

lemma varint_sign_extended:
  assumes "cos_spec out"
  shows "WriteVarint32SignExtendedToArray out v = WriteVarint32ToArray (unat (scast v :: 64 word))"
  using assms by (simp add: WriteVarint32SignExtendedToArray_def cos_spec_def scast_nonneg)

lemma ucast_sign_extended: "(ucast (scast (v :: 32 word) :: 64 word) :: 32 word) = v"
proof (rule bit_word_eqI)
  fix n assume "n < LENGTH(32)"
  then have "n < 31 \<or> n = 31"
    by auto
  then show "bit (ucast (scast v :: 64 word) :: 32 word) n = bit v n"
    by (auto simp: bit_signed_iff bit_unsigned_iff min_def)
qed

lemma varint_length_ge: "128 ^ k \<le> n \<Longrightarrow> Suc k \<le> length (WriteVarint32ToArray n)"
proof (induction k arbitrary: n)
  case 0
  then show ?case
    using varint_head [of n] by auto
next
  case (Suc k)
  moreover have "128 \<le> n"
    using Suc.prems by (meson dual_order.trans one_le_power power_increasing self_le_power zero_less_Suc one_le_numeral)
  moreover have "128 ^ k \<le> n div 128"
    using Suc.prems by (simp add: less_eq_div_iff_mult_less_eq mult.commute)
  ultimately show ?case
    using varint_large [of n] by simp
qed

lemma scast_neg: "(v :: 32 word) <s 0 \<Longrightarrow> 2 ^ 63 \<le> unat (scast v :: 64 word)"
proof -
  assume "v <s 0"
  then have "bit v 31"
    using bit_last_iff [of v] by (simp add: word_sless_alt)
  then have "bit (scast v :: 64 word) 63"
    by (simp add: bit_signed_iff)
  then have "bit (unat (scast v :: 64 word)) 63"
    by (simp add: bit_unsigned_iff)
  then show ?thesis
    by (metis bit_nat_def div_less even_zero not_less odd_iff_mod_2_eq_one)
qed

lemma VarintSize32SignExtended_ok:
  assumes "cos_spec out"
  shows "VarintSize32SignExtended out v = int (length (WriteVarint32SignExtendedToArray out v))"
proof (cases "v <s 0")
  case True
  let ?n = "unat (scast v :: 64 word)"
  have "length (WriteVarint32ToArray ?n) = 10"
    using varint_length_ge [of 9 ?n] varint_length_le [of ?n 9] scast_neg [OF True]
      unsigned_less [of "scast v :: 64 word", where ?'a = nat] by simp
  then show ?thesis
    using True varint_sign_extended [OF assms] by (simp add: VarintSize32SignExtended_def)
next
  case False
  then show ?thesis
    using VarintSize32_ok [OF assms] by (simp add: VarintSize32SignExtended_def WriteVarint32SignExtendedToArray_def)
qed

lemma cis_specD:
  assumes "cis_spec lib ahead"
  shows "varint32_spec lib ahead" "varint64_spec lib ahead" "little_endian_spec lib ahead" "tag_spec lib ahead"
  using assms by (simp_all add: cis_spec_def)

lemma read_varint32:
  assumes "cis_spec lib ahead" and "stream_rest ahead s = WriteVarint32ToArray (unat (v :: 32 word)) @ r"
  shows "\<exists>s'. ReadVarint32 lib s = (Some v, s') \<and> stream_rest ahead s' = r"
  using ReadVarint32_ok [OF cis_specD(1) [OF assms(1)] _ assms(2)] unsigned_less [of v, where ?'a = nat] by auto

lemma read_varint64:
  assumes "cis_spec lib ahead" and "stream_rest ahead s = WriteVarint32ToArray (unat (v :: 64 word)) @ r"
  shows "\<exists>s'. ReadVarint64 lib s = (Some v, s') \<and> stream_rest ahead s' = r"
  using ReadVarint64_ok [OF cis_specD(2) [OF assms(1)] _ assms(2)] unsigned_less [of v, where ?'a = nat] by auto

lemma read_sign_extended:
  assumes "cis_spec lib ahead" and "cos_spec out" and "stream_rest ahead s = WriteVarint32SignExtendedToArray out v @ r"
  shows "\<exists>s'. ReadVarint32 lib s = (Some v, s') \<and> stream_rest ahead s' = r"
proof -
  have "unat (scast v :: 64 word) < 2 ^ 64"
    using unsigned_less [of "scast v :: 64 word", where ?'a = nat] by simp
  then show ?thesis
    using ReadVarint32_ok [OF cis_specD(1) [OF assms(1)] _, of "unat (scast v :: 64 word)" s r] assms(3)
    by (simp add: varint_sign_extended [OF assms(2)] ucast_sign_extended)
qed

lemma cos_specD:
  assumes "cos_spec out"
  shows "WriteVarint64ToArray out v = WriteVarint32ToArray (unat v)" "VarintSize64 out v = int (length (WriteVarint32ToArray (unat v)))"
  using assms by (simp_all add: cos_spec_def)

interpretation int32_codec: wire_codec ReadPrimitive_int32 WriteInt32NoTagToArray Int32Size
  by unfold_locales
    (simp_all add: ReadPrimitive_int32_def WriteInt32NoTagToArray_def Int32Size_def read_sign_extended VarintSize32SignExtended_ok)

interpretation int64_codec: wire_codec ReadPrimitive_int64 WriteInt64NoTagToArray Int64Size
  by unfold_locales (simp_all add: ReadPrimitive_int64_def WriteInt64NoTagToArray_def Int64Size_def read_varint64 cos_specD)

interpretation uint32_codec: wire_codec ReadPrimitive_uint32 WriteUInt32NoTagToArray UInt32Size
  by unfold_locales (simp_all add: ReadPrimitive_uint32_def WriteUInt32NoTagToArray_def UInt32Size_def read_varint32 VarintSize32_ok)

interpretation uint64_codec: wire_codec ReadPrimitive_uint64 WriteUInt64NoTagToArray UInt64Size
  by unfold_locales (simp_all add: ReadPrimitive_uint64_def WriteUInt64NoTagToArray_def UInt64Size_def read_varint64 cos_specD)

interpretation sint32_codec: wire_codec ReadPrimitive_sint32 WriteSInt32NoTagToArray SInt32Size
proof
  fix lib :: "'i cis_lib" and ahead out s v r
  assume "cis_spec lib ahead" "stream_rest ahead s = WriteSInt32NoTagToArray out v @ r"
  then show "\<exists>s'. ReadPrimitive_sint32 lib s = (Some v, s') \<and> stream_rest ahead s' = r"
    using read_varint32 [of lib ahead s "ZigZagEncode32 v" r]
    by (auto simp: ReadPrimitive_sint32_def WriteSInt32NoTagToArray_def read_as_def)
qed (simp add: SInt32Size_def WriteSInt32NoTagToArray_def VarintSize32_ok)

interpretation sint64_codec: wire_codec ReadPrimitive_sint64 WriteSInt64NoTagToArray SInt64Size
proof
  fix lib :: "'i cis_lib" and ahead out s v r
  assume "cis_spec lib ahead" "cos_spec out" "stream_rest ahead s = WriteSInt64NoTagToArray out v @ r"
  then show "\<exists>s'. ReadPrimitive_sint64 lib s = (Some v, s') \<and> stream_rest ahead s' = r"
    using read_varint64 [of lib ahead s "ZigZagEncode64 v" r]
    by (auto simp: ReadPrimitive_sint64_def WriteSInt64NoTagToArray_def read_as_def cos_specD)
qed (simp add: SInt64Size_def WriteSInt64NoTagToArray_def cos_specD)

interpretation bool_codec: wire_codec ReadPrimitive_bool WriteBoolNoTagToArray "\<lambda>_ _. kBoolSize"
proof
  fix lib :: "'i cis_lib" and ahead out s v r
  assume "cis_spec lib ahead" "stream_rest ahead s = WriteBoolNoTagToArray out v @ r"
  then show "\<exists>s'. ReadPrimitive_bool lib s = (Some v, s') \<and> stream_rest ahead s' = r"
    using read_varint64 [of lib ahead s "if v then 1 else 0" r]
    by (auto simp: ReadPrimitive_bool_def WriteBoolNoTagToArray_def read_as_def split: if_splits)
qed (simp add: kBoolSize_def WriteBoolNoTagToArray_def varint_small)

interpretation enum_codec: wire_codec ReadPrimitive_enum WriteEnumNoTagToArray EnumSize
  by unfold_locales
    (simp_all add: ReadPrimitive_enum_def WriteEnumNoTagToArray_def EnumSize_def read_sign_extended VarintSize32SignExtended_ok)

section \<open>A stream is written like an array\<close>

text \<open>Every writer to a stream stores there what its counterpart stores in an array.\<close>

lemma NoTag_emits:
  assumes "cos_slow_spec lib" and "cos_spec out"
  shows
    "emits (WriteInt32NoTag lib v) (WriteInt32NoTagToArray out v)"
    "emits (WriteInt64NoTag lib w) (WriteInt64NoTagToArray out w)"
    "emits (WriteUInt32NoTag lib v) (WriteUInt32NoTagToArray out v)"
    "emits (WriteUInt64NoTag lib w) (WriteUInt64NoTagToArray out w)"
    "emits (WriteSInt32NoTag lib v) (WriteSInt32NoTagToArray out v)"
    "emits (WriteSInt64NoTag lib w) (WriteSInt64NoTagToArray out w)"
    "emits (WriteFixed32NoTag lib v) (WriteFixed32NoTagToArray out v)"
    "emits (WriteFixed64NoTag lib w) (WriteFixed64NoTagToArray out w)"
    "emits (WriteSFixed32NoTag lib v) (WriteSFixed32NoTagToArray out v)"
    "emits (WriteSFixed64NoTag lib w) (WriteSFixed64NoTagToArray out w)"
    "emits (WriteBoolNoTag lib b) (WriteBoolNoTagToArray out b)"
    "emits (WriteEnumNoTag lib v) (WriteEnumNoTagToArray out v)"
  using assms WriteVarint32_ok [OF assms(1)] WriteVarint32SignExtended_ok [OF assms] WriteVarint32_ok [OF assms(1), of 1]
    WriteVarint32_ok [OF assms(1), of 0]
  by (simp_all add: WriteInt32NoTag_def WriteInt32NoTagToArray_def WriteInt64NoTag_def WriteInt64NoTagToArray_def WriteUInt32NoTag_def WriteUInt32NoTagToArray_def WriteUInt64NoTag_def WriteUInt64NoTagToArray_def WriteSInt32NoTag_def WriteSInt32NoTagToArray_def WriteSInt64NoTag_def WriteSInt64NoTagToArray_def WriteFixed32NoTag_def WriteFixed32NoTagToArray_def WriteFixed64NoTag_def WriteFixed64NoTagToArray_def WriteSFixed32NoTag_def WriteSFixed32NoTagToArray_def WriteSFixed64NoTag_def WriteSFixed64NoTagToArray_def WriteBoolNoTag_def WriteBoolNoTagToArray_def WriteEnumNoTag_def WriteEnumNoTagToArray_def
      emits_appends cos_slow_spec_def cos_spec_def)

lemma WriteTag_field_emits: "cos_slow_spec lib \<Longrightarrow> emits (WriteTag_field lib fn t) (WriteTagToArray_field fn t)"
  using WriteVarint32_ok [of lib "MakeTag fn t"] by (simp add: WriteTag_field_def WriteTagToArray_field_def WriteTag_def [abs_def] WriteTagToArray_def)

section \<open>Values of fixed size\<close>

text \<open>Values of fixed size can also be read from an array, and every string of that many bytes is one.\<close>

locale fixed_codec = wire_codec +
  fixes read_array :: "byte list \<Rightarrow> ('v \<times> byte list) option" and width :: nat
  assumes array: "length bs < width \<Longrightarrow> read_array bs = None"
      "width \<le> length bs \<Longrightarrow> \<exists>v. read_array bs = Some (v, drop width bs) \<and> write_val out v = take width bs"
    and width: "length (write_val out v) = width"

lemma le_bytes_le_nat: "le_bytes (length bs) (le_nat bs) = bs"
proof (induction bs)
  case (Cons b bs)
  have "le_nat (b # bs) = unat b + 256 * le_nat bs"
    by (simp add: le_nat_def)
  moreover have "(of_nat (unat b + 256 * le_nat bs) :: byte) = b"
    unfolding word_unat_eq_iff unat_byte_of_nat using unat_byte_less [of b] by simp
  ultimately show ?case
    using Cons unat_byte_less [of b] by simp
qed simp

lemma le_word_of_bytes:
  "length bs = 4 \<Longrightarrow> le_bytes 4 (unat (of_nat (le_nat bs) :: 32 word)) = bs"
  "length bs = 8 \<Longrightarrow> le_bytes 8 (unat (of_nat (le_nat bs) :: 64 word)) = bs"
proof -
  have "le_nat bs < 256 ^ length bs"
    using le_nat_le_bytes [of "length bs" "le_nat bs"] by (simp add: le_bytes_le_nat) (metis mod_less_divisor zero_less_numeral zero_less_power)
  then have "unat (of_nat (le_nat bs) :: 32 word) = le_nat bs" if "length bs = 4"
    using that by (simp add: unat_of_nat take_bit_nat_eq_self)
  moreover have "unat (of_nat (le_nat bs) :: 64 word) = le_nat bs" if "length bs = 8"
    using \<open>le_nat bs < 256 ^ length bs\<close> that by (simp add: unat_of_nat take_bit_nat_eq_self)
  ultimately show
    "length bs = 4 \<Longrightarrow> le_bytes 4 (unat (of_nat (le_nat bs) :: 32 word)) = bs"
    "length bs = 8 \<Longrightarrow> le_bytes 8 (unat (of_nat (le_nat bs) :: 64 word)) = bs"
    using le_bytes_le_nat [of bs] by simp_all
qed

interpretation fixed32_codec: fixed_codec ReadPrimitive_fixed32 WriteFixed32NoTagToArray "\<lambda>_ _. kFixed32Size" ReadPrimitiveFromArray32 4
proof
  fix lib :: "'i cis_lib" and ahead out s v r
  assume "cis_spec lib ahead" "stream_rest ahead s = WriteFixed32NoTagToArray out v @ r"
  then show "\<exists>s'. ReadPrimitive_fixed32 lib s = (Some v, s') \<and> stream_rest ahead s' = r"
    by (simp add: ReadPrimitive_fixed32_def WriteFixed32NoTagToArray_def ReadLittleEndian32_ok cis_specD(3))
qed (simp_all add: kFixed32Size_def WriteFixed32NoTagToArray_def WriteLittleEndian32ToArray_def ReadPrimitiveFromArray32_def
    ReadLittleEndian32FromArray_def le_word_of_bytes)

interpretation sfixed32_codec: fixed_codec ReadPrimitive_sfixed32 WriteSFixed32NoTagToArray "\<lambda>_ _. kFixed32Size" ReadPrimitiveFromArray32 4
proof
  fix lib :: "'i cis_lib" and ahead out s v r
  assume "cis_spec lib ahead" "stream_rest ahead s = WriteSFixed32NoTagToArray out v @ r"
  then show "\<exists>s'. ReadPrimitive_sfixed32 lib s = (Some v, s') \<and> stream_rest ahead s' = r"
    by (simp add: ReadPrimitive_sfixed32_def WriteSFixed32NoTagToArray_def ReadLittleEndian32_ok cis_specD(3))
qed (simp_all add: kFixed32Size_def WriteSFixed32NoTagToArray_def WriteLittleEndian32ToArray_def ReadPrimitiveFromArray32_def
    ReadLittleEndian32FromArray_def le_word_of_bytes)

interpretation fixed64_codec: fixed_codec ReadPrimitive_fixed64 WriteFixed64NoTagToArray "\<lambda>_ _. kFixed64Size" ReadPrimitiveFromArray64 8
proof
  fix lib :: "'i cis_lib" and ahead out s v r
  assume "cis_spec lib ahead" "stream_rest ahead s = WriteFixed64NoTagToArray out v @ r"
  then show "\<exists>s'. ReadPrimitive_fixed64 lib s = (Some v, s') \<and> stream_rest ahead s' = r"
    by (simp add: ReadPrimitive_fixed64_def WriteFixed64NoTagToArray_def ReadLittleEndian64_ok cis_specD(3))
qed (simp_all add: kFixed64Size_def WriteFixed64NoTagToArray_def WriteLittleEndian64ToArray_def ReadPrimitiveFromArray64_def
    ReadLittleEndian64FromArray_def le_word_of_bytes)

interpretation sfixed64_codec: fixed_codec ReadPrimitive_sfixed64 WriteSFixed64NoTagToArray "\<lambda>_ _. kFixed64Size" ReadPrimitiveFromArray64 8
proof
  fix lib :: "'i cis_lib" and ahead out s v r
  assume "cis_spec lib ahead" "stream_rest ahead s = WriteSFixed64NoTagToArray out v @ r"
  then show "\<exists>s'. ReadPrimitive_sfixed64 lib s = (Some v, s') \<and> stream_rest ahead s' = r"
    by (simp add: ReadPrimitive_sfixed64_def WriteSFixed64NoTagToArray_def ReadLittleEndian64_ok cis_specD(3))
qed (simp_all add: kFixed64Size_def WriteSFixed64NoTagToArray_def WriteLittleEndian64ToArray_def ReadPrimitiveFromArray64_def
    ReadLittleEndian64FromArray_def le_word_of_bytes)

section \<open>Repeated fields are read back\<close>

definition tagged_values :: "('v \<Rightarrow> byte list) \<Rightarrow> 32 word \<Rightarrow> 'v list \<Rightarrow> byte list" where
  "tagged_values w tag vs = concat (map (\<lambda>v. WriteTagToArray tag @ w v) vs)"

lemma tagged_values_simps [simp]:
  "tagged_values w tag [] = []" "tagged_values w tag (v # vs) = WriteTagToArray tag @ w v @ tagged_values w tag vs"
  by (simp_all add: tagged_values_def)

lemma WriteTagToArray_nonempty: "0 < length (WriteTagToArray tag)"
  using varint_head [of "unat tag"] by (auto simp: WriteTagToArray_def)

lemma ExpectTag_stream:
  assumes "ExpectTag tag s = (True, s')"
  shows "stream_rest ahead s = WriteTagToArray tag @ stream_rest ahead s'"
  using ExpectTag_True [OF assms] by (simp add: WriteTagToArray_def)

text \<open>Looking for a tag in the direct buffer is \<open>ExpectTag\<close>, without its checks that the bytes are there.\<close>

lemma ExpectTagFromArray_eq:
  assumes "length (WriteTagToArray tag) \<le> length (cis_buffer s)"
  shows "ExpectTagFromArray (cis_buffer s) tag = Some (case ExpectTag tag s of (True, s') \<Rightarrow> Some (cis_buffer s') | (False, _) \<Rightarrow> None)"
proof (cases "cis_buffer s")
  case Nil
  then show ?thesis
    using assms WriteTagToArray_nonempty [of tag] by simp
next
  case (Cons b0 bs)
  show ?thesis
  proof (cases "tag < 2 ^ 7")
    case True
    then show ?thesis
      using Cons by (simp add: ExpectTagFromArray_def ExpectTag_def Advance_def)
  next
    case False
    then have "Suc 1 \<le> length (cis_buffer s)"
      using assms varint_length_ge [of 1 "unat tag"] by (simp add: WriteTagToArray_def word_less_nat_alt)
    then obtain b1 bs' where "bs = b1 # bs'"
      using Cons by (cases bs) auto
    then show ?thesis
      using Cons False by (simp add: ExpectTagFromArray_def ExpectTag_def Advance_def)
  qed
qed

lemma ExpectTagFromArray_ok:
  assumes "length (WriteTagToArray tag) \<le> length buffer"
  shows "\<exists>e. ExpectTagFromArray buffer tag = Some e \<and> (\<forall>b. e = Some b \<longrightarrow> buffer = WriteTagToArray tag @ b)"
proof -
  let ?s = "flat_cis 0 () buffer"
  have b: "cis_buffer ?s = buffer"
    by (simp add: flat_cis_def)
  have "ExpectTag tag ?s = (True, s') \<Longrightarrow> buffer = WriteTagToArray tag @ cis_buffer s'" for s'
    using ExpectTag_stream [of tag ?s s' "\<lambda>_. []"] b by (simp add: stream_rest_def)
  then show ?thesis
    using ExpectTagFromArray_eq [of tag ?s] assms b by (auto split: prod.split bool.split)
qed

definition skip_spec :: "(nat \<Rightarrow> 'i cis \<Rightarrow> 'i cis) \<Rightarrow> ('i \<Rightarrow> byte list) \<Rightarrow> bool" where
  "skip_spec skip ahead \<longleftrightarrow> (\<forall>n s. n \<le> length (cis_buffer s) \<longrightarrow> stream_rest ahead (skip n s) = drop n (stream_rest ahead s))"

lemma room_left: "Suc k \<le> n - m \<Longrightarrow> m < (n :: nat)"
  by simp

context wire_codec
begin

text \<open>The slow path takes as many of the values that follow as there is reserved room for.\<close>

lemma read_reserved_ok:
  assumes "cis_spec lib ahead" and "cos_spec out" and "\<forall>r'. r \<noteq> WriteTagToArray tag @ r'"
  shows "rf_inv f \<Longrightarrow> k \<le> total_size f - current_size f \<Longrightarrow> stream_rest ahead s = tagged_values (write_val out) tag vs @ r \<Longrightarrow>
    \<exists>n f' s'. read_reserved (read_val lib) tag k s f = Some (True, f', s') \<and> rf_inv f' \<and> rf_list f' = rf_list f @ take n vs
      \<and> stream_rest ahead s' = tagged_values (write_val out) tag (drop n vs) @ r"
proof (induction k arbitrary: f s vs)
  case 0
  then show ?case
    by (auto intro!: exI [of _ "0 :: nat"])
next
  case (Suc k)
  show ?case
  proof (cases "ExpectTag tag s")
    case (Pair found s1)
    show ?thesis
    proof (cases found)
      case False
      then have "s1 = s"
        using Pair ExpectTag_False [of tag s s1] by simp
      then show ?thesis
        using False Pair Suc.prems by (auto intro!: exI [of _ "0 :: nat"])
    next
      case True
      then have s1: "stream_rest ahead s = WriteTagToArray tag @ stream_rest ahead s1"
        using Pair ExpectTag_stream [of tag s s1] by simp
      obtain v vs' where vs: "vs = v # vs'"
        using Suc.prems(3) assms(3) s1 by (cases vs) auto
      then have "stream_rest ahead s1 = write_val out v @ tagged_values (write_val out) tag vs' @ r"
        using s1 Suc.prems(3) by simp
      then obtain s2 where s2: "read_val lib s1 = (Some v, s2)" "stream_rest ahead s2 = tagged_values (write_val out) tag vs' @ r"
        using read_write [OF assms(1,2)] by blast
      obtain g where g: "AddAlreadyReserved v f = Some g" "rf_inv g" "rf_list g = rf_list f @ [v]" "total_size g = total_size f"
        "current_size g = current_size f + 1"
        using AddAlreadyReserved_ok [OF Suc.prems(1) room_left [OF Suc.prems(2)]] by metis
      have "k \<le> total_size g - current_size g"
        using g(4,5) Suc.prems(2) by simp
      then obtain n f' s' where "read_reserved (read_val lib) tag k s2 g = Some (True, f', s')" "rf_inv f'" "rf_list f' = rf_list g @ take n vs'"
        "stream_rest ahead s' = tagged_values (write_val out) tag (drop n vs') @ r"
        using Suc.IH [OF g(2) _ s2(2)] by blast
      moreover have "read_reserved (read_val lib) tag (Suc k) s f = read_reserved (read_val lib) tag k s2 g"
        using True Pair s2(1) g(1) by simp
      ultimately show ?thesis
        using g(3) vs by (intro exI [of _ "Suc n"] exI [of _ f'] exI [of _ s']) simp
    qed
  qed
qed

end

context fixed_codec
begin

lemma length_tagged_values: "length (tagged_values (write_val out) tag vs) = length vs * (length (WriteTagToArray tag) + width)"
  by (induction vs) (simp_all add: width)

lemma read_from_buffer_ok:
  "rf_inv f \<Longrightarrow> k \<le> total_size f - current_size f \<Longrightarrow> k * (length (WriteTagToArray tag) + width) \<le> length buffer \<Longrightarrow>
    \<exists>vs f' r. read_from_buffer read_array tag k buffer f = Some (length vs, f') \<and> rf_inv f' \<and> rf_list f' = rf_list f @ vs
      \<and> buffer = tagged_values (write_val out) tag vs @ r"
proof (induction k arbitrary: f buffer)
  case 0
  then show ?case
    by (auto intro!: exI [of _ "[]"])
next
  case (Suc k)
  then obtain e where e: "ExpectTagFromArray buffer tag = Some e" "\<forall>b. e = Some b \<longrightarrow> buffer = WriteTagToArray tag @ b"
    using ExpectTagFromArray_ok [of tag buffer] by auto
  show ?case
  proof (cases e)
    case None
    then show ?thesis
      using e Suc.prems by (auto intro!: exI [of _ "[]"])
  next
    case (Some b)
    then have b: "buffer = WriteTagToArray tag @ b"
      using e(2) by simp
    then have len: "width \<le> length b" "k * (length (WriteTagToArray tag) + width) \<le> length (drop width b)"
      using Suc.prems(3) by auto
    obtain v where v: "read_array b = Some (v, drop width b)" "write_val out v = take width b"
      using array(2) [OF len(1)] by blast
    obtain g where g: "AddAlreadyReserved v f = Some g" "rf_inv g" "rf_list g = rf_list f @ [v]" "total_size g = total_size f"
      "current_size g = current_size f + 1"
      using AddAlreadyReserved_ok [OF Suc.prems(1) room_left [OF Suc.prems(2)]] by metis
    have "k \<le> total_size g - current_size g"
      using g(4,5) Suc.prems(2) by simp
    then obtain vs f' r where "read_from_buffer read_array tag k (drop width b) g = Some (length vs, f')" "rf_inv f'" "rf_list f' = rf_list g @ vs"
      and r: "drop width b = tagged_values (write_val out) tag vs @ r"
      using Suc.IH [OF g(2) _ len(2)] by blast
    moreover have "buffer = tagged_values (write_val out) tag (v # vs) @ r"
      using b v(2) r append_take_drop_id [of width b] by simp
    ultimately show ?thesis
      using e(1) Some v(1) g by (auto intro!: exI [of _ "v # vs"])
  qed
qed

lemma fast_path_ok:
  assumes spec: "cis_spec lib ahead" "cos_spec out" "skip_spec skip ahead" and f: "rf_inv f" "current_size f < 2 ^ 30"
    and ts: "UInt32Size out tag = int tag_size" and s: "stream_rest ahead s = write_val out v @ r"
  shows "\<exists>vs f' s'. ReadRepeatedFixedSizePrimitive out skip (read_val lib) read_array width d tag_size tag s f = Some (True, f', s')
    \<and> rf_inv f' \<and> rf_list f' = rf_list f @ v # vs \<and> r = tagged_values (write_val out) tag vs @ stream_rest ahead s'"
proof -
  obtain s1 where s1: "read_val lib s = (Some v, s1)" "stream_rest ahead s1 = r"
    using read_write [OF spec(1,2) s] by blast
  obtain g where g: "Add d v f = Some g" "rf_inv g" "rf_list g = rf_list f @ [v]"
    using Add_ok [OF f] by metis
  have n: "tag_size = length (WriteTagToArray tag)"
    using ts VarintSize32_ok [OF spec(2), of tag] by (simp add: UInt32Size_def WriteTagToArray_def)
  define k where "k = min (Capacity g - current_size g) (length (cis_buffer s1) div (tag_size + width))"
  have "k * (tag_size + width) \<le> length (cis_buffer s1) div (tag_size + width) * (tag_size + width)"
    by (rule mult_le_mono1) (simp add: k_def)
  then have "k * (length (WriteTagToArray tag) + width) \<le> length (cis_buffer s1)"
    unfolding n using div_times_less_eq_dividend order_trans by blast
  moreover have "k \<le> total_size g - current_size g"
    by (simp add: k_def Capacity_def)
  ultimately obtain vs f' b where vs: "read_from_buffer read_array tag k (cis_buffer s1) g = Some (length vs, f')" "rf_inv f'"
    "rf_list f' = rf_list g @ vs" "cis_buffer s1 = tagged_values (write_val out) tag vs @ b"
    using read_from_buffer_ok [OF g(2)] by blast
  let ?n = "length vs * (tag_size + width)"
  have len: "length (tagged_values (write_val out) tag vs) = ?n"
    by (simp add: length_tagged_values n)
  have r: "r = tagged_values (write_val out) tag vs @ b @ ahead (cis_input s1)"
    using s1(2) vs(4) by (simp add: stream_rest_def)
  have rest: "stream_rest ahead (if 0 < ?n then skip ?n s1 else s1) = b @ ahead (cis_input s1)"
    using spec(3) len vs(4) s1(2) r unfolding skip_spec_def by (cases "0 < ?n") auto
  have "ReadRepeatedFixedSizePrimitive out skip (read_val lib) read_array width d tag_size tag s f
      = Some (True, f', if 0 < ?n then skip ?n s1 else s1)"
  proof (cases "cis_buffer s1 = []")
    case True
    then have "k = 0"
      by (simp add: k_def)
    then show ?thesis
      using True ts s1(1) g(1) vs(1) by (simp add: ReadRepeatedFixedSizePrimitive_def GetDirectBufferPointerInline_def)
  next
    case False
    then show ?thesis
      using ts s1(1) g(1) vs(1) by (simp add: ReadRepeatedFixedSizePrimitive_def GetDirectBufferPointerInline_def k_def Let_def)
  qed
  then show ?thesis
    using vs(2,3) g(3) r rest by auto
qed

end

section \<open>Properties\<close>

text \<open>
  C20. Reading a repeated field of fixed-size values directly from the buffer reads nothing outside the buffer or the
  array of the field, whatever bytes come in; the values it appends are exactly those that the bytes it consumes stand for.
\<close>

theorem repeated_fixed_fast_path:
  assumes "cis_spec lib ahead" and "cos_spec out" and "skip_spec skip ahead" and "rf_inv f" and "current_size f < 2 ^ 30"
    and "UInt32Size out tag = int tag_size" and "stream_rest ahead s = WriteFixed64NoTagToArray out v @ r"
  shows "\<exists>vs f' s'. ReadRepeatedFixedSizePrimitive out skip (ReadPrimitive_fixed64 lib) ReadPrimitiveFromArray64 8 d tag_size tag s f
      = Some (True, f', s')
    \<and> rf_inv f' \<and> rf_list f' = rf_list f @ v # vs
    \<and> r = tagged_values (WriteFixed64NoTagToArray out) tag vs @ stream_rest ahead s'"
  using assms by (rule fixed64_codec.fast_path_ok)

definition flat_out :: cos_lib where
  "flat_out =
     \<lparr>WriteVarint64ToArray = (\<lambda>v. WriteVarint32ToArray (unat v)),
      VarintSize32Fallback = (\<lambda>v. int (length (WriteVarint32ToArray (unat v)))),
      VarintSize64 = (\<lambda>v. int (length (WriteVarint32ToArray (unat v))))\<rparr>"

lemma flat_out_spec: "cos_spec flat_out"
  by (simp add: cos_spec_def flat_out_def)

lemma RepeatedField_empty: "current_size RepeatedField = 0"
  by (simp add: RepeatedField_def)

lemma flat_skip_spec: "skip_spec Advance ahead"
  by (simp add: skip_spec_def stream_rest_Advance)

theorem repeated_fixed_fast_path_witness:
  "\<exists>vs f' s'. ReadRepeatedFixedSizePrimitive flat_out Advance (ReadPrimitive_fixed64 flat_lib) ReadPrimitiveFromArray64 8 0 1 9
       (flat_cis 100 () (WriteFixed64NoTagToArray flat_out 5 @ [9, 1, 2, 3])) RepeatedField = Some (True, f', s')
    \<and> rf_inv f' \<and> rf_list f' = 5 # vs
    \<and> [9, 1, 2, 3] = tagged_values (WriteFixed64NoTagToArray flat_out) 9 vs @ stream_rest (\<lambda>_. []) s'"
  using repeated_fixed_fast_path [OF flat_spec flat_out_spec flat_skip_spec, of RepeatedField 9 1
      "flat_cis 100 () (WriteFixed64NoTagToArray flat_out 5 @ [9, 1, 2, 3])" 5 "[9, 1, 2, 3]" 0]
  by (simp add: UInt32Size_def VarintSize32_def stream_rest_def flat_cis_def RepeatedField_ok RepeatedField_empty)

end
