(* ===== verification/Proto_Message.thy ===== *)
theory Proto_Message
  imports Wire_Format
begin

text \<open>
  What the generated messages have in common. \<open>google/protobuf/metadata.h\<close> stores the arena of a message and, once
  there are any, its unknown fields behind one tagged pointer. The functions \<open>MergePartialFromCodedStream\<close> that \<^verbatim>\<open>protoc\<close> generates
  are loops over tags with jumps between the fields; \<open>parse_loop\<close> is that loop, and the contract \<open>message_parser\<close> says when
  a message that was written field by field is parsed as it was written, however the input is split into buffers.
\<close>

section \<open>Unknown fields\<close>

text \<open>The pointer with its tag; arenas are numbers.\<close>

datatype 'u metadata =
  Arena_ptr "nat option"
| Container 'u "nat option"

text \<open>The class \<open>UnknownFieldSet\<close> and the functions on it are of the library.\<close>

record ('i, 'u) unknown_lib =
  ufs_empty :: 'u
  ufs_Clear :: "'u \<Rightarrow> 'u"
  ufs_MergeFrom :: "'u \<Rightarrow> 'u \<Rightarrow> 'u"
  ufs_AddVarint :: "nat \<Rightarrow> 64 word \<Rightarrow> 'u \<Rightarrow> 'u"
  SkipField :: "'i cis \<Rightarrow> 32 word \<Rightarrow> 'u \<Rightarrow> bool \<times> 'u \<times> 'i cis"
  SerializeUnknownFieldsToArray :: "'u \<Rightarrow> byte list"
  ComputeUnknownFieldsSize :: "'u \<Rightarrow> int"

primrec have_unknown_fields :: "'u metadata \<Rightarrow> bool" where
  "have_unknown_fields (Arena_ptr a) = False"
| "have_unknown_fields (Container u a) = True"

primrec md_arena :: "'u metadata \<Rightarrow> nat option" where
  "md_arena (Arena_ptr a) = a"
| "md_arena (Container u a) = a"

primrec unknown_fields :: "('i, 'u) unknown_lib \<Rightarrow> 'u metadata \<Rightarrow> 'u" where
  "unknown_fields ul (Arena_ptr a) = ufs_empty ul"
| "unknown_fields ul (Container u a) = u"

definition mutable_unknown_fields_slow :: "('i, 'u) unknown_lib \<Rightarrow> 'u metadata \<Rightarrow> 'u metadata" where
  "mutable_unknown_fields_slow ul md = Container (ufs_empty ul) (md_arena md)"

text \<open>A function that is called on the result of \<open>mutable_unknown_fields\<close>.\<close>

definition on_unknown_fields :: "('i, 'u) unknown_lib \<Rightarrow> ('u \<Rightarrow> 'u) \<Rightarrow> 'u metadata \<Rightarrow> 'u metadata" where
  "on_unknown_fields ul f md =
     (case if have_unknown_fields md then md else mutable_unknown_fields_slow ul md of
        Arena_ptr a \<Rightarrow> Arena_ptr a
      | Container u a \<Rightarrow> Container (f u) a)"

definition md_Swap :: "('i, 'u) unknown_lib \<Rightarrow> 'u metadata \<Rightarrow> 'u metadata \<Rightarrow> 'u metadata \<times> 'u metadata" where
  "md_Swap ul md other =
     (if have_unknown_fields md \<or> have_unknown_fields other
      then (on_unknown_fields ul (\<lambda>_. unknown_fields ul other) md, on_unknown_fields ul (\<lambda>_. unknown_fields ul md) other)
      else (md, other))"

definition clear_metadata :: "('i, 'u) unknown_lib \<Rightarrow> 'u metadata \<Rightarrow> 'u metadata" where
  "clear_metadata ul md = (if have_unknown_fields md then on_unknown_fields ul (ufs_Clear ul) md else md)"

definition merge_metadata :: "('i, 'u) unknown_lib \<Rightarrow> 'u metadata \<Rightarrow> 'u metadata \<Rightarrow> 'u metadata" where
  "merge_metadata ul from md =
     (if have_unknown_fields from then on_unknown_fields ul (\<lambda>u. ufs_MergeFrom ul (unknown_fields ul from) u) md else md)"

lemma metadata_laws:
  "unknown_fields ul (on_unknown_fields ul f md) = f (unknown_fields ul md)"
  "md_arena (on_unknown_fields ul f md) = md_arena md"
  "md_Swap ul md other = (md', other') \<Longrightarrow> unknown_fields ul md' = unknown_fields ul other \<and> unknown_fields ul other' = unknown_fields ul md
     \<and> md_arena md' = md_arena md \<and> md_arena other' = md_arena other"
  by (cases md; cases other; auto simp: on_unknown_fields_def mutable_unknown_fields_slow_def md_Swap_def)+

section \<open>Writing fields to a stream\<close>

text \<open>The writers with tags are of the library; the comment in \<open>wire_format_lite.h\<close> is \<open>Write fields, including tags\<close>.\<close>

record ('u, 'o) wf_lib =
  wf_slow :: "'o cos_slow"
  WriteSFixed64 :: "32 word \<Rightarrow> 64 word \<Rightarrow> 'o cos \<Rightarrow> 'o cos"
  WriteSFixed32 :: "32 word \<Rightarrow> 32 word \<Rightarrow> 'o cos \<Rightarrow> 'o cos"
  WriteBool :: "32 word \<Rightarrow> bool \<Rightarrow> 'o cos \<Rightarrow> 'o cos"
  WriteSInt64 :: "32 word \<Rightarrow> 64 word \<Rightarrow> 'o cos \<Rightarrow> 'o cos"
  WriteUInt64 :: "32 word \<Rightarrow> 64 word \<Rightarrow> 'o cos \<Rightarrow> 'o cos"
  WriteEnum :: "32 word \<Rightarrow> 32 word \<Rightarrow> 'o cos \<Rightarrow> 'o cos"
  SerializeUnknownFields :: "'u \<Rightarrow> 'o cos \<Rightarrow> 'o cos"

definition wf_spec :: "cos_lib \<Rightarrow> ('i, 'u) unknown_lib \<Rightarrow> ('u, 'o) wf_lib \<Rightarrow> bool" where
  "wf_spec out ul wr \<longleftrightarrow>
     cos_slow_spec (wf_slow wr) \<and>
     (\<forall>fn v. appends (WriteSFixed64 wr fn v) (WriteSFixed64ToArray out fn v)) \<and>
     (\<forall>fn v. appends (WriteSFixed32 wr fn v) (WriteSFixed32ToArray out fn v)) \<and>
     (\<forall>fn v. appends (WriteBool wr fn v) (WriteBoolToArray out fn v)) \<and>
     (\<forall>fn v. appends (WriteSInt64 wr fn v) (WriteSInt64ToArray out fn v)) \<and>
     (\<forall>fn v. appends (WriteUInt64 wr fn v) (WriteUInt64ToArray out fn v)) \<and>
     (\<forall>fn v. appends (WriteEnum wr fn v) (WriteEnumToArray out fn v)) \<and>
     (\<forall>u. appends (SerializeUnknownFields wr u) (SerializeUnknownFieldsToArray ul u))"

text \<open>\<open>if_set c f\<close> is \<open>if (c) f(output);\<close>\<close>

definition if_set :: "bool \<Rightarrow> ('s \<Rightarrow> 's) \<Rightarrow> 's \<Rightarrow> 's" where
  "if_set c f s = (if c then f s else s)"

lemma appends_when: "appends f bs \<Longrightarrow> appends (if_set c f) (if c then bs else [])"
  by (simp add: appends_def if_set_def)

lemma appends_comp: "appends f bs \<Longrightarrow> appends g cs \<Longrightarrow> appends (\<lambda>s. g (f s)) (bs @ cs)"
  by (simp add: appends_def)

section \<open>The loop over the tags\<close>

text \<open>
  A pass ends the function, with its result, or goes on at a label, or at the top of the loop (\<open>None\<close>). A step is \<open>None\<close> if the code
  crashes, and so is a loop that does not end.
\<close>

type_synonym ('l, 'm, 'i) jump = "(bool \<times> 'm \<times> 'i cis) + ('l option \<times> 'm \<times> 'i cis)"

partial_function (option) parse_loop ::
  "('l option \<Rightarrow> 'm \<Rightarrow> 'i cis \<Rightarrow> ('l, 'm, 'i) jump option) \<Rightarrow> 'l option \<Rightarrow> 'm \<Rightarrow> 'i cis \<Rightarrow> (bool \<times> 'm \<times> 'i cis) option" where
  [code]: "parse_loop step l m s =
     Option.bind (step l m s) (\<lambda>j. case j of Inl r \<Rightarrow> Some r | Inr (l, m, s) \<Rightarrow> parse_loop step l m s)"

text \<open>\<open>DO_\<close>: a reader that fails ends the function with \<open>false\<close>.\<close>

definition DO_read :: "'v option \<times> 'i cis \<Rightarrow> 'm \<Rightarrow> ('v \<Rightarrow> 'i cis \<Rightarrow> ('l, 'm, 'i) jump option) \<Rightarrow> ('l, 'm, 'i) jump option" where
  "DO_read r m k = (case r of (None, s) \<Rightarrow> Some (Inl (False, m, s)) | (Some v, s) \<Rightarrow> k v s)"

text \<open>\<open>if (input->ExpectTag(t)) goto l;\<close> for each pair in turn, then \<open>break\<close>.\<close>

fun expect_tags :: "(32 word \<times> 'l) list \<Rightarrow> 'm \<Rightarrow> 'i cis \<Rightarrow> ('l, 'm, 'i) jump" where
  "expect_tags [] m s = Inr (None, m, s)"
| "expect_tags ((t, l) # ts) m s =
     (case ExpectTag t s of (True, s) \<Rightarrow> Inr (Some l, m, s) | (False, s) \<Rightarrow> expect_tags ts m s)"

text \<open>\<open>if (input->ExpectAtEnd()) goto success;\<close>\<close>

definition expect_end :: "'m \<Rightarrow> 'i cis \<Rightarrow> ('l, 'm, 'i) jump" where
  "expect_end m s = (case ExpectAtEnd s of (True, s) \<Rightarrow> Inl (True, m, s) | (False, s) \<Rightarrow> Inr (None, m, s))"

text \<open>The label \<open>handle_unusual\<close>: \<open>upd\<close> stores the metadata of the message.\<close>

definition handle_unusual ::
  "('i, 'u) unknown_lib \<Rightarrow> ('m \<Rightarrow> 'u metadata) \<Rightarrow> ('u metadata \<Rightarrow> 'm \<Rightarrow> 'm) \<Rightarrow> 32 word \<Rightarrow> 'm \<Rightarrow> 'i cis \<Rightarrow> ('l, 'm, 'i) jump" where
  "handle_unusual ul md upd tag m s =
     (if tag = 0 \<or> GetTagWireType tag = WireType_value WIRETYPE_END_GROUP then Inl (True, m, s)
      else let (ok, u, s) = SkipField ul s tag (unknown_fields ul (md m));
               m = upd (on_unknown_fields ul (\<lambda>_. u) (md m)) m
           in if ok then Inr (None, m, s) else Inl (False, m, s))"

section \<open>When a message is parsed as it was written\<close>

text \<open>
  \<open>after ahead r m j\<close>: a pass has stored its field in \<open>m\<close> and leaves the input \<open>r\<close>, perhaps with the next tag already taken, or it has seen
  the end.
\<close>

definition after ::
  "('l \<Rightarrow> 32 word) \<Rightarrow> ('i \<Rightarrow> byte list) \<Rightarrow> byte list \<Rightarrow> 'm \<Rightarrow> ('l, 'm, 'i) jump \<Rightarrow> bool" where
  "after tag_of ahead r m j \<longleftrightarrow>
     (\<exists>s. j = Inr (None, m, s) \<and> stream_rest ahead s = r) \<or>
     (\<exists>l s. j = Inr (Some l, m, s) \<and> r = WriteTagToArray (tag_of l) @ stream_rest ahead s) \<or>
     (\<exists>s. j = Inl (True, m, s) \<and> stream_rest ahead s = r \<and> legitimate_message_end s)"

lemma after_expect_tags:
  "(\<And>t l. (t, l) \<in> set ts \<Longrightarrow> tag_of l = t) \<Longrightarrow> after tag_of ahead (stream_rest ahead s) m (expect_tags ts m s)"
proof (induction ts)
  case Nil
  then show ?case
    by (simp add: after_def)
next
  case (Cons p ts)
  obtain t l where p: "p = (t, l)"
    by (cases p)
  obtain found s' where e: "ExpectTag t s = (found, s')"
    by (cases "ExpectTag t s")
  show ?case
  proof (cases found)
    case True
    then show ?thesis
      using e p Cons.prems [of t l] ExpectTag_stream [of t s s' ahead] by (simp add: after_def)
  next
    case False
    then have "s' = s"
      using e ExpectTag_False by metis
    then show ?thesis
      using Cons False e p by simp
  qed
qed

lemma isl_expect_tags [simp]: "\<not> isl (expect_tags ts m s)"
  by (induction ts arbitrary: s) (auto split: prod.splits bool.splits)

lemma after_expect_end: "after tag_of ahead (stream_rest ahead s) m (expect_end m s)"
  by (auto simp: after_def expect_end_def ExpectAtEnd_def)

text \<open>The bytes of a sequence of fields, and what they do to a message: \<open>F l m b m'\<close> says that the value \<open>b\<close> of the field \<open>l\<close> makes \<open>m'\<close> out of \<open>m\<close>.\<close>

definition fields_bytes :: "('l \<Rightarrow> 32 word) \<Rightarrow> ('l \<times> byte list) list \<Rightarrow> byte list" where
  "fields_bytes tag_of fs = concat (map (\<lambda>(l, b). WriteTagToArray (tag_of l) @ b) fs)"

lemma fields_bytes_simps [simp]:
  "fields_bytes tag_of [] = []"
  "fields_bytes tag_of ((l, b) # fs) = WriteTagToArray (tag_of l) @ b @ fields_bytes tag_of fs"
  "fields_bytes tag_of (fs @ gs) = fields_bytes tag_of fs @ fields_bytes tag_of gs"
  by (simp_all add: fields_bytes_def)

fun fields_make :: "('l \<Rightarrow> 'm \<Rightarrow> byte list \<Rightarrow> 'm \<Rightarrow> bool) \<Rightarrow> ('l \<times> byte list) list \<Rightarrow> 'm \<Rightarrow> 'm \<Rightarrow> bool" where
  "fields_make F [] m m' \<longleftrightarrow> m' = m"
| "fields_make F ((l, b) # fs) m m' \<longleftrightarrow> (\<exists>m1. F l m b m1 \<and> fields_make F fs m1 m')"

lemma fields_make_append: "fields_make F (fs @ gs) m m' \<longleftrightarrow> (\<exists>m1. fields_make F fs m m1 \<and> fields_make F gs m1 m')"
proof (induction fs arbitrary: m)
  case (Cons p fs)
  then show ?case
    by (cases p) (simp, blast)
qed simp

lemma fields_make_opt:
  "F l m b (f m) \<Longrightarrow> fields_make F gs (if c then f m else m) m' \<Longrightarrow> fields_make F ((if c then [(l, b)] else []) @ gs) m m'"
  by auto

lemma fields_make_opt1: "F l m b (f m) \<Longrightarrow> m' = (if c then f m else m) \<Longrightarrow> fields_make F (if c then [(l, b)] else []) m m'"
  by auto

lemma tag_prefix: "WriteTagToArray t @ r = WriteTagToArray t' @ r' \<Longrightarrow> t = t' \<and> r = r'"
  unfolding WriteTagToArray_def by (metis parse_varint_ok option.inject prod.inject word_unat_eq_iff)

text \<open>\<open>final\<close> are the labels of fields that end with \<open>ExpectAtEnd\<close>; they come last.\<close>

locale message_parser =
  fixes step :: "'i cis_lib \<Rightarrow> 'l option \<Rightarrow> 'm \<Rightarrow> 'i cis \<Rightarrow> ('l, 'm, 'i) jump option"
    and tag_of :: "'l \<Rightarrow> 32 word"
    and F :: "cos_lib \<Rightarrow> 'l \<Rightarrow> 'm \<Rightarrow> byte list \<Rightarrow> 'm \<Rightarrow> bool"
    and final :: "'l \<Rightarrow> bool"
  assumes tag_inj: "tag_of l = tag_of l' \<Longrightarrow> l = l'"
    and top: "cis_spec lib ahead \<Longrightarrow> stream_rest ahead s = WriteTagToArray (tag_of l) @ r \<Longrightarrow>
      \<exists>s'. step lib None m s = step lib (Some l) m s' \<and> stream_rest ahead s' = r"
    and stop: "cis_spec lib ahead \<Longrightarrow> stream_rest ahead s = [] \<Longrightarrow>
      \<exists>s'. step lib None m s = Some (Inl (True, m, s')) \<and> stream_rest ahead s' = [] \<and> legitimate_message_end s'"
    and pass: "cis_spec lib ahead \<Longrightarrow> cos_spec out \<Longrightarrow> F out l m b m' \<Longrightarrow> stream_rest ahead s = b @ r \<Longrightarrow>
      \<exists>j. step lib (Some l) m s = Some j \<and> after tag_of ahead r m' j \<and> (isl j \<longrightarrow> final l)"
begin

lemma parses_fields:
  assumes spec: "cis_spec lib ahead" "cos_spec out"
  shows "fields_make (F out) fs m m' \<Longrightarrow> \<forall>p\<in>set (butlast fs). \<not> final (fst p) \<Longrightarrow>
    (stream_rest ahead s = fields_bytes tag_of fs \<longrightarrow>
      (\<exists>s'. parse_loop (step lib) None m s = Some (True, m', s') \<and> stream_rest ahead s' = [] \<and> legitimate_message_end s')) \<and>
    (WriteTagToArray (tag_of l) @ stream_rest ahead s = fields_bytes tag_of fs \<longrightarrow>
      (\<exists>s'. parse_loop (step lib) (Some l) m s = Some (True, m', s') \<and> stream_rest ahead s' = [] \<and> legitimate_message_end s'))"
proof (induction fs arbitrary: m l s)
  case Nil
  then show ?case
    using stop [OF spec(1), of s m] WriteTagToArray_nonempty [of "tag_of l"] parse_loop.simps [of "step lib" None m s] by auto
next
  case (Cons p fs)
  obtain l0 b where p: "p = (l0, b)"
    by (cases p)
  then obtain m1 where m1: "F out l0 m b m1" "fields_make (F out) fs m1 m'"
    using Cons.prems by auto
  have last: "\<forall>p\<in>set (butlast fs). \<not> final (fst p)"
    using Cons.prems(2) by (cases fs) auto
  have at_label: "\<exists>s'. parse_loop (step lib) (Some l0) m s1 = Some (True, m', s') \<and> stream_rest ahead s' = [] \<and> legitimate_message_end s'"
    if s1: "stream_rest ahead s1 = b @ fields_bytes tag_of fs" for s1
  proof -
    obtain j where j: "step lib (Some l0) m s1 = Some j" "after tag_of ahead (fields_bytes tag_of fs) m1 j" "isl j \<longrightarrow> final l0"
      using pass [OF spec m1(1) s1] by blast
    from j(2) show ?thesis
      unfolding after_def
    proof (elim disjE exE conjE)
      fix s2
      assume "j = Inr (None, m1, s2)" "stream_rest ahead s2 = fields_bytes tag_of fs"
      then show ?thesis
        using Cons.IH [OF m1(2) last, of s2] parse_loop.simps [of "step lib" "Some l0" m s1] j(1) by simp
    next
      fix l2 s2
      assume "j = Inr (Some l2, m1, s2)" "fields_bytes tag_of fs = WriteTagToArray (tag_of l2) @ stream_rest ahead s2"
      then show ?thesis
        using Cons.IH [OF m1(2) last, of s2 l2] parse_loop.simps [of "step lib" "Some l0" m s1] j(1) by simp
    next
      fix s2
      assume e: "j = Inl (True, m1, s2)" "stream_rest ahead s2 = fields_bytes tag_of fs" "legitimate_message_end s2"
      then have "fs = []"
        using j(3) Cons.prems(2) p by (cases fs) auto
      then show ?thesis
        using e m1(2) parse_loop.simps [of "step lib" "Some l0" m s1] j(1) by simp
    qed
  qed
  have "\<exists>s'. parse_loop (step lib) None m s = Some (True, m', s') \<and> stream_rest ahead s' = [] \<and> legitimate_message_end s'"
    if s: "stream_rest ahead s = fields_bytes tag_of (p # fs)"
  proof -
    obtain s1 where "step lib None m s = step lib (Some l0) m s1" "stream_rest ahead s1 = b @ fields_bytes tag_of fs"
      using top [OF spec(1), of s l0 "b @ fields_bytes tag_of fs" m] s p by auto
    then show ?thesis
      using at_label [of s1] parse_loop.simps [of "step lib" None m s] parse_loop.simps [of "step lib" "Some l0" m s1] by simp
  qed
  moreover have "\<exists>s'. parse_loop (step lib) (Some l) m s = Some (True, m', s') \<and> stream_rest ahead s' = [] \<and> legitimate_message_end s'"
    if "WriteTagToArray (tag_of l) @ stream_rest ahead s = fields_bytes tag_of (p # fs)"
  proof -
    have "l = l0 \<and> stream_rest ahead s = b @ fields_bytes tag_of fs"
      using tag_prefix [of "tag_of l" "stream_rest ahead s" "tag_of l0" "b @ fields_bytes tag_of fs"] tag_inj [of l l0] that p by simp
    then show ?thesis
      using at_label by blast
  qed
  ultimately show ?case
    by blast
qed

lemma parses_message:
  assumes "cis_spec lib ahead" and "cos_spec out" and "fields_make (F out) fs m m'" and "\<forall>p\<in>set (butlast fs). \<not> final (fst p)"
    and "stream_rest ahead s = fields_bytes tag_of fs"
  shows "\<exists>s'. parse_loop (step lib) None m s = Some (True, m', s') \<and> stream_rest ahead s' = [] \<and> legitimate_message_end s'"
  using parses_fields [OF assms(1-4)] assms(5) by blast

end

end
