(* ===== verification/Packet_Header.thy ===== *)
theory Packet_Header
  imports Datanode Proto_Message
begin

text \<open>
  The message \<open>PacketHeaderProto\<close> as \<^verbatim>\<open>protoc\<close> generated it, \<open>src/yfs/proto/output/datanode.pb.h\<close> and \<open>datanode.pb.cc\<close>: the header of the packets
  that carry a block. Parsing what was written merges it into the message, and the bytes are as many as
  \<open>ByteSize\<close> says. This gives the codec of headers that the data node is proved correct for.
\<close>

section \<open>The message\<close>

record 'u PacketHeaderProto =
  offsetinblock :: "64 word"
  seqno :: "64 word"
  lastpacketinblock :: bool
  datalen :: "32 word"
  syncblock :: bool
  has_bits :: "32 word"
  cached_size :: int
  header_metadata :: "'u metadata"

definition new_PacketHeaderProto :: "'u PacketHeaderProto" where
  "new_PacketHeaderProto =
     \<lparr>offsetinblock = 0, seqno = 0, lastpacketinblock = False, datalen = 0, syncblock = False, has_bits = 0, cached_size = 0,
      header_metadata = Arena_ptr None\<rparr>"

definition has_offsetinblock :: "'u PacketHeaderProto \<Rightarrow> bool" where
  "has_offsetinblock m \<longleftrightarrow> has_bits m AND 0x01 \<noteq> 0"

definition clear_offsetinblock :: "'u PacketHeaderProto \<Rightarrow> 'u PacketHeaderProto" where
  "clear_offsetinblock m = m\<lparr>offsetinblock := 0, has_bits := has_bits m AND NOT 0x01\<rparr>"

definition set_offsetinblock :: "64 word \<Rightarrow> 'u PacketHeaderProto \<Rightarrow> 'u PacketHeaderProto" where
  "set_offsetinblock v m = m\<lparr>has_bits := has_bits m OR 0x01, offsetinblock := v\<rparr>"

definition has_seqno :: "'u PacketHeaderProto \<Rightarrow> bool" where
  "has_seqno m \<longleftrightarrow> has_bits m AND 0x02 \<noteq> 0"

definition clear_seqno :: "'u PacketHeaderProto \<Rightarrow> 'u PacketHeaderProto" where
  "clear_seqno m = m\<lparr>seqno := 0, has_bits := has_bits m AND NOT 0x02\<rparr>"

definition set_seqno :: "64 word \<Rightarrow> 'u PacketHeaderProto \<Rightarrow> 'u PacketHeaderProto" where
  "set_seqno v m = m\<lparr>has_bits := has_bits m OR 0x02, seqno := v\<rparr>"

definition has_lastpacketinblock :: "'u PacketHeaderProto \<Rightarrow> bool" where
  "has_lastpacketinblock m \<longleftrightarrow> has_bits m AND 0x04 \<noteq> 0"

definition clear_lastpacketinblock :: "'u PacketHeaderProto \<Rightarrow> 'u PacketHeaderProto" where
  "clear_lastpacketinblock m = m\<lparr>lastpacketinblock := False, has_bits := has_bits m AND NOT 0x04\<rparr>"

definition set_lastpacketinblock :: "bool \<Rightarrow> 'u PacketHeaderProto \<Rightarrow> 'u PacketHeaderProto" where
  "set_lastpacketinblock v m = m\<lparr>has_bits := has_bits m OR 0x04, lastpacketinblock := v\<rparr>"

definition has_datalen :: "'u PacketHeaderProto \<Rightarrow> bool" where
  "has_datalen m \<longleftrightarrow> has_bits m AND 0x08 \<noteq> 0"

definition clear_datalen :: "'u PacketHeaderProto \<Rightarrow> 'u PacketHeaderProto" where
  "clear_datalen m = m\<lparr>datalen := 0, has_bits := has_bits m AND NOT 0x08\<rparr>"

definition set_datalen :: "32 word \<Rightarrow> 'u PacketHeaderProto \<Rightarrow> 'u PacketHeaderProto" where
  "set_datalen v m = m\<lparr>has_bits := has_bits m OR 0x08, datalen := v\<rparr>"

definition has_syncblock :: "'u PacketHeaderProto \<Rightarrow> bool" where
  "has_syncblock m \<longleftrightarrow> has_bits m AND 0x10 \<noteq> 0"

definition clear_syncblock :: "'u PacketHeaderProto \<Rightarrow> 'u PacketHeaderProto" where
  "clear_syncblock m = m\<lparr>syncblock := False, has_bits := has_bits m AND NOT 0x10\<rparr>"

definition set_syncblock :: "bool \<Rightarrow> 'u PacketHeaderProto \<Rightarrow> 'u PacketHeaderProto" where
  "set_syncblock v m = m\<lparr>has_bits := has_bits m OR 0x10, syncblock := v\<rparr>"

section \<open>Operations\<close>

text \<open>The macro \<open>ZR_\<close> zeroes the five fields, which lie side by side.\<close>

definition header_Clear :: "('i, 'u) unknown_lib \<Rightarrow> 'u PacketHeaderProto \<Rightarrow> 'u PacketHeaderProto" where
  "header_Clear ul m =
     (let m = (if has_bits m AND 31 \<noteq> 0
               then m\<lparr>offsetinblock := 0, seqno := 0, lastpacketinblock := False, datalen := 0, syncblock := False\<rparr> else m);
          m = m\<lparr>has_bits := 0\<rparr>
      in m\<lparr>header_metadata := clear_metadata ul (header_metadata m)\<rparr>)"

definition header_MergeFrom :: "('i, 'u) unknown_lib \<Rightarrow> 'u PacketHeaderProto \<Rightarrow> 'u PacketHeaderProto \<Rightarrow> 'u PacketHeaderProto" where
  "header_MergeFrom ul from m =
     (let m = (if has_bits from AND 0xff \<noteq> 0
               then let m = (if has_offsetinblock from then set_offsetinblock (offsetinblock from) m else m);
                        m = (if has_seqno from then set_seqno (seqno from) m else m);
                        m = (if has_lastpacketinblock from then set_lastpacketinblock (lastpacketinblock from) m else m);
                        m = (if has_datalen from then set_datalen (datalen from) m else m)
                    in (if has_syncblock from then set_syncblock (syncblock from) m else m)
               else m)
      in m\<lparr>header_metadata := merge_metadata ul (header_metadata from) (header_metadata m)\<rparr>)"

text \<open>The assignment to a message other than itself.\<close>

definition header_CopyFrom :: "('i, 'u) unknown_lib \<Rightarrow> 'u PacketHeaderProto \<Rightarrow> 'u PacketHeaderProto \<Rightarrow> 'u PacketHeaderProto" where
  "header_CopyFrom ul from m = header_MergeFrom ul from (header_Clear ul m)"

definition header_IsInitialized :: "'u PacketHeaderProto \<Rightarrow> bool" where
  "header_IsInitialized m \<longleftrightarrow> has_bits m AND 0x0f = 0x0f"

definition header_ToArray :: "cos_lib \<Rightarrow> ('i, 'u) unknown_lib \<Rightarrow> 'u PacketHeaderProto \<Rightarrow> byte list" where
  "header_ToArray out ul m =
     (if has_offsetinblock m then WriteSFixed64ToArray out 1 (offsetinblock m) else [])
     @ (if has_seqno m then WriteSFixed64ToArray out 2 (seqno m) else [])
     @ (if has_lastpacketinblock m then WriteBoolToArray out 3 (lastpacketinblock m) else [])
     @ (if has_datalen m then WriteSFixed32ToArray out 4 (datalen m) else [])
     @ (if has_syncblock m then WriteBoolToArray out 5 (syncblock m) else [])
     @ (if have_unknown_fields (header_metadata m)
        then SerializeUnknownFieldsToArray ul (unknown_fields ul (header_metadata m)) else [])"

definition header_SerializeWithCachedSizes ::
  "('u, 'o) wf_lib \<Rightarrow> ('i, 'u) unknown_lib \<Rightarrow> 'u PacketHeaderProto \<Rightarrow> 'o cos \<Rightarrow> 'o cos" where
  "header_SerializeWithCachedSizes wr ul m output =
     (let output = if_set (has_offsetinblock m) (WriteSFixed64 wr 1 (offsetinblock m)) output;
          output = if_set (has_seqno m) (WriteSFixed64 wr 2 (seqno m)) output;
          output = if_set (has_lastpacketinblock m) (WriteBool wr 3 (lastpacketinblock m)) output;
          output = if_set (has_datalen m) (WriteSFixed32 wr 4 (datalen m)) output;
          output = if_set (has_syncblock m) (WriteBool wr 5 (syncblock m)) output
      in if_set (have_unknown_fields (header_metadata m)) (SerializeUnknownFields wr (unknown_fields ul (header_metadata m))) output)"

definition header_RequiredFieldsByteSizeFallback :: "'u PacketHeaderProto \<Rightarrow> int" where
  "header_RequiredFieldsByteSizeFallback m =
     (if has_offsetinblock m then 1 + 8 else 0) + (if has_seqno m then 1 + 8 else 0)
     + (if has_lastpacketinblock m then 1 + 1 else 0) + (if has_datalen m then 1 + 4 else 0)"

definition header_ByteSize :: "('i, 'u) unknown_lib \<Rightarrow> 'u PacketHeaderProto \<Rightarrow> int \<times> 'u PacketHeaderProto" where
  "header_ByteSize ul m =
     (let total = (if (has_bits m AND 0x0f) XOR 0x0f = 0 then (1 + 8) + (1 + 8) + (1 + 1) + (1 + 4)
                   else header_RequiredFieldsByteSizeFallback m);
          total = total + (if has_syncblock m then 1 + 1 else 0);
          total = total + (if have_unknown_fields (header_metadata m)
                           then ComputeUnknownFieldsSize ul (unknown_fields ul (header_metadata m)) else 0)
      in (total, m\<lparr>cached_size := total\<rparr>))"

section \<open>Parsing\<close>

text \<open>The labels of the fields; the first field has none in the code, as no jump leads there.\<close>

datatype header_label = Parse_offsetInBlock | Parse_seqno | Parse_lastPacketInBlock | Parse_dataLen | Parse_syncBlock

primrec header_field ::
  "'i cis_lib \<Rightarrow> header_label \<Rightarrow> 'u PacketHeaderProto \<Rightarrow> 'i cis \<Rightarrow> (header_label, 'u PacketHeaderProto, 'i) jump option" where
  "header_field lib Parse_offsetInBlock m s =
     DO_read (ReadPrimitive_sfixed64 lib s) m (\<lambda>v s. Some (expect_tags [(17, Parse_seqno)] (set_offsetinblock v m) s))"
| "header_field lib Parse_seqno m s =
     DO_read (ReadPrimitive_sfixed64 lib s) m (\<lambda>v s. Some (expect_tags [(24, Parse_lastPacketInBlock)] (set_seqno v m) s))"
| "header_field lib Parse_lastPacketInBlock m s =
     DO_read (ReadPrimitive_bool lib s) m (\<lambda>v s. Some (expect_tags [(37, Parse_dataLen)] (set_lastpacketinblock v m) s))"
| "header_field lib Parse_dataLen m s =
     DO_read (ReadPrimitive_sfixed32 lib s) m (\<lambda>v s. Some (expect_tags [(40, Parse_syncBlock)] (set_datalen v m) s))"
| "header_field lib Parse_syncBlock m s =
     DO_read (ReadPrimitive_bool lib s) m (\<lambda>v s. Some (expect_end (set_syncblock v m) s))"

definition header_unusual ::
  "('i, 'u) unknown_lib \<Rightarrow> 32 word \<Rightarrow> 'u PacketHeaderProto \<Rightarrow> 'i cis \<Rightarrow> (header_label, 'u PacketHeaderProto, 'i) jump option" where
  "header_unusual ul tag m s = Some (handle_unusual ul header_metadata (\<lambda>md m. m\<lparr>header_metadata := md\<rparr>) tag m s)"

fun header_step ::
  "'i cis_lib \<Rightarrow> ('i, 'u) unknown_lib \<Rightarrow> header_label option \<Rightarrow> 'u PacketHeaderProto \<Rightarrow> 'i cis
     \<Rightarrow> (header_label, 'u PacketHeaderProto, 'i) jump option" where
  "header_step lib ul (Some l) m s = header_field lib l m s"
| "header_step lib ul None m s =
     (let ((tag, below), s) = ReadTagWithCutoff lib 127 s; number = GetTagFieldNumber tag
      in if \<not> below then header_unusual ul tag m s
         else if number = 1 then (if tag = 9 then header_field lib Parse_offsetInBlock m s else header_unusual ul tag m s)
         else if number = 2 then (if tag = 17 then header_field lib Parse_seqno m s else header_unusual ul tag m s)
         else if number = 3 then (if tag = 24 then header_field lib Parse_lastPacketInBlock m s else header_unusual ul tag m s)
         else if number = 4 then (if tag = 37 then header_field lib Parse_dataLen m s else header_unusual ul tag m s)
         else if number = 5 then (if tag = 40 then header_field lib Parse_syncBlock m s else header_unusual ul tag m s)
         else header_unusual ul tag m s)"

definition header_MergePartialFromCodedStream ::
  "'i cis_lib \<Rightarrow> ('i, 'u) unknown_lib \<Rightarrow> 'u PacketHeaderProto \<Rightarrow> 'i cis \<Rightarrow> (bool \<times> 'u PacketHeaderProto \<times> 'i cis) option" where
  "header_MergePartialFromCodedStream lib ul m s = parse_loop (header_step lib ul) None m s"

section \<open>A header is its fields\<close>

primrec header_tag :: "header_label \<Rightarrow> 32 word" where
  "header_tag Parse_offsetInBlock = 9"
| "header_tag Parse_seqno = 17"
| "header_tag Parse_lastPacketInBlock = 24"
| "header_tag Parse_dataLen = 37"
| "header_tag Parse_syncBlock = 40"

primrec header_makes :: "cos_lib \<Rightarrow> header_label \<Rightarrow> 'u PacketHeaderProto \<Rightarrow> byte list \<Rightarrow> 'u PacketHeaderProto \<Rightarrow> bool" where
  "header_makes out Parse_offsetInBlock m b m' \<longleftrightarrow> (\<exists>v. b = WriteSFixed64NoTagToArray out v \<and> m' = set_offsetinblock v m)"
| "header_makes out Parse_seqno m b m' \<longleftrightarrow> (\<exists>v. b = WriteSFixed64NoTagToArray out v \<and> m' = set_seqno v m)"
| "header_makes out Parse_lastPacketInBlock m b m' \<longleftrightarrow> (\<exists>v. b = WriteBoolNoTagToArray out v \<and> m' = set_lastpacketinblock v m)"
| "header_makes out Parse_dataLen m b m' \<longleftrightarrow> (\<exists>v. b = WriteSFixed32NoTagToArray out v \<and> m' = set_datalen v m)"
| "header_makes out Parse_syncBlock m b m' \<longleftrightarrow> (\<exists>v. b = WriteBoolNoTagToArray out v \<and> m' = set_syncblock v m)"

definition header_fields :: "cos_lib \<Rightarrow> 'u PacketHeaderProto \<Rightarrow> (header_label \<times> byte list) list" where
  "header_fields out m =
     (if has_offsetinblock m then [(Parse_offsetInBlock, WriteSFixed64NoTagToArray out (offsetinblock m))] else [])
     @ (if has_seqno m then [(Parse_seqno, WriteSFixed64NoTagToArray out (seqno m))] else [])
     @ (if has_lastpacketinblock m then [(Parse_lastPacketInBlock, WriteBoolNoTagToArray out (lastpacketinblock m))] else [])
     @ (if has_datalen m then [(Parse_dataLen, WriteSFixed32NoTagToArray out (datalen m))] else [])
     @ (if has_syncblock m then [(Parse_syncBlock, WriteBoolNoTagToArray out (syncblock m))] else [])"

lemma tag_numbers:
  "MakeTag 1 WIRETYPE_FIXED64 = 9" "MakeTag 2 WIRETYPE_FIXED64 = 17" "MakeTag 3 WIRETYPE_VARINT = 24" "MakeTag 4 WIRETYPE_FIXED32 = 37"
  "MakeTag 5 WIRETYPE_VARINT = 40"
  by (simp_all add: MakeTag_def kTagTypeBits_def)

lemma header_ToArray_fields:
  "\<not> have_unknown_fields (header_metadata m) \<Longrightarrow> header_ToArray out ul m = fields_bytes header_tag (header_fields out m)"
  by (simp add: header_ToArray_def header_fields_def WriteSFixed64ToArray_def WriteBoolToArray_def WriteSFixed32ToArray_def
      WriteTagToArray_field_def tag_numbers)

lemma no_bits: "x AND (0xff :: 32 word) = 0 \<Longrightarrow> b AND 0xff = b \<Longrightarrow> x AND b = 0"
  by (metis and.left_commute and_zero_eq)

lemma header_MergeFrom_eq:
  assumes "\<not> have_unknown_fields (header_metadata m)"
  shows "header_MergeFrom ul m m0 =
    (let m1 = (if has_offsetinblock m then set_offsetinblock (offsetinblock m) m0 else m0);
         m2 = (if has_seqno m then set_seqno (seqno m) m1 else m1);
         m3 = (if has_lastpacketinblock m then set_lastpacketinblock (lastpacketinblock m) m2 else m2);
         m4 = (if has_datalen m then set_datalen (datalen m) m3 else m3)
     in if has_syncblock m then set_syncblock (syncblock m) m4 else m4)"
proof (cases "has_bits m AND 0xff = 0")
  case True
  then have "\<not> has_offsetinblock m" "\<not> has_seqno m" "\<not> has_lastpacketinblock m" "\<not> has_datalen m" "\<not> has_syncblock m"
    using no_bits [OF True]
    by (simp_all add: has_offsetinblock_def has_seqno_def has_lastpacketinblock_def has_datalen_def has_syncblock_def)
  then show ?thesis
    using True assms by (simp add: header_MergeFrom_def merge_metadata_def)
next
  case False
  then show ?thesis
    using assms by (simp only: header_MergeFrom_def merge_metadata_def Let_def if_False if_True not_False_eq_True simp_thms) simp
qed

lemma header_fields_make:
  assumes "\<not> have_unknown_fields (header_metadata m)"
  shows "fields_make (header_makes out) (header_fields out m) m0 (header_MergeFrom ul m m0)"
  unfolding header_fields_def header_MergeFrom_eq [OF assms] Let_def
  by (rule fields_make_opt [where f = "set_offsetinblock (offsetinblock m)"], simp, blast,
      rule fields_make_opt [where f = "set_seqno (seqno m)"], simp, blast,
      rule fields_make_opt [where f = "set_lastpacketinblock (lastpacketinblock m)"], simp, blast,
      rule fields_make_opt [where f = "set_datalen (datalen m)"], simp, blast,
      rule fields_make_opt1 [where f = "set_syncblock (syncblock m)"], simp, blast, rule refl)

lemma header_final: "\<forall>p\<in>set (butlast (header_fields out m)). fst p \<noteq> Parse_syncBlock"
  by (simp add: header_fields_def butlast_append)

lemma header_top:
  assumes "cis_spec lib ahead" and "stream_rest ahead s = WriteTagToArray (header_tag l) @ r"
  shows "\<exists>s'. header_step lib ul None m s = header_step lib ul (Some l) m s' \<and> stream_rest ahead s' = r"
proof -
  have n: "0 < unat (header_tag l)" "unat (header_tag l) < 2 ^ 32" "unat (header_tag l) \<le> unat (127 :: 32 word)"
    by (cases l; simp)+
  obtain s' where s': "ReadTagWithCutoff lib 127 s = ((header_tag l, True), s')" "stream_rest ahead s' = r"
    using ReadTagWithCutoff_ok [OF cis_specD(4) [OF assms(1)] n(1,2), of s r 127] assms(2) n(3) by (auto simp: WriteTagToArray_def)
  have "header_step lib ul None m s = header_step lib ul (Some l) m s'"
    using s'(1) by (cases l) (simp_all add: GetTagFieldNumber_def kTagTypeBits_def Let_def)
  then show ?thesis
    using s'(2) by blast
qed

lemma header_stop:
  assumes "cis_spec lib ahead" and "stream_rest ahead s = []"
  shows "\<exists>s'. header_step lib ul None m s = Some (Inl (True, m, s')) \<and> stream_rest ahead s' = [] \<and> legitimate_message_end s'"
proof -
  obtain s' where "ReadTagWithCutoff lib 127 s = ((0, False), s')" "stream_rest ahead s' = []" "legitimate_message_end s'"
    using ReadTagWithCutoff_end [OF cis_specD(4) [OF assms(1)] assms(2)] by blast
  then show ?thesis
    by (simp add: header_unusual_def handle_unusual_def)
qed

lemma header_pass:
  assumes spec: "cis_spec lib ahead" "cos_spec out" and F: "header_makes out l m b m'" and s: "stream_rest ahead s = b @ r"
  shows "\<exists>j. header_step lib ul (Some l) m s = Some j \<and> after header_tag ahead r m' j \<and> (isl j \<longrightarrow> l = Parse_syncBlock)"
proof (cases l)
  case Parse_offsetInBlock
  then show ?thesis
    using F s sfixed64_codec.read_write [OF spec, of s _ r] after_expect_tags [of "[(17, Parse_seqno)]" header_tag ahead _ m']
    by (fastforce simp: DO_read_def simp del: expect_tags.simps)
next
  case Parse_seqno
  then show ?thesis
    using F s sfixed64_codec.read_write [OF spec, of s _ r] after_expect_tags [of "[(24, Parse_lastPacketInBlock)]" header_tag ahead _ m']
    by (fastforce simp: DO_read_def simp del: expect_tags.simps)
next
  case Parse_lastPacketInBlock
  then show ?thesis
    using F s bool_codec.read_write [OF spec, of s _ r] after_expect_tags [of "[(37, Parse_dataLen)]" header_tag ahead _ m']
    by (fastforce simp: DO_read_def simp del: expect_tags.simps)
next
  case Parse_dataLen
  then show ?thesis
    using F s sfixed32_codec.read_write [OF spec, of s _ r] after_expect_tags [of "[(40, Parse_syncBlock)]" header_tag ahead _ m']
    by (fastforce simp: DO_read_def simp del: expect_tags.simps)
next
  case Parse_syncBlock
  then show ?thesis
    using F s bool_codec.read_write [OF spec, of s _ r] after_expect_end [of header_tag ahead _ m']
    by (fastforce simp: DO_read_def)
qed

interpretation header_parser: message_parser "\<lambda>lib. header_step lib ul" header_tag header_makes "\<lambda>l. l = Parse_syncBlock" for ul
proof
  fix l l'
  assume "header_tag l = header_tag l'"
  then show "l = l'"
    by (cases l; cases l') simp_all
qed (fact header_top header_stop header_pass)+

lemma header_Serialize_ok:
  assumes "wf_spec out ul wr"
  shows "appends (header_SerializeWithCachedSizes wr ul m) (header_ToArray out ul m)"
  unfolding header_SerializeWithCachedSizes_def [abs_def] header_ToArray_def Let_def append_assoc [symmetric]
  using assms by (intro appends_comp appends_when) (simp_all add: wf_spec_def)

section \<open>Sizes\<close>

lemma bit_tests:
  "has_offsetinblock m = bit (has_bits m) 0" "has_seqno m = bit (has_bits m) 1" "has_lastpacketinblock m = bit (has_bits m) 2"
  "has_datalen m = bit (has_bits m) 3" "has_syncblock m = bit (has_bits m) 4"
  using and_exp_eq_0_iff_not_bit [of "has_bits m" 0] and_exp_eq_0_iff_not_bit [of "has_bits m" 1] and_exp_eq_0_iff_not_bit [of "has_bits m" 2]
    and_exp_eq_0_iff_not_bit [of "has_bits m" 3] and_exp_eq_0_iff_not_bit [of "has_bits m" 4]
  by (simp_all add: has_offsetinblock_def has_seqno_def has_lastpacketinblock_def has_datalen_def has_syncblock_def)

lemma required_bits: "x AND (0xf :: 32 word) = 0xf \<longleftrightarrow> bit x 0 \<and> bit x 1 \<and> bit x 2 \<and> bit x 3"
proof -
  have f: "(0xf :: 32 word) = mask 4"
    by (simp add: mask_eq_exp_minus_1)
  have "x AND mask 4 = mask 4 \<longleftrightarrow> (\<forall>n. n < 4 \<longrightarrow> bit x n)"
    by (auto simp: bit_eq_iff bit_simps) (erule_tac x = n in allE, simp)
  also have "\<dots> \<longleftrightarrow> bit x 0 \<and> bit x 1 \<and> bit x 2 \<and> bit x 3"
    by (auto simp: numeral_eq_Suc All_less_Suc)
  finally show ?thesis
    unfolding f .
qed

lemma xor_zero: "(a :: 32 word) XOR b = 0 \<longleftrightarrow> a = b"
  by (auto simp: bit_eq_iff bit_xor_iff)

lemma header_IsInitialized_eq:
  "header_IsInitialized m \<longleftrightarrow> has_offsetinblock m \<and> has_seqno m \<and> has_lastpacketinblock m \<and> has_datalen m"
  by (simp add: header_IsInitialized_def required_bits bit_tests)

lemma one_byte_tags: "length (WriteTagToArray (header_tag l)) = 1"
  by (cases l) (simp_all add: WriteTagToArray_def varint_small)

lemma header_ByteSize_ok:
  assumes "\<not> have_unknown_fields (header_metadata m)"
  shows "fst (header_ByteSize ul m) = int (length (header_ToArray out ul m))"
proof -
  have "fst (header_ByteSize ul m) = header_RequiredFieldsByteSizeFallback m + (if has_syncblock m then 2 else 0)"
    using assms header_IsInitialized_eq [of m]
    by (simp add: header_ByteSize_def header_RequiredFieldsByteSizeFallback_def header_IsInitialized_def xor_zero)
  moreover have "length (WriteSFixed64NoTagToArray out v) = 8" "length (WriteSFixed32NoTagToArray out w) = 4"
    "length (WriteBoolNoTagToArray out b) = 1" for v w b
    by (simp_all add: sfixed64_codec.width sfixed32_codec.width WriteBoolNoTagToArray_def varint_small)
  moreover have "length (WriteTagToArray 9) = 1" "length (WriteTagToArray 17) = 1" "length (WriteTagToArray 24) = 1"
    "length (WriteTagToArray 37) = 1" "length (WriteTagToArray 40) = 1"
    using one_byte_tags [of Parse_offsetInBlock] one_byte_tags [of Parse_seqno] one_byte_tags [of Parse_lastPacketInBlock]
      one_byte_tags [of Parse_dataLen] one_byte_tags [of Parse_syncBlock] by simp_all
  ultimately show ?thesis
    using assms by (simp add: header_ToArray_fields header_fields_def header_RequiredFieldsByteSizeFallback_def)
qed

section \<open>Fields that are not set have their defaults\<close>

definition header_inv :: "'u PacketHeaderProto \<Rightarrow> bool" where
  "header_inv m \<longleftrightarrow> (\<not> has_offsetinblock m \<longrightarrow> offsetinblock m = 0) \<and> (\<not> has_seqno m \<longrightarrow> seqno m = 0)
     \<and> (\<not> has_lastpacketinblock m \<longrightarrow> \<not> lastpacketinblock m) \<and> (\<not> has_datalen m \<longrightarrow> datalen m = 0)
     \<and> (\<not> has_syncblock m \<longrightarrow> \<not> syncblock m) \<and> has_bits m AND 31 = has_bits m"

lemma bit_flag: "k < 32 \<Longrightarrow> bit (2 ^ k :: 32 word) n \<longleftrightarrow> n = k"
  by (auto simp: bit_exp_iff)

lemma bit_flags:
  "bit (1 :: 32 word) n \<longleftrightarrow> n = 0" "bit (2 :: 32 word) n \<longleftrightarrow> n = 1" "bit (4 :: 32 word) n \<longleftrightarrow> n = 2" "bit (8 :: 32 word) n \<longleftrightarrow> n = 3"
  "bit (16 :: 32 word) n \<longleftrightarrow> n = 4" "bit (31 :: 32 word) n \<longleftrightarrow> n < 5"
proof -
  have "(31 :: 32 word) = mask 5"
    by (simp add: mask_eq_exp_minus_1)
  then show "bit (31 :: 32 word) n \<longleftrightarrow> n < 5"
    by (auto simp only: bit_mask_iff possible_bit_word) simp_all
qed (use bit_flag [of 0 n] bit_flag [of 1 n] bit_flag [of 2 n] bit_flag [of 3 n] bit_flag [of 4 n] in \<open>simp_all del: bit_numeral_word_iff\<close>)

lemma and_31: "x AND (31 :: 32 word) = x \<longleftrightarrow> (\<forall>n. bit x n \<longrightarrow> n < 5)"
proof
  show "x AND 31 = x \<Longrightarrow> \<forall>n. bit x n \<longrightarrow> n < 5"
    by (metis bit_and_iff bit_flags(6))
qed (auto simp: bit_eq_iff bit_and_iff bit_flags simp del: bit_numeral_word_iff)

lemmas header_inv_bits = header_inv_def bit_tests and_31 bit_or_iff bit_and_iff bit_not_iff bit_flags

lemma header_set_inv:
  assumes "header_inv m"
  shows "header_inv (set_offsetinblock v m)" "header_inv (set_seqno v m)" "header_inv (set_lastpacketinblock b m)"
    "header_inv (set_datalen w m)" "header_inv (set_syncblock b m)"
  using assms
  by (simp_all add: header_inv_bits set_offsetinblock_def set_seqno_def set_lastpacketinblock_def set_datalen_def set_syncblock_def
      del: bit_numeral_word_iff)

lemma header_clear_inv:
  assumes "header_inv m"
  shows "header_inv (clear_offsetinblock m)" "header_inv (clear_seqno m)" "header_inv (clear_lastpacketinblock m)"
    "header_inv (clear_datalen m)" "header_inv (clear_syncblock m)"
  using assms
  by (simp_all add: header_inv_bits clear_offsetinblock_def clear_seqno_def clear_lastpacketinblock_def clear_datalen_def clear_syncblock_def
      del: bit_numeral_word_iff)

text \<open>\<open>Clear\<close> leaves the fields alone if no bit is set, which is right because of the invariant.\<close>

lemma header_Clear_ok:
  assumes "header_inv m" and "\<not> have_unknown_fields (header_metadata m)"
  shows "header_Clear ul m = new_PacketHeaderProto\<lparr>cached_size := cached_size m, header_metadata := header_metadata m\<rparr>"
proof (cases "has_bits m AND 31 = 0")
  case True
  then have "has_bits m = 0"
    using assms(1) by (simp add: header_inv_def)
  then show ?thesis
    using assms by (cases m) (simp add: header_Clear_def header_inv_def new_PacketHeaderProto_def clear_metadata_def has_offsetinblock_def
        has_seqno_def has_lastpacketinblock_def has_datalen_def has_syncblock_def)
next
  case False
  then show ?thesis
    using assms(2) by (simp add: header_Clear_def new_PacketHeaderProto_def clear_metadata_def)
qed

lemma five_bits:
  assumes "x AND (31 :: 32 word) = x"
  shows "(if bit x 0 then 1 else 0) OR (if bit x 1 then 2 else 0) OR (if bit x 2 then 4 else 0) OR (if bit x 3 then 8 else 0)
    OR (if bit x 4 then 16 else 0) = x"
proof (rule bit_word_eqI)
  fix n
  show "bit ((if bit x 0 then 1 else 0) OR (if bit x 1 then 2 else 0) OR (if bit x 2 then 4 else 0) OR (if bit x 3 then 8 else 0)
    OR (if bit x 4 then 16 else 0) :: 32 word) n = bit x n"
  proof (cases "n < 5")
    case True
    then have "n = 0 \<or> n = 1 \<or> n = 2 \<or> n = 3 \<or> n = 4"
      by arith
    then show ?thesis
      by (elim disjE) (simp_all add: bit_or_iff bit_flags del: bit_numeral_word_iff)
  next
    case False
    then show ?thesis
      using assms unfolding and_31 by (auto simp: bit_or_iff bit_flags simp del: bit_numeral_word_iff)
  qed
qed

lemma has_bits_set:
  "has_bits (if c then set_offsetinblock v m else m) = has_bits m OR (if c then 1 else 0)"
  "has_bits (if c then set_seqno v m else m) = has_bits m OR (if c then 2 else 0)"
  "has_bits (if c then set_lastpacketinblock b m else m) = has_bits m OR (if c then 4 else 0)"
  "has_bits (if c then set_datalen w m else m) = has_bits m OR (if c then 8 else 0)"
  "has_bits (if c then set_syncblock b m else m) = has_bits m OR (if c then 16 else 0)"
  by (simp_all add: set_offsetinblock_def set_seqno_def set_lastpacketinblock_def set_datalen_def set_syncblock_def)

lemma header_CopyFrom_ok:
  assumes "header_inv from" and "header_inv m" and "\<not> have_unknown_fields (header_metadata from)" "\<not> have_unknown_fields (header_metadata m)"
  shows "header_CopyFrom ul from m = from\<lparr>cached_size := cached_size m, header_metadata := header_metadata m\<rparr>"
proof -
  let ?c = "header_CopyFrom ul from m"
  have c: "?c = header_MergeFrom ul from (new_PacketHeaderProto\<lparr>cached_size := cached_size m, header_metadata := header_metadata m\<rparr>)"
    unfolding header_CopyFrom_def header_Clear_ok [OF assms(2,4)] ..
  have "has_bits ?c = has_bits from"
    unfolding c header_MergeFrom_eq [OF assms(3)] Let_def has_bits_set
    using five_bits [of "has_bits from"] assms(1) by (simp only: header_inv_def bit_tests or.assoc) (simp add: new_PacketHeaderProto_def)
  moreover have "offsetinblock ?c = offsetinblock from" "seqno ?c = seqno from" "lastpacketinblock ?c = lastpacketinblock from"
    "datalen ?c = datalen from" "syncblock ?c = syncblock from" "cached_size ?c = cached_size m" "header_metadata ?c = header_metadata m"
    unfolding c header_MergeFrom_eq [OF assms(3)] Let_def
    using assms(1)
    by (simp_all add: header_inv_def set_offsetinblock_def set_seqno_def set_lastpacketinblock_def set_datalen_def
        set_syncblock_def new_PacketHeaderProto_def)
  ultimately show ?thesis
    by (intro PacketHeaderProto.equality) simp_all
qed

section \<open>Parsing merges\<close>

lemma header_parse_ok:
  assumes "cis_spec lib ahead" and "cos_spec out" and "\<not> have_unknown_fields (header_metadata m)"
    and "stream_rest ahead s = header_ToArray out ul m"
  shows "\<exists>s'. header_MergePartialFromCodedStream lib ul m0 s = Some (True, header_MergeFrom ul m m0, s')
    \<and> stream_rest ahead s' = [] \<and> ConsumedEntireMessage s'"
  unfolding header_MergePartialFromCodedStream_def ConsumedEntireMessage_def
  using assms header_parser.parses_message [OF assms(1,2) header_fields_make header_final] by (simp add: header_ToArray_fields)

section \<open>Properties\<close>

text \<open>
  C19. Parsing the bytes that \<open>PacketHeaderProto\<close> serialises to, however they are split into buffers, ends with success at the end of the
  message, and leaves what \<open>MergeFrom\<close> makes of the two messages: the fields that were set are taken over, all others are kept.
\<close>

theorem header_parse_merges:
  assumes "cis_spec lib ahead" and "cos_spec out" and "\<not> have_unknown_fields (header_metadata m)"
    and "stream_rest ahead s = header_ToArray out ul m"
  shows "\<exists>s'. header_MergePartialFromCodedStream lib ul m0 s = Some (True, header_MergeFrom ul m m0, s')
    \<and> stream_rest ahead s' = [] \<and> ConsumedEntireMessage s'"
  using assms by (rule header_parse_ok)

text \<open>A library of unknown fields that refuses them all.\<close>

definition no_unknown :: "(unit, unit) unknown_lib" where
  "no_unknown =
     \<lparr>ufs_empty = (), ufs_Clear = (\<lambda>_. ()), ufs_MergeFrom = (\<lambda>_ _. ()), ufs_AddVarint = (\<lambda>_ _ _. ()), SkipField = (\<lambda>s _ _. (False, (), s)),
      SerializeUnknownFieldsToArray = (\<lambda>_. []), ComputeUnknownFieldsSize = (\<lambda>_. 0)\<rparr>"

theorem header_parse_merges_witness:
  "\<exists>s'. header_MergePartialFromCodedStream flat_lib no_unknown (set_syncblock True new_PacketHeaderProto)
      (flat_cis 100 () (header_ToArray flat_out no_unknown (set_seqno 7 new_PacketHeaderProto)))
      = Some (True, header_MergeFrom no_unknown (set_seqno 7 new_PacketHeaderProto) (set_syncblock True new_PacketHeaderProto), s')
    \<and> stream_rest (\<lambda>_. []) s' = [] \<and> ConsumedEntireMessage s'"
  by (rule header_parse_merges [OF flat_spec flat_out_spec])
    (simp_all add: set_seqno_def new_PacketHeaderProto_def stream_rest_def flat_cis_def)

section \<open>The headers of the data node\<close>

text \<open>The message that \<open>WritePacket\<close> fills, and what \<open>ReadPacket\<close> takes out of a message.\<close>

definition header_message :: "packet_header \<Rightarrow> 'u PacketHeaderProto" where
  "header_message h =
     set_datalen (of_int (ph_datalen h)) (set_lastpacketinblock (ph_last h)
       (set_seqno (of_int (ph_seqno h)) (set_offsetinblock (of_int (ph_offset h)) new_PacketHeaderProto)))"

definition header_of :: "'u PacketHeaderProto \<Rightarrow> packet_header" where
  "header_of m =
     \<lparr>ph_offset = sint (offsetinblock m), ph_seqno = sint (seqno m), ph_last = lastpacketinblock m, ph_datalen = sint (datalen m)\<rparr>"

text \<open>
  \<open>ParseFromCodedStream\<close> of the library is documented as \<open>Clear\<close>, \<open>MergePartialFromCodedStream\<close> and \<open>IsInitialized\<close>; \<open>ReadPacket\<close> then
  asks whether the message ended at the limit. \<open>limited\<close> is the stream up to the limit.
\<close>

definition parse_header ::
  "'i cis_lib \<Rightarrow> ('i, 'u) unknown_lib \<Rightarrow> (byte list \<Rightarrow> 'i cis) \<Rightarrow> byte list \<Rightarrow> bool \<times> packet_header" where
  "parse_header lib ul limited bytes =
     (case header_MergePartialFromCodedStream lib ul (header_Clear ul new_PacketHeaderProto) (limited bytes) of
        None \<Rightarrow> (False, header0)
      | Some (ok, m, s) \<Rightarrow> (ok \<and> header_IsInitialized m \<and> ConsumedEntireMessage s, header_of m))"

lemma header_message_fields:
  "\<not> have_unknown_fields (header_metadata (header_message h))" "header_IsInitialized (header_message h)"
  "\<not> has_syncblock (header_message h)"
  by (simp_all add: header_message_def set_datalen_def set_lastpacketinblock_def set_seqno_def set_offsetinblock_def new_PacketHeaderProto_def
      header_IsInitialized_def has_syncblock_def)

lemma header_message_merge:
  "header_MergeFrom ul (header_message h) (header_Clear ul new_PacketHeaderProto) = header_message h"
  by (simp add: header_MergeFrom_def header_Clear_def header_message_def set_datalen_def set_lastpacketinblock_def set_seqno_def
      set_offsetinblock_def new_PacketHeaderProto_def has_offsetinblock_def has_seqno_def has_lastpacketinblock_def has_datalen_def
      has_syncblock_def merge_metadata_def clear_metadata_def)

lemma header_of_message: "header_ok h \<Longrightarrow> header_of (header_message h) = h"
  by (simp add: header_of_def header_message_def set_datalen_def set_lastpacketinblock_def set_seqno_def
      set_offsetinblock_def new_PacketHeaderProto_def header_ok_def sint_sbintrunc' signed_take_bit_int_eq_self)

lemma header_message_length: "length (header_ToArray out ul (header_message h)) = 25"
  using header_ByteSize_ok [OF header_message_fields(1), of ul h out]
  by (simp add: header_ByteSize_def xor_zero header_message_fields(1,3) header_message_fields(2) [unfolded header_IsInitialized_def])

text \<open>
  C8. The generated code is the codec of packet headers that the data node relies on: a header it writes takes 25 bytes, and is parsed
  back as it was from any stream that holds these bytes before its limit.
\<close>

theorem generated_header_codec:
  assumes "cis_spec lib ahead" and "cos_spec out" and "\<forall>bytes. stream_rest ahead (limited bytes) = bytes"
  shows "header_codec (dl\<lparr>ser_header := \<lambda>h. header_ToArray out ul (header_message h), pr_header := parse_header lib ul limited\<rparr>)"
  unfolding header_codec_def
proof (intro allI impI conjI)
  fix h
  assume h: "header_ok h"
  let ?m = "header_message h"
  obtain s' where "header_MergePartialFromCodedStream lib ul (header_Clear ul new_PacketHeaderProto) (limited (header_ToArray out ul ?m))
      = Some (True, ?m, s')" "ConsumedEntireMessage s'"
    using header_parse_ok [OF assms(1,2) header_message_fields(1), of "limited (header_ToArray out ul ?m)" ul h
        "header_Clear ul new_PacketHeaderProto"] assms(3)
    by (auto simp: header_message_merge)
  then show "pr_header (dl\<lparr>ser_header := \<lambda>h. header_ToArray out ul (header_message h), pr_header := parse_header lib ul limited\<rparr>)
      (ser_header (dl\<lparr>ser_header := \<lambda>h. header_ToArray out ul (header_message h), pr_header := parse_header lib ul limited\<rparr>) h) = (True, h)"
    by (simp add: parse_header_def header_message_fields(2) header_of_message [OF h])
qed (simp add: header_message_length)

theorem generated_header_codec_witness:
  "header_codec (dn_lib0\<lparr>ser_header := \<lambda>h. header_ToArray flat_out no_unknown (header_message h),
     pr_header := parse_header flat_lib no_unknown (flat_cis 100 ())\<rparr>)"
  by (rule generated_header_codec [OF flat_spec flat_out_spec]) (simp add: stream_rest_def flat_cis_def)

text \<open>
  A client that asks for its block to be synchronised sets \<open>syncBlock\<close>; the header then takes 27 bytes, and the data node
  refuses the packet.
\<close>

lemma sync_header_length:
  fixes ul :: "('i, 'u) unknown_lib"
  shows "length (header_ToArray out ul (set_syncblock b (header_message h))) = 27"
proof -
  let ?m = "set_syncblock b (header_message h) :: 'u PacketHeaderProto"
  have "\<not> have_unknown_fields (header_metadata ?m)"
    by (simp add: set_syncblock_def header_message_fields)
  moreover have "has_syncblock ?m" "has_bits ?m AND 15 = 15"
    by (simp_all add: header_message_def set_datalen_def set_lastpacketinblock_def set_seqno_def set_offsetinblock_def new_PacketHeaderProto_def
        set_syncblock_def has_syncblock_def)
  ultimately show ?thesis
    using header_ByteSize_ok [of ?m ul out] by (simp add: header_ByteSize_def xor_zero)
qed

lemma sync_packet_refused:
  "ReadPacket lib (be32 plen @ be16 (length (header_ToArray out ul (set_syncblock b (header_message h)))) @ rest) = Some (header0, None, rest)"
proof -
  have "of_be32 (be16 27) = 27"
    by code_simp
  then show ?thesis
    by (simp add: ReadPacket_def ReadRaw_def be32_def be16_def sync_header_length)
qed

end
