(* ===== verification/Pipeline_Ack.thy ===== *)
theory Pipeline_Ack
  imports Packet_Header
begin

text \<open>
  The message \<open>PipelineAckProto\<close> of \<open>src/yfs/proto/output/datanode.pb.h\<close> and \<open>datanode.pb.cc\<close>, with which a data node acknowledges a packet:
  a sequence number in the signed encoding and a repeated field of statuses, one for each node of the pipeline. What is written
  is parsed back with all its statuses in order.
\<close>

section \<open>The message\<close>

record 'u PipelineAckProto =
  ack_seqno :: "64 word"
  reply :: "32 word repeated_field"
  downstreamacktimenanos :: "64 word"
  flag :: "32 word repeated_field"
  flag_cached_byte_size :: int
  ack_has_bits :: "32 word"
  ack_cached_size :: int
  ack_metadata :: "'u metadata"


definition Status_IsValid :: "32 word \<Rightarrow> bool" where
  "Status_IsValid v \<longleftrightarrow> v \<in> {0, 1, 2, 3, 4, 5, 6, 7, 8, 9, 10, 11, 12}"

definition ack_has_seqno :: "'u PipelineAckProto \<Rightarrow> bool" where
  "ack_has_seqno m \<longleftrightarrow> ack_has_bits m AND 0x01 \<noteq> 0"

definition ack_clear_seqno :: "'u PipelineAckProto \<Rightarrow> 'u PipelineAckProto" where
  "ack_clear_seqno m = m\<lparr>ack_seqno := 0, ack_has_bits := ack_has_bits m AND NOT 0x01\<rparr>"

definition ack_set_seqno :: "64 word \<Rightarrow> 'u PipelineAckProto \<Rightarrow> 'u PipelineAckProto" where
  "ack_set_seqno v m = m\<lparr>ack_has_bits := ack_has_bits m OR 0x01, ack_seqno := v\<rparr>"

text \<open>The setters check their argument with an \<open>assert\<close>; \<open>d\<close> is what fresh memory holds.\<close>

definition set_reply :: "nat \<Rightarrow> 32 word \<Rightarrow> 'u PipelineAckProto \<Rightarrow> 'u PipelineAckProto option" where
  "set_reply index v m = (if Status_IsValid v then do { f \<leftarrow> Set index v (reply m); Some (m\<lparr>reply := f\<rparr>) } else None)"


definition has_downstreamacktimenanos :: "'u PipelineAckProto \<Rightarrow> bool" where
  "has_downstreamacktimenanos m \<longleftrightarrow> ack_has_bits m AND 0x04 \<noteq> 0"

definition clear_downstreamacktimenanos :: "'u PipelineAckProto \<Rightarrow> 'u PipelineAckProto" where
  "clear_downstreamacktimenanos m = m\<lparr>downstreamacktimenanos := 0, ack_has_bits := ack_has_bits m AND NOT 0x04\<rparr>"

definition set_downstreamacktimenanos :: "64 word \<Rightarrow> 'u PipelineAckProto \<Rightarrow> 'u PipelineAckProto" where
  "set_downstreamacktimenanos v m = m\<lparr>ack_has_bits := ack_has_bits m OR 0x04, downstreamacktimenanos := v\<rparr>"

section \<open>Operations\<close>

definition ack_Clear :: "('i, 'u) unknown_lib \<Rightarrow> 'u PipelineAckProto \<Rightarrow> 'u PipelineAckProto" where
  "ack_Clear ul m =
     (let m = (if ack_has_bits m AND 5 \<noteq> 0 then m\<lparr>ack_seqno := 0, downstreamacktimenanos := 0\<rparr> else m)
      in m\<lparr>reply := Clear (reply m), flag := Clear (flag m), ack_has_bits := 0,
           ack_metadata := clear_metadata ul (ack_metadata m)\<rparr>)"

definition ack_MergeFrom ::
  "('i, 'u) unknown_lib \<Rightarrow> 32 word \<Rightarrow> 'u PipelineAckProto \<Rightarrow> 'u PipelineAckProto \<Rightarrow> 'u PipelineAckProto option" where
  "ack_MergeFrom ul d from m =
     do {
       r \<leftarrow> MergeFrom d (reply from) (reply m);
       f \<leftarrow> MergeFrom d (flag from) (flag m);
       let m = m\<lparr>reply := r, flag := f\<rparr>;
       let m = (if ack_has_bits from AND 0xff \<noteq> 0
                then let m = (if ack_has_seqno from then ack_set_seqno (ack_seqno from) m else m)
                     in (if has_downstreamacktimenanos from then set_downstreamacktimenanos (downstreamacktimenanos from) m else m)
                else m);
       Some (m\<lparr>ack_metadata := merge_metadata ul (ack_metadata from) (ack_metadata m)\<rparr>)
     }"


definition ack_ToArray :: "cos_lib \<Rightarrow> ('i, 'u) unknown_lib \<Rightarrow> 'u PipelineAckProto \<Rightarrow> byte list option" where
  "ack_ToArray out ul m =
     do {
       let target = (if ack_has_seqno m then WriteSInt64ToArray out 1 (ack_seqno m) else []);
       target \<leftarrow> ofold (\<lambda>i target. do { v \<leftarrow> Get i (reply m); Some (target @ WriteEnumToArray out 2 v) }) [0..<current_size (reply m)] target;
       let target = target @ (if has_downstreamacktimenanos m then WriteUInt64ToArray out 3 (downstreamacktimenanos m) else []);
       let target = target @ (if 0 < current_size (flag m)
                              then WriteTagToArray_field 4 WIRETYPE_LENGTH_DELIMITED
                                @ WriteVarint32ToArray (unat (word_of_int (flag_cached_byte_size m) :: 32 word))
                              else []);
       target \<leftarrow> ofold (\<lambda>i target. do { v \<leftarrow> Get i (flag m); Some (target @ WriteUInt32NoTagToArray out v) }) [0..<current_size (flag m)] target;
       Some (target @ (if have_unknown_fields (ack_metadata m)
                       then SerializeUnknownFieldsToArray ul (unknown_fields ul (ack_metadata m)) else []))
     }"

definition ack_SerializeWithCachedSizes ::
  "('u, 'o) wf_lib \<Rightarrow> ('i, 'u) unknown_lib \<Rightarrow> 'u PipelineAckProto \<Rightarrow> 'o cos \<Rightarrow> 'o cos option" where
  "ack_SerializeWithCachedSizes wr ul m output =
     do {
       let output = if_set (ack_has_seqno m) (WriteSInt64 wr 1 (ack_seqno m)) output;
       output \<leftarrow> ofold (\<lambda>i output. do { v \<leftarrow> Get i (reply m); Some (WriteEnum wr 2 v output) }) [0..<current_size (reply m)] output;
       let output = if_set (has_downstreamacktimenanos m) (WriteUInt64 wr 3 (downstreamacktimenanos m)) output;
       output \<leftarrow> (if 0 < current_size (flag m)
                   then do { output \<leftarrow> WriteTag_field (wf_slow wr) 4 WIRETYPE_LENGTH_DELIMITED output;
                             WriteVarint32 (wf_slow wr) (word_of_int (flag_cached_byte_size m)) output }
                   else Some output);
       output \<leftarrow> ofold (\<lambda>i output. do { v \<leftarrow> Get i (flag m); WriteUInt32NoTag (wf_slow wr) v output }) [0..<current_size (flag m)] output;
       Some (if_set (have_unknown_fields (ack_metadata m)) (SerializeUnknownFields wr (unknown_fields ul (ack_metadata m))) output)
     }"

definition ack_ByteSize :: "cos_lib \<Rightarrow> ('i, 'u) unknown_lib \<Rightarrow> 'u PipelineAckProto \<Rightarrow> (int \<times> 'u PipelineAckProto) option" where
  "ack_ByteSize out ul m =
     do {
       let total = (if ack_has_seqno m then 1 + SInt64Size out (ack_seqno m) else 0);
       let total = total + (if has_downstreamacktimenanos m then 1 + UInt64Size out (downstreamacktimenanos m) else 0);
       data_size \<leftarrow> ofold (\<lambda>i data_size. do { v \<leftarrow> Get i (reply m); Some (data_size + EnumSize out v) }) [0..<current_size (reply m)] 0;
       let total = total + 1 * int (current_size (reply m)) + data_size;
       data_size \<leftarrow> ofold (\<lambda>i data_size. do { v \<leftarrow> Get i (flag m); Some (data_size + UInt32Size out v) }) [0..<current_size (flag m)] 0;
       let total = total + (if 0 < data_size then 1 + Int32Size out (word_of_int data_size) else 0);
       let m = m\<lparr>flag_cached_byte_size := data_size\<rparr>;
       let total = total + data_size;
       let total = total + (if have_unknown_fields (ack_metadata m)
                            then ComputeUnknownFieldsSize ul (unknown_fields ul (ack_metadata m)) else 0);
       Some (total, m\<lparr>ack_cached_size := total\<rparr>)
     }"

section \<open>Parsing\<close>











section \<open>An acknowledgement is its fields\<close>




lemma ack_tag_numbers: "MakeTag 1 WIRETYPE_VARINT = 8" "MakeTag 2 WIRETYPE_VARINT = 16" "MakeTag 3 WIRETYPE_VARINT = 24"
  by (simp_all add: MakeTag_def kTagTypeBits_def)






section \<open>Parsing\<close>






section \<open>Sizes\<close>

context growing_array
begin

lemma sum_all:
  assumes "inv f"
  shows "n \<le> length (elems f) \<Longrightarrow>
    ofold (\<lambda>i acc. do { x \<leftarrow> get i f; Some (acc + h x) }) [0..<n] acc = Some (acc + (\<Sum>x\<leftarrow>take n (elems f). h x :: int))"
proof (induction n)
  case (Suc n)
  then show ?case
    using get [OF assms, of n] by (simp add: ofold_append take_Suc_conv_app_nth)
qed simp

end

lemma reply_bytes:
  assumes "cos_spec out"
  shows "int (length (concat (map (WriteEnumToArray out 2) vs))) = int (length vs) + (\<Sum>v\<leftarrow>vs. EnumSize out v)"
proof -
  have "length (WriteTagToArray (16 :: 32 word)) = 1"
    by (simp add: WriteTagToArray_def varint_small)
  then show ?thesis
    using enum_codec.size_write [OF assms]
    by (induction vs) (simp_all add: WriteEnumToArray_def WriteTagToArray_field_def ack_tag_numbers)
qed

lemma flag_length:
  assumes "cos_spec out" and "0 \<le> n" "n < 2 ^ 31"
  shows "Int32Size out (word_of_int n) = int (length (WriteVarint32ToArray (unat (word_of_int n :: 32 word))))"
proof -
  have "\<not> (word_of_int n :: 32 word) <s 0"
    using assms(2,3) by (simp add: word_sless_alt sint_sbintrunc' signed_take_bit_int_eq_self)
  then show ?thesis
    using VarintSize32_ok [OF assms(1)] by (simp add: Int32Size_def VarintSize32SignExtended_def)
qed

lemma flags_empty:
  assumes "cos_spec out"
  shows "(\<Sum>v\<leftarrow>vs. UInt32Size out v) = 0 \<longleftrightarrow> vs = []" "0 \<le> (\<Sum>v\<leftarrow>vs. UInt32Size out v)"
proof -
  have pos: "0 < UInt32Size out v" for v
    using uint32_codec.size_write [OF assms, of v] WriteTagToArray_nonempty [of v] by (simp add: WriteUInt32NoTagToArray_def WriteTagToArray_def)
  have "int (length vs) \<le> (\<Sum>v\<leftarrow>vs. UInt32Size out v)"
  proof (induction vs)
    case (Cons v vs)
    then show ?case
      using pos [of v] by simp
  qed simp
  then show "(\<Sum>v\<leftarrow>vs. UInt32Size out v) = 0 \<longleftrightarrow> vs = []" "0 \<le> (\<Sum>v\<leftarrow>vs. UInt32Size out v)"
    by auto
qed

text \<open>\<open>ByteSize\<close> announces as many bytes as are then written, and it is needed before: it stores the size of the packed flags.\<close>

lemma ack_ByteSize_ok:
  assumes out: "cos_spec out" and inv: "rf_inv (reply m)" "rf_inv (flag m)" and no: "\<not> have_unknown_fields (ack_metadata m)"
    and n: "(\<Sum>v\<leftarrow>rf_list (flag m). UInt32Size out v) < 2 ^ 31"
  shows "\<exists>m' bytes. ack_ByteSize out ul m = Some (int (length bytes), m') \<and> ack_ToArray out ul m' = Some bytes"
proof -
  let ?f = "\<Sum>v\<leftarrow>rf_list (flag m). UInt32Size out v" and ?r = "\<Sum>v\<leftarrow>rf_list (reply m). EnumSize out v"
  let ?seq = "if ack_has_seqno m then WriteSInt64ToArray out 1 (ack_seqno m) else []"
  let ?time = "if has_downstreamacktimenanos m then WriteUInt64ToArray out 3 (downstreamacktimenanos m) else []"
  let ?len = "if 0 < current_size (flag m)
    then WriteTagToArray_field 4 WIRETYPE_LENGTH_DELIMITED @ WriteVarint32ToArray (unat (word_of_int ?f :: 32 word)) else []"
  define bytes where "bytes = ?seq @ concat (map (WriteEnumToArray out 2) (rf_list (reply m))) @ ?time @ ?len
    @ concat (map (WriteUInt32NoTagToArray out) (rf_list (flag m)))"
  have sz: "length (rf_list (reply m)) = current_size (reply m)" "length (rf_list (flag m)) = current_size (flag m)"
    using inv by simp_all
  have tags: "length (WriteTagToArray_field 1 WIRETYPE_VARINT) = 1" "length (WriteTagToArray_field 3 WIRETYPE_VARINT) = 1"
    "length (WriteTagToArray_field 4 WIRETYPE_LENGTH_DELIMITED) = 1"
    by (simp_all add: WriteTagToArray_field_def WriteTagToArray_def MakeTag_def kTagTypeBits_def varint_small)
  have lens: "int (length ?seq) = (if ack_has_seqno m then 1 + SInt64Size out (ack_seqno m) else 0)"
    "int (length ?time) = (if has_downstreamacktimenanos m then 1 + UInt64Size out (downstreamacktimenanos m) else 0)"
    "int (length ?len) = (if 0 < ?f then 1 + Int32Size out (word_of_int ?f) else 0)"
    "int (length (concat (map (WriteUInt32NoTagToArray out) (rf_list (flag m))))) = ?f"
    using sint64_codec.size_write [OF out] uint64_codec.size_write [OF out] uint32_codec.sizes_write [OF out, of "rf_list (flag m)"] tags
      flag_length [OF out flags_empty(2) [OF out] n] flags_empty [OF out, of "rf_list (flag m)"] sz
    by (auto simp: WriteSInt64ToArray_def WriteUInt64ToArray_def)
  have "ack_ByteSize out ul m = Some (int (length bytes), m\<lparr>flag_cached_byte_size := ?f, ack_cached_size := int (length bytes)\<rparr>)"
    using rf.sum_all [OF inv(1), of "current_size (reply m)" "EnumSize out" 0] rf.sum_all [OF inv(2), of "current_size (flag m)" "UInt32Size out" 0]
      sz lens reply_bytes [OF out, of "rf_list (reply m)"] no
    by (simp add: ack_ByteSize_def bytes_def Let_def)
  moreover have "ack_ToArray out ul (m\<lparr>flag_cached_byte_size := ?f, ack_cached_size := int (length bytes)\<rparr>) = Some bytes"
    using rf.get_all [OF inv(1), of "current_size (reply m)" "WriteEnumToArray out 2"]
      rf.get_all [OF inv(2), of "current_size (flag m)" "WriteUInt32NoTagToArray out"] sz no
    by (simp add: ack_ToArray_def bytes_def ack_has_seqno_def has_downstreamacktimenanos_def)
  ultimately show ?thesis
    by blast
qed

section \<open>A stream is written like an array\<close>

lemma emits_opt: "emits f bs \<Longrightarrow> emits (\<lambda>s. if c then f s else Some s) (if c then bs else [])"
  by (simp add: emits_def)

context growing_array
begin

lemma emits_all:
  assumes "inv f" and "\<And>x. emits (w x) (h x)"
  shows "n \<le> length (elems f) \<Longrightarrow>
    emits (ofold (\<lambda>i out. do { x \<leftarrow> get i f; w x out }) [0..<n]) (concat (map h (take n (elems f))))"
proof (induction n)
  case 0
  then show ?case
    using emits_Nil by simp
next
  case (Suc n)
  then have "get n f = Some (elems f ! n)" "n < length (elems f)"
    using get [OF assms(1), of n] by simp_all
  then have "ofold (\<lambda>i out. do { x \<leftarrow> get i f; w x out }) [0..<Suc n]
      = (\<lambda>s. Option.bind (ofold (\<lambda>i out. do { x \<leftarrow> get i f; w x out }) [0..<n] s) (w (elems f ! n)))"
    by (simp add: fun_eq_iff ofold_append)
  then show ?case
    using Suc emits_bind [OF _ assms(2) [of "elems f ! n"]] by (simp add: take_Suc_conv_app_nth)
qed

end

lemma ack_Serialize_ok:
  assumes wr: "wf_spec out ul wr" and out: "cos_spec out" and inv: "rf_inv (reply m)" "rf_inv (flag m)"
  shows "\<exists>bytes. ack_ToArray out ul m = Some bytes \<and> emits (ack_SerializeWithCachedSizes wr ul m) bytes"
proof -
  let ?seq = "if ack_has_seqno m then WriteSInt64ToArray out 1 (ack_seqno m) else []"
  let ?time = "if has_downstreamacktimenanos m then WriteUInt64ToArray out 3 (downstreamacktimenanos m) else []"
  let ?len = "if 0 < current_size (flag m)
    then WriteTagToArray_field 4 WIRETYPE_LENGTH_DELIMITED @ WriteVarint32ToArray (unat (word_of_int (flag_cached_byte_size m) :: 32 word)) else []"
  let ?unk = "if have_unknown_fields (ack_metadata m) then SerializeUnknownFieldsToArray ul (unknown_fields ul (ack_metadata m)) else []"
  let ?r = "concat (map (WriteEnumToArray out 2) (rf_list (reply m)))" and ?f = "concat (map (WriteUInt32NoTagToArray out) (rf_list (flag m)))"
  have slow: "cos_slow_spec (wf_slow wr)"
    using wr by (simp add: wf_spec_def)
  have sz: "length (rf_list (reply m)) = current_size (reply m)" "length (rf_list (flag m)) = current_size (flag m)"
    using inv by simp_all
  have "ack_ToArray out ul m = Some (?seq @ ?r @ ?time @ ?len @ ?f @ ?unk)"
    using rf.get_all [OF inv(1), of "current_size (reply m)" "WriteEnumToArray out 2"]
      rf.get_all [OF inv(2), of "current_size (flag m)" "WriteUInt32NoTagToArray out"] sz by (simp add: ack_ToArray_def)
  moreover have "emits (ack_SerializeWithCachedSizes wr ul m) (?seq @ ?r @ ?time @ ?len @ ?f @ ?unk)"
  proof -
    have 1: "emits (\<lambda>s. Some (if_set (ack_has_seqno m) (WriteSInt64 wr 1 (ack_seqno m)) s)) ?seq"
      "emits (\<lambda>s. Some (if_set (has_downstreamacktimenanos m) (WriteUInt64 wr 3 (downstreamacktimenanos m)) s)) ?time"
      "emits (\<lambda>s. Some (if_set (have_unknown_fields (ack_metadata m)) (SerializeUnknownFields wr (unknown_fields ul (ack_metadata m))) s)) ?unk"
      using wr by (simp_all add: emits_appends appends_when wf_spec_def)
    have 2: "emits (ofold (\<lambda>i output. do { v \<leftarrow> Get i (reply m); Some (WriteEnum wr 2 v output) }) [0..<current_size (reply m)]) ?r"
      using rf.emits_all [OF inv(1), of "\<lambda>v output. Some (WriteEnum wr 2 v output)" "WriteEnumToArray out 2" "current_size (reply m)"] wr sz
      by (simp add: emits_appends wf_spec_def)
    have 3: "emits (ofold (\<lambda>i output. do { v \<leftarrow> Get i (flag m); WriteUInt32NoTag (wf_slow wr) v output }) [0..<current_size (flag m)]) ?f"
      using rf.emits_all [OF inv(2), of "WriteUInt32NoTag (wf_slow wr)" "WriteUInt32NoTagToArray out" "current_size (flag m)"]
        NoTag_emits(3) [OF slow out] sz by simp
    have 4: "emits (\<lambda>s. if 0 < current_size (flag m)
        then Option.bind (WriteTag_field (wf_slow wr) 4 WIRETYPE_LENGTH_DELIMITED s)
               (WriteVarint32 (wf_slow wr) (word_of_int (flag_cached_byte_size m)))
        else Some s) ?len"
      by (intro emits_opt emits_bind WriteTag_field_emits WriteVarint32_ok slow)
    show ?thesis
      using emits_bind [OF 1(1) emits_bind [OF 2 emits_bind [OF 1(2) emits_bind [OF 4 emits_bind [OF 3 1(3)]]]]]
      by (simp only: ack_SerializeWithCachedSizes_def [abs_def] Let_def bind.bind_lunit)
  qed
  ultimately show ?thesis
    by blast
qed

section \<open>Properties\<close>





text \<open>
  A flag that is not packed, followed by packed flags, is misread: the number of bytes of the packed flags is taken for a
  flag, and the flags themselves for tags.
\<close>

lemma mixed_flags_misread:
  "\<exists>f s. ReadRepeatedPrimitive (ReadPrimitive_uint32 flat_lib) 0 34 (flat_cis 100 () [5, 34, 1, 7]) RepeatedField = Some (True, f, s)
     \<and> rf_list f = [5, 1] \<and> cis_buffer s = [7]"
proof -
  have four: "replicate 4 x = [x, x, x, x]" for x :: "32 word"
    by (simp add: numeral_eq_Suc)
  have three: "(3 :: nat) = Suc (Suc (Suc 0))"
    by simp
  show ?thesis
    by (simp add: ReadRepeatedPrimitive_def ReadPrimitive_uint32_def ReadVarint32_def flat_cis_def Advance_def Add_def Reserve_def
        RepeatedField_def kMinRepeatedFieldAllocationSize_def put_element_def Capacity_def four three ExpectTag_def AddAlreadyReserved_def
        rf_list_def rf_array_def)
qed

end
