(* ===== verification/Spec2Isabelle.thy ===== *)
theory Spec2Isabelle
  imports Lock_Cache Namenode_Theorems Handle Fuse Fifo Rpc_Stubs Pipeline_Ack
begin

text \<open>
  \<^bold>\<open>A verification of the yfs file system\<close> (\<^verbatim>\<open>src/yfs\<close>).

  The program is a network file system in layers. A disk of 2048 blocks (\<^verbatim>\<open>disk\<close>,
  \<^verbatim>\<open>block_manager\<close>) carries an inode layer (\<^verbatim>\<open>inode_manager\<close>); the extent server exports it
  by RPC, the extent client calls it. A lock server hands out locks by inode number; a second version of it lets
  clients cache their locks. The class \<^verbatim>\<open>yfs_client\<close> builds directories, files and symbolic links from extents, under
  these locks. It has two users: the FUSE front end, which serves the kernel, and the name node, which serves HDFS clients
  and leaves the transfer of blocks to data nodes.

  \<^bold>\<open>Conventions.\<close> A definition has the name of the function it models, with a prefix where the
  name is taken twice (\<open>bm_\<close>, \<open>im_\<close>, \<open>es_\<close>, \<open>cl_\<close>, \<open>ls_\<close>, \<open>lc_\<close>, \<open>lsc_\<close>, \<open>yfs_\<close>, \<open>fuse_\<close>, \<open>dn_\<close>). State is passed
  explicitly. A result \<open>None\<close> is a call that does not return normally: undefined behaviour (an access
  outside an array, a null dereference), a failed \<^verbatim>\<open>VERIFY\<close>, an exception, or a wait that never
  ends. Reference parameters are passed in and out. Unsigned integers are natural numbers, reduced modulo
  their width where they are stored or converted; bytes are 8-bit words. Clock readings
  and uninitialised memory come from an environment \<open>env\<close> about which nothing is assumed.

  \<^bold>\<open>Theories: files.\<close>
  \<^item> \<open>Yfs_Prelude\<close>: memory, little-endian integers, environments, loops, shared lemmas.
  \<^item> \<open>Block_Manager\<close>: \<^verbatim>\<open>disk\<close> and \<^verbatim>\<open>block_manager\<close> of \<^verbatim>\<open>inode_manager.cc\<close>, with the bitmap
    as bytes; the contracts \<open>block_device\<close> and \<open>block_allocator\<close>, interpreted on them.
  \<^item> \<open>Inode_Manager\<close>: all operations of \<^verbatim>\<open>inode_manager\<close>; \<^verbatim>\<open>write_file\<close> is split into its eight cases.
  \<^item> \<open>Inode_Layout\<close>, \<open>File_Invariant\<close>: the inode table as a map, the invariant \<open>fs_inv\<close> (every file
    owns the blocks its size calls for, owned blocks are marked and belong to one file), the
    abstract state \<open>abs_fs\<close>, and the frame rule for operations on one file.
  \<^item> \<open>File_Loops\<close>, \<open>File_Read\<close>, \<open>File_Write\<close>, \<open>File_Large\<close>, \<open>File_Create\<close>, \<open>File_Blocks\<close>: what the
    loops and the operations do to the abstract state.
  \<^item> \<open>Inode_Theorems\<close>: the theorems about blocks, inodes and files.
  \<^item> \<open>Extent_Server\<close>, \<open>Extent_Client\<close>: the handlers and stubs of \<^verbatim>\<open>extent_server.cc\<close> and
    \<^verbatim>\<open>extent_client.cc\<close>. The transport is a parameter: each call is delivered, not executed, or executed
    with its reply lost.
  \<^item> \<open>Dir_Format\<close>: the text format of directories and the scanners of \<^verbatim>\<open>yfs_client.cc\<close>.
  \<^item> \<open>Yfs_Client\<close>: the operations of \<^verbatim>\<open>yfs_client.cc\<close> over a record of the operations they call.
  \<^item> \<open>Yfs_Spec\<close>, \<open>Yfs_Ops\<close>: the contract \<open>extent_store\<close>, its interpretation on the servers above, and the
    operations under it.
  \<^item> \<open>Yfs_Theorems\<close>: the theorems about the extent service and the file system.
  \<^item> \<open>Fuse\<close>: the request handlers of \<^verbatim>\<open>fuse.cc\<close> and the session that serves them in order; its lemmas
    extend the contract \<open>extent_store\<close>.

  \<^bold>\<open>Theories: locks.\<close>
  \<^item> \<open>Lock_Server\<close>: \<^verbatim>\<open>lock_server.cc\<close> and \<^verbatim>\<open>lock_client.cc\<close>, as calls and as a step relation of
    interleaved handler threads.
  \<^item> \<open>Lock_Cache\<close>: \<^verbatim>\<open>lock_server_cache.cc\<close> and \<^verbatim>\<open>lock_client_cache.cc\<close>, as threads of control that pass
    between processes.

  \<^bold>\<open>Theories: the distributed file system.\<close>
  \<^item> \<open>Namenode\<close>, \<open>Namenode_Theorems\<close>: \<^verbatim>\<open>namenode.cc\<close> and the request handlers of \<^verbatim>\<open>namenode_base.cc\<close>.
  \<^item> \<open>Datanode\<close>: \<^verbatim>\<open>datanode.cc\<close> and \<^verbatim>\<open>datanode_base.cc\<close>, with packets as bytes and the pipeline of mirrors.
  \<^item> \<open>Hrpc\<close>: the framing of protobuf messages in \<^verbatim>\<open>hrpc.h\<close>.

  \<^bold>\<open>Theories: remote calls.\<close>
  \<^item> \<open>Marshall\<close>, \<open>Rpc_Stubs\<close>: \<^verbatim>\<open>rpc/marshall.h\<close> and the templates for up to seven arguments in \<^verbatim>\<open>rpc/rpc.h\<close>.
  \<^item> \<open>Handle\<close>: the cache of connections, \<^verbatim>\<open>handle.cc\<close>.
  \<^item> \<open>Fifo\<close>: the bounded queue \<^verbatim>\<open>rpc/fifo.h\<close>.

  \<^bold>\<open>Theories: protobuf messages\<close> (\<^verbatim>\<open>proto/output\<close>).
  \<^item> \<open>Coded_Stream\<close>: the inline readers and writers of \<^verbatim>\<open>io/coded_stream.h\<close>, with the fast path inside the buffer written
    out and the fallback at its end as a parameter.
  \<^item> \<open>Repeated_Field\<close>: the class \<^verbatim>\<open>RepeatedField\<close> of \<^verbatim>\<open>repeated_field.h\<close>; the contract \<open>growing_array\<close>, interpreted on it.
  \<^item> \<open>Wire_Format\<close>: tags, zig-zag, readers, writers and sizes of \<^verbatim>\<open>wire_format_lite.h\<close> and \<^verbatim>\<open>wire_format_lite_inl.h\<close>; the
    contracts \<open>wire_codec\<close> and \<open>fixed_codec\<close>, interpreted on eight and four types, carry the readers of repeated fields.
  \<^item> \<open>Proto_Message\<close>: message metadata, and what generated parsers have in common: the loop with its jumps between cases, unknown
    fields; the contract \<open>message_parser\<close>.
  \<^item> \<open>Packet_Header\<close>, \<open>Pipeline_Ack\<close>: the two messages of \<^verbatim>\<open>datanode.pb.cc\<close> that the data node exchanges for each packet,
    interpretations of \<open>message_parser\<close>.

  \<^bold>\<open>What is shown.\<close> Blocks and inodes are allocated correctly until the disk is full, files of at most 100 blocks read
  back what was written, the block view and the byte view of a file agree, the extent server
  is a map from ids to strings, and directories list and find what was added. The kernel's reading requests are all
  answered and change nothing, those that make files keep the tree of directories well-formed. Both
  lock services are mutually exclusive. The name node resolves paths as lookups step by step, and a block that is written
  through a data node is passed on and read back. What is packed or framed on one side of a connection is unpacked
  on the other, a remote call is a call of the registered method, the handles of connections never see freed
  memory, and the queue loses neither elements nor wake-ups. A repeated field is a list; tags and values of every integer type
  survive being written and read, also on the paths that read straight from the buffer. The messages for packets and their
  acknowledgement parse to what was serialised, so that what the data node needs of the codec of packet headers (\<open>header_codec\<close>) holds of the
  generated code; parsing into a message that is not empty is merging.

  Where the code does something else than it means to, a theorem says what it does: files of
  more than 100 blocks, removal of files, a full disk, names that occur in other names,
  \<^verbatim>\<open>readdir\<close> of a file, the lost wake-up of the lock server, the owner of a cached lock that is read without its mutex, renaming
  an entry between two others, heartbeats, the count in the reply to a write, packets that reach over the end of a block, packets of a client that asks for
  a sync, and flags that come both packed and unpacked.

  \<^bold>\<open>Bounds.\<close> Every loop is structural or has a termination proof, but for the loop of the parsers and the one that reads up to a limit: they
  end when the library's functions move on, so they are partial functions, and the theorems about messages show that they return. The only bound is the number of requests that \<open>dn_worker\<close>
  serves on a connection; \<open>dn_worker_enough\<close> shows that the number of bytes that come in is enough. File contents are
  bounded by 100 blocks in the theorems about writing because the code is wrong above. Repeated fields are bounded by \<open>2 ^ 30\<close> elements, where
  doubling the size overflows.

  \<^bold>\<open>Parameters.\<close> Code that is not in the sources is an argument: the transport of remote calls, \<^verbatim>\<open>pack\<close> and \<^verbatim>\<open>unpack\<close>
  (\<open>pack_spec\<close>, \<open>codec\<close>, \<open>delivers\<close>), the parsing of request messages, the functions of the
  protobuf library behind the inline ones (\<open>cis_spec\<close>, \<open>cos_spec\<close>, \<open>cos_slow_spec\<close>, \<open>skip_spec\<close>, \<open>wf_spec\<close>), the layout of a directory entry of the FUSE
  library, and what a socket delivers. Each hypothesis about them has a concrete instance for which it is proved.

  \<^bold>\<open>Not modelled.\<close> Sockets, threads and the implementation of the RPC library (\<^verbatim>\<open>connection.h\<close>, \<^verbatim>\<open>pollmgr.h\<close>,
  \<^verbatim>\<open>thr_pool.h\<close>, \<^verbatim>\<open>method_thread.h\<close> and the transport of \<^verbatim>\<open>rpc.h\<close>: the sources only declare it, or wrap
  a system call); the generated code of the other messages, which repeats that of the two modelled, with strings and embedded
  messages that rest on virtual calls into the library; floating-point fields, groups, reflection and the headers of the protobuf
  library that only declare compiled code; the clock of another platform; start-up code, test drivers, and output for debugging.
\<close>

end
